(* ===== verification/Irc_Prelude.thy ===== *)
theory Irc_Prelude
  imports Main "HOL-Library.Monad_Syntax"
begin

text \<open>
  Shared vocabulary of the development: byte strings, the Go string primitives that the packages
  call, panics as \<open>None\<close>, and the interface of an encoder with its decoder.

  A Go \<open>string\<close> or \<open>[]byte\<close> is a list of 8-bit \<open>char\<close>s. A Go operation that may
  panic has a result of type \<open>'a go\<close>: \<open>None\<close> is the run-time panic. Go's \<open>-1\<close> for
  "not found" is \<open>None\<close> in the index functions.
\<close>

named_theorems go_eval \<open>defining equations kept out of the simpset, to evaluate closed terms\<close>

named_theorems str_simps \<open>equations of the Go string primitives on concrete shapes\<close>

lemmas char_eval [go_eval] = char_of_def bit_Suc_0_iff

type_synonym 'a go = "'a option"

abbreviation byte :: "char \<Rightarrow> nat" where
  "byte c \<equiv> of_char c"

subsection \<open>package strings\<close>

fun IndexByte :: "string \<Rightarrow> char \<Rightarrow> nat option" where
  "IndexByte [] c = None"
| "IndexByte (x # xs) c = (if x = c then Some 0 else map_option Suc (IndexByte xs c))"

definition HasPrefix :: "string \<Rightarrow> string \<Rightarrow> bool" where
  "HasPrefix s p \<longleftrightarrow> take (length p) s = p"

definition HasSuffix :: "string \<Rightarrow> string \<Rightarrow> bool" where
  "HasSuffix s p \<longleftrightarrow> length p \<le> length s \<and> drop (length s - length p) s = p"

definition TrimPrefix :: "string \<Rightarrow> string \<Rightarrow> string" where
  "TrimPrefix s p = (if HasPrefix s p then drop (length p) s else s)"

definition TrimSuffix :: "string \<Rightarrow> string \<Rightarrow> string" where
  "TrimSuffix s p = (if HasSuffix s p then take (length s - length p) s else s)"

text \<open>\<open>strings.ToUpper\<close> and \<open>strings.ToLower\<close> on ASCII bytes.\<close>

definition upper_byte :: "char \<Rightarrow> char" where
  "upper_byte c = (if 97 \<le> byte c \<and> byte c \<le> 122 then char_of (byte c - 32) else c)"

definition lower_byte :: "char \<Rightarrow> char" where
  "lower_byte c = (if 65 \<le> byte c \<and> byte c \<le> 90 then char_of (byte c + 32) else c)"

definition ToUpperASCII :: "string \<Rightarrow> string" where
  "ToUpperASCII s = map upper_byte s"

subsection \<open>Facts about the primitives\<close>

lemma IndexByte_None_iff [simp]: "IndexByte s c = None \<longleftrightarrow> c \<notin> set s"
  by (induction s) auto

lemma IndexByte_absent [simp]: "c \<notin> set s \<Longrightarrow> IndexByte s c = None"
  by simp

lemma IndexByte_found [simp]: "(\<exists>i. IndexByte s c = Some i) \<longleftrightarrow> c \<in> set s"
  using IndexByte_None_iff [of s c] by (simp flip: not_None_eq del: IndexByte_None_iff)

lemma IndexByte_append [str_simps]: "c \<notin> set a \<Longrightarrow> IndexByte (a @ c # b) c = Some (length a)"
  by (induction a) auto

lemma IndexByte_SomeD:
  "IndexByte s c = Some i \<Longrightarrow> i < length s \<and> s ! i = c \<and> c \<notin> set (take i s)"
proof (induction s arbitrary: i)
  case Nil
  then show ?case by simp
next
  case (Cons x xs)
  then show ?case by (auto split: if_splits)
qed

lemma IndexByte_Some_split:
  assumes "IndexByte s c = Some i"
  shows "s = take i s @ c # drop (Suc i) s" and "c \<notin> set (take i s)"
  using IndexByte_SomeD [OF assms] by (auto simp: id_take_nth_drop)

lemma IndexByte_less: "IndexByte s c = Some i \<Longrightarrow> i < length s"
  by (simp add: IndexByte_SomeD)

lemma HasPrefix_append [str_simps]: "HasPrefix (p @ s) p"
  by (simp add: HasPrefix_def)

lemma HasPrefixE: "HasPrefix s p \<Longrightarrow> (\<And>r. s = p @ r \<Longrightarrow> P) \<Longrightarrow> P"
  unfolding HasPrefix_def by (metis append_take_drop_id)

lemma TrimPrefix_append [str_simps]: "TrimPrefix (p @ s) p = s"
  by (simp add: TrimPrefix_def HasPrefix_append)

lemma HasSuffix_append [str_simps]: "HasSuffix (s @ p) p"
  by (simp add: HasSuffix_def)

lemma TrimSuffix_append [str_simps]: "TrimSuffix (s @ p) p = s"
  by (simp add: TrimSuffix_def HasSuffix_append)

lemma HasSuffix_single: "HasSuffix s [c] \<longleftrightarrow> s \<noteq> [] \<and> last s = c"
  by (cases s rule: rev_cases) (auto simp: HasSuffix_def)

lemma TrimSuffix_single_other [str_simps]:
  "(s = [] \<or> last s \<noteq> c) \<Longrightarrow> TrimSuffix s [c] = s"
  by (auto simp: TrimSuffix_def HasSuffix_single)

lemma TrimSuffix_single_absent: "c \<notin> set s \<Longrightarrow> TrimSuffix s [c] = s"
  by (rule TrimSuffix_single_other) (metis last_in_set)

lemma TrimSuffix_split: "(TrimSuffix s p = s) \<or> (s = TrimSuffix s p @ p)"
  unfolding TrimSuffix_def HasSuffix_def by (metis append_take_drop_id)

lemma length_TrimSuffix: "length (TrimSuffix s p) \<le> length s"
  by (simp add: TrimSuffix_def)

lemma set_TrimSuffix: "set (TrimSuffix s p) \<subseteq> set s"
  by (auto simp: TrimSuffix_def dest: in_set_takeD)

lemma byte_less_256 [simp]: "byte c < 256"
  by simp

lemma char_eqI: "byte c = byte d \<Longrightarrow> c = d"
  by simp

lemma byte_char_of [simp]: "n < 256 \<Longrightarrow> byte (char_of n) = n"
  by simp

lemma byte_upper_byte:
  "byte (upper_byte c) = (if 97 \<le> byte c \<and> byte c \<le> 122 then byte c - 32 else byte c)"
  using byte_less_256 [of c] by (auto simp: upper_byte_def simp del: byte_less_256)

lemma upper_byte_idem [simp]: "upper_byte (upper_byte c) = upper_byte c"
  by (rule char_eqI) (auto simp: byte_upper_byte)

lemma ToUpperASCII_idem [simp]: "ToUpperASCII (ToUpperASCII s) = ToUpperASCII s"
  by (simp add: ToUpperASCII_def)

lemma length_ToUpperASCII [simp]: "length (ToUpperASCII s) = length s"
  by (simp add: ToUpperASCII_def)

lemma ToUpperASCII_eq_Nil [simp]: "ToUpperASCII s = [] \<longleftrightarrow> s = []"
  by (simp add: ToUpperASCII_def)

text \<open>Upper-casing moves letters to letters only: no separator or control byte appears.\<close>

lemma upper_byte_eq_iff:
  "\<not> (65 \<le> byte d \<and> byte d \<le> 90) \<Longrightarrow> \<not> (97 \<le> byte d \<and> byte d \<le> 122) \<Longrightarrow>
   upper_byte c = d \<longleftrightarrow> c = d"
proof
  assume range: "\<not> (65 \<le> byte d \<and> byte d \<le> 90)" "\<not> (97 \<le> byte d \<and> byte d \<le> 122)"
    and "upper_byte c = d"
  then have "byte d = (if 97 \<le> byte c \<and> byte c \<le> 122 then byte c - 32 else byte c)"
    using byte_upper_byte [of c] by simp
  with range show "c = d"
    by (intro char_eqI) (auto split: if_splits)
qed (auto simp: upper_byte_def)

lemma set_ToUpperASCII:
  "\<not> (65 \<le> byte d \<and> byte d \<le> 90) \<Longrightarrow> \<not> (97 \<le> byte d \<and> byte d \<le> 122) \<Longrightarrow>
   d \<in> set (ToUpperASCII s) \<longleftrightarrow> d \<in> set s"
  unfolding ToUpperASCII_def set_map image_iff using upper_byte_eq_iff [of d] by metis

lemma take_1_nth: "Suc 0 \<le> length xs \<Longrightarrow> take (Suc 0) xs = [xs ! 0]"
  by (cases xs) auto

lemma take_2_nth: "2 \<le> length xs \<Longrightarrow> take 2 xs = [xs ! 0, xs ! 1]"
  using take_1_nth [of "tl xs"] by (cases xs) (auto simp: numeral_2_eq_2)

lemma take_3_nth: "3 \<le> length xs \<Longrightarrow> take 3 xs = [xs ! 0, xs ! 1, xs ! 2]"
  using take_2_nth [of "tl xs"] by (cases xs) (auto simp: numeral_3_eq_3 numeral_2_eq_2)

subsection \<open>Interface: an encoder and its decoder\<close>

text \<open>
  Several operations of the packages come in pairs, an encoder and a decoder that inverts it on the
  values it was made for: tag values, SASL responses, labels, names of message sources. What a client
  of such a pair relies on is this law; that distinct values have distinct encodings follows from it.
\<close>

locale codec =
  fixes enc :: "'a \<Rightarrow> 'b"
    and dec :: "'b \<Rightarrow> 'a"
    and ok :: "'a \<Rightarrow> bool"
  assumes dec_enc: "ok x \<Longrightarrow> dec (enc x) = x"
begin

lemma enc_inj: "ok x \<Longrightarrow> ok y \<Longrightarrow> enc x = enc y \<longleftrightarrow> x = y"
  by (metis dec_enc)

lemma inj_on_enc: "inj_on enc {x. ok x}"
  by (rule inj_onI) (simp add: enc_inj)

lemma dec_image: "dec ` enc ` {x. ok x} = {x. ok x}"
  by (auto simp: dec_enc image_iff)

end

end
