(* ===== verification/Go_Utf8.thy ===== *)
theory Go_Utf8
  imports Irc_Prelude
begin

text \<open>
  The operations of Go's \<open>unicode/utf8\<close> package that the library calls, on byte strings:
  \<open>RuneStart\<close>, \<open>DecodeRune\<close>, \<open>DecodeLastRune\<close>, \<open>ValidString\<close>, \<open>RuneLen\<close>,
  \<open>EncodeRune\<close>, and the conversions between strings and rune slices. A rune is a natural number.
  The second half characterises well-formed sequences and proves that validity splits at sequence
  boundaries and that encoding and decoding are inverse.
\<close>

definition RuneError :: nat where
  "RuneError = 65533"

definition RuneStart :: "char \<Rightarrow> bool" where
  "RuneStart b \<longleftrightarrow> \<not> (128 \<le> byte b \<and> byte b < 192)"

text \<open>
  The \<open>first\<close> table of the package: for the first byte of a multi-byte sequence, the length of
  the sequence and the range of its second byte.
\<close>

definition lead :: "nat \<Rightarrow> (nat \<times> nat \<times> nat) option" where
  "lead b =
    (if b < 194 then None
     else if b < 224 then Some (2, 128, 191)
     else if b = 224 then Some (3, 160, 191)
     else if b = 237 then Some (3, 128, 159)
     else if b < 240 then Some (3, 128, 191)
     else if b = 240 then Some (4, 144, 191)
     else if b < 244 then Some (4, 128, 191)
     else if b = 244 then Some (4, 128, 143)
     else None)"

abbreviation cont :: "char \<Rightarrow> bool" where
  "cont c \<equiv> 128 \<le> byte c \<and> byte c \<le> 191"

fun DecodeRune :: "string \<Rightarrow> nat \<times> nat" where
  "DecodeRune [] = (RuneError, 0)"
| "DecodeRune (c # cs) =
    (if byte c < 128 then (byte c, 1)
     else case lead (byte c) of
       None \<Rightarrow> (RuneError, 1)
     | Some (sz, lo, hi) \<Rightarrow>
        (if length (c # cs) < sz then (RuneError, 1)
         else if byte (cs ! 0) < lo \<or> hi < byte (cs ! 0) then (RuneError, 1)
         else if sz \<le> 2 then ((byte c mod 32) * 64 + byte (cs ! 0) mod 64, 2)
         else if \<not> cont (cs ! 1) then (RuneError, 1)
         else if sz \<le> 3 then
           ((byte c mod 16) * 4096 + (byte (cs ! 0) mod 64) * 64 + byte (cs ! 1) mod 64, 3)
         else if \<not> cont (cs ! 2) then (RuneError, 1)
         else ((byte c mod 8) * 262144 + (byte (cs ! 0) mod 64) * 4096
               + (byte (cs ! 1) mod 64) * 64 + byte (cs ! 2) mod 64, 4)))"

text \<open>
  \<open>DecodeLastRune\<close> scans back over at most \<open>UTFMax = 4\<close> bytes for a byte that can start a
  sequence, and accepts what it decodes there only if it ends at the end of the input.
\<close>

fun scan_start :: "string \<Rightarrow> nat \<Rightarrow> nat \<Rightarrow> nat" where
  "scan_start p lim i =
    (if RuneStart (p ! i) then i else if i \<le> lim then i - 1 else scan_start p lim (i - 1))"

declare scan_start.simps [simp del, go_eval]

definition DecodeLastRune :: "string \<Rightarrow> nat \<times> nat" where
  "DecodeLastRune p =
    (if p = [] then (RuneError, 0)
     else if byte (last p) < 128 then (byte (last p), 1)
     else
       let e = length p;
           start = (if e = 1 then 0 else scan_start p (e - 4) (e - 2));
           (r, size) = DecodeRune (drop start p)
       in if start + size \<noteq> e then (RuneError, 1) else (r, size))"

lemma lead_range:
  "lead b = Some (sz, lo, hi) \<Longrightarrow> 2 \<le> sz \<and> sz \<le> 4 \<and> 128 \<le> lo \<and> hi \<le> 191"
  by (auto simp: lead_def split: if_splits)

lemma DecodeRune_size: "s \<noteq> [] \<Longrightarrow> 1 \<le> snd (DecodeRune s) \<and> snd (DecodeRune s) \<le> length s"
  by (cases s) (auto split: option.splits dest!: lead_range simp: Suc_le_eq)

lemma DecodeRune_size_4: "snd (DecodeRune s) \<le> 4"
  by (cases s) (auto split: option.splits)

function ValidString :: "string \<Rightarrow> bool" where
  "ValidString s =
    (if s = [] then True
     else if fst (DecodeRune s) = RuneError \<and> snd (DecodeRune s) = 1 then False
     else ValidString (drop (snd (DecodeRune s)) s))"
  by pat_completeness auto
termination
  by (relation "measure length") (use DecodeRune_size in \<open>force simp: Suc_le_eq\<close>)+

declare ValidString.simps [simp del, go_eval]

text \<open>\<open>[]rune(s)\<close>, and \<open>for _, r := range s\<close>: invalid bytes are read as \<open>RuneError\<close>.\<close>

function runes :: "string \<Rightarrow> nat list" where
  "runes s =
    (if s = [] then [] else fst (DecodeRune s) # runes (drop (snd (DecodeRune s)) s))"
  by pat_completeness auto
termination
  by (relation "measure length") (use DecodeRune_size in \<open>force simp: Suc_le_eq\<close>)+

declare runes.simps [simp del, go_eval]

definition valid_rune :: "nat \<Rightarrow> bool" where
  "valid_rune r \<longleftrightarrow> r < 55296 \<or> (57344 \<le> r \<and> r < 1114112)"

definition RuneLen :: "nat \<Rightarrow> int" where
  "RuneLen r =
    (if r < 128 then 1 else if r < 2048 then 2
     else if 55296 \<le> r \<and> r < 57344 then -1
     else if r < 65536 then 3 else if r < 1114112 then 4 else -1)"

definition EncodeRune :: "nat \<Rightarrow> string" where
  "EncodeRune r0 =
    (let r = (if valid_rune r0 then r0 else RuneError) in
     if r < 128 then [char_of r]
     else if r < 2048 then [char_of (192 + r div 64), char_of (128 + r mod 64)]
     else if r < 65536 then
       [char_of (224 + r div 4096), char_of (128 + (r div 64) mod 64), char_of (128 + r mod 64)]
     else
       [char_of (240 + r div 262144), char_of (128 + (r div 4096) mod 64),
        char_of (128 + (r div 64) mod 64), char_of (128 + r mod 64)])"

definition string_of_runes :: "nat list \<Rightarrow> string" where
  "string_of_runes rs = concat (map EncodeRune rs)"

subsection \<open>Well-formed sequences\<close>

text \<open>
  \<open>utf8_seq u\<close>: \<open>u\<close> is the whole encoding of one rune.
\<close>

fun utf8_seq :: "string \<Rightarrow> bool" where
  "utf8_seq [] = False"
| "utf8_seq (c # cs) =
    (if byte c < 128 then cs = []
     else case lead (byte c) of
       None \<Rightarrow> False
     | Some (sz, lo, hi) \<Rightarrow>
         length (c # cs) = sz \<and> lo \<le> byte (hd cs) \<and> byte (hd cs) \<le> hi \<and> (\<forall>x\<in>set (tl cs). cont x))"

lemma lead_Some_ge: "lead b = Some x \<Longrightarrow> 194 \<le> b \<and> b < 245"
  by (auto simp: lead_def split: if_splits)

lemma utf8_seq_cases [consumes 1, case_names ascii multi]:
  assumes "utf8_seq u"
  obtains (ascii) c where "u = [c]" "byte c < 128"
    | (multi) c d cs lo hi where "u = c # d # cs" "194 \<le> byte c" "lead (byte c) = Some (length u, lo, hi)"
        "lo \<le> byte d" "byte d \<le> hi" "cont d" "\<forall>x\<in>set cs. cont x" "length u \<le> 4"
proof (cases u)
  case Nil
  with assms show ?thesis by simp
next
  case (Cons c cs)
  show ?thesis
  proof (cases "byte c < 128")
    case True
    with assms Cons show ?thesis by (intro ascii) auto
  next
    case False
    with assms Cons obtain lo hi where l: "lead (byte c) = Some (length u, lo, hi)"
      and "lo \<le> byte (hd cs)" "byte (hd cs) \<le> hi" "\<forall>x\<in>set (tl cs). cont x"
      by (auto split: option.splits)
    moreover obtain d ds where "cs = d # ds"
      using lead_range [OF l] Cons by (cases cs) auto
    ultimately show ?thesis
      using lead_range [OF l] lead_Some_ge [OF l] Cons by (intro multi [of c d ds lo hi]) auto
  qed
qed

lemma utf8_seq_multiI:
  "lead (byte c) = Some (length (c # d # cs), lo, hi) \<Longrightarrow> lo \<le> byte d \<Longrightarrow> byte d \<le> hi \<Longrightarrow>
   \<forall>x\<in>set cs. cont x \<Longrightarrow> utf8_seq (c # d # cs)"
  using lead_Some_ge [of "byte c"] by auto

lemma utf8_seq_ascii [simp]: "byte c < 128 \<Longrightarrow> utf8_seq [c]"
  by simp

declare utf8_seq.simps(2) [simp del] utf8_seq.simps [go_eval]

lemma utf8_seq_not_Nil: "utf8_seq u \<Longrightarrow> u \<noteq> []"
  by auto

lemma utf8_seq_length: "utf8_seq u \<Longrightarrow> 1 \<le> length u \<and> length u \<le> 4"
  by (cases rule: utf8_seq_cases) auto

lemma DecodeRune_seq:
  assumes "utf8_seq u"
  shows "DecodeRune (u @ t) = (fst (DecodeRune u), length u)"
  using assms
proof (cases rule: utf8_seq_cases)
  case (multi c d cs lo hi)
  then have "length cs \<le> 2" by simp
  then have "length cs = 0 \<or> length cs = 1 \<or> length cs = 2" by linarith
  then have "cs = [] \<or> (\<exists>e. cs = [e]) \<or> (\<exists>e f. cs = [e, f])"
    by (auto simp: length_Suc_conv numeral_2_eq_2)
  with multi show ?thesis by auto
qed simp

lemma DecodeRune_seq_self: "utf8_seq u \<Longrightarrow> DecodeRune u = (fst (DecodeRune u), length u)"
  using DecodeRune_seq [of u "[]"] by simp

lemma utf8_seq_not_error:
  assumes "utf8_seq u" shows "\<not> (fst (DecodeRune u) = RuneError \<and> length u = 1)"
  using assms by (cases rule: utf8_seq_cases) (auto simp: RuneError_def)

lemma DecodeRune_ascii [simp]: "byte c < 128 \<Longrightarrow> DecodeRune (c # s) = (byte c, 1)"
  by simp

lemma DecodeRune_short:
  "lead (byte c) = Some (sz, lo, hi) \<Longrightarrow> Suc (length cs) < sz \<Longrightarrow> DecodeRune (c # cs) = (RuneError, 1)"
  using lead_Some_ge [of "byte c"] by auto

text \<open>What \<open>DecodeRune\<close> does on a non-empty input: an error of size 1, or one sequence.\<close>

lemma DecodeRune_cases [consumes 1, case_names error seq]:
  assumes "s \<noteq> []"
  obtains (error) "DecodeRune s = (RuneError, 1)"
    | (seq) u t where "s = u @ t" "utf8_seq u" "DecodeRune s = (fst (DecodeRune u), length u)"
proof (cases "DecodeRune s = (RuneError, 1)")
  case True
  then show ?thesis by (rule error)
next
  case False
  let ?n = "snd (DecodeRune s)"
  obtain c cs where s: "s = c # cs" using assms by (cases s) auto
  have "utf8_seq (take ?n s)"
  proof (cases "byte c < 128")
    case True
    then show ?thesis using s by simp
  next
    case ge: False
    with False s obtain sz lo hi where l: "lead (byte c) = Some (sz, lo, hi)"
      by (auto split: option.splits)
    with False s ge have n: "sz \<le> length s" "lo \<le> byte (cs ! 0)" "byte (cs ! 0) \<le> hi" "?n = sz"
      "3 \<le> sz \<Longrightarrow> cont (cs ! 1)" "4 \<le> sz \<Longrightarrow> cont (cs ! 2)"
      using lead_range [OF l] by (auto split: if_splits)
    have "sz = 2 \<or> sz = 3 \<or> sz = 4" using lead_range [OF l] by auto
    then have "\<exists>d ds. take (sz - 1) cs = d # ds \<and> d = cs ! 0 \<and> length ds = sz - 2 \<and> (\<forall>x\<in>set ds. cont x)"
    proof (elim disjE)
      assume "sz = 2" then show ?thesis using n(1) s by (auto simp: take_1_nth)
    next
      assume "sz = 3" then show ?thesis using n(1,5) s by (auto simp: take_2_nth)
    next
      assume "sz = 4" then show ?thesis using n(1,5,6) s by (auto simp: take_3_nth)
    qed
    then obtain d ds where "take (sz - 1) cs = d # ds" "d = cs ! 0" "length ds = sz - 2"
      "\<forall>x\<in>set ds. cont x" by blast
    moreover have "take sz s = c # take (sz - 1) cs"
      using s lead_range [OF l] by (cases sz) auto
    ultimately show ?thesis
      using n l lead_range [OF l] utf8_seq_multiI [of c d ds lo hi] by auto
  qed
  then show ?thesis
    using DecodeRune_seq [of "take ?n s" "drop ?n s"] by (intro seq [of "take ?n s" "drop ?n s"]) auto
qed

declare DecodeRune.simps(2) [simp del] DecodeRune.simps [go_eval]

lemma DecodeRune_error_or_valid:
  "s \<noteq> [] \<Longrightarrow> (fst (DecodeRune s) = RuneError \<and> snd (DecodeRune s) = 1) \<or>
     (\<exists>u t. s = u @ t \<and> utf8_seq u \<and> snd (DecodeRune s) = length u)"
  by (cases rule: DecodeRune_cases) auto

subsection \<open>Valid strings\<close>

lemma ValidString_Nil [simp]: "ValidString []"
  by (subst ValidString.simps) simp

lemma ValidString_seq_append [simp]:
  assumes "utf8_seq u" shows "ValidString (u @ t) = ValidString t"
  using utf8_seq_not_error [OF assms] utf8_seq_not_Nil [OF assms]
  by (subst ValidString.simps) (auto simp: DecodeRune_seq [OF assms])

lemma ValidString_seq: "utf8_seq u \<Longrightarrow> ValidString u"
  using ValidString_seq_append [of u "[]"] by simp

lemma ValidString_induct [consumes 1, case_names Nil seq]:
  assumes "ValidString s" and "P []"
    and step: "\<And>u t. utf8_seq u \<Longrightarrow> ValidString t \<Longrightarrow> P t \<Longrightarrow> P (u @ t)"
  shows "P s"
  using assms(1)
proof (induction s rule: ValidString.induct)
  case (1 s)
  show ?case
  proof (cases "s = []")
    case False
    then show ?thesis
    proof (cases rule: DecodeRune_cases)
      case error
      with 1 False show ?thesis by (subst (asm) ValidString.simps) simp
    next
      case (seq u t)
      with 1 show ?thesis using False utf8_seq_not_error [of u] by (auto intro!: step)
    qed
  qed (simp add: assms(2))
qed

lemma ValidString_append [simp]: "ValidString a \<Longrightarrow> ValidString (a @ b) = ValidString b"
  by (induction a rule: ValidString_induct) simp_all

lemma ValidString_ascii_Cons [simp]: "byte c < 128 \<Longrightarrow> ValidString (c # s) = ValidString s"
  using ValidString_seq_append [of "[c]" s] by simp

lemma ValidString_ascii: "\<forall>c\<in>set s. byte c < 128 \<Longrightarrow> ValidString s"
  by (induction s) auto

lemma ValidString_rev_induct [consumes 1, case_names Nil snoc]:
  assumes "ValidString s" and "P []"
    and step: "\<And>t u. utf8_seq u \<Longrightarrow> ValidString t \<Longrightarrow> P t \<Longrightarrow> P (t @ u)"
  shows "P s"
proof -
  have "\<exists>us. (\<forall>u\<in>set us. utf8_seq u) \<and> s = concat us"
    using assms(1)
  proof (induction rule: ValidString_induct)
    case (seq u t)
    then obtain us where "\<forall>u\<in>set us. utf8_seq u" "t = concat us" by blast
    with seq(1) show ?case by (intro exI [of _ "u # us"]) simp
  qed (intro exI [of _ "[]"], simp)
  then obtain us where us: "\<forall>u\<in>set us. utf8_seq u" "s = concat us" by blast
  have "ValidString (concat us) \<and> P (concat us)" if "\<forall>u\<in>set us. utf8_seq u" for us
    using that by (induction us rule: rev_induct) (auto simp: assms(2) step ValidString_seq)
  with us show ?thesis by simp
qed

subsection \<open>The last rune\<close>

lemma scan_start_found:
  "j \<le> i \<Longrightarrow> lim \<le> j \<Longrightarrow> RuneStart (p ! j) \<Longrightarrow> (\<And>k. j < k \<Longrightarrow> k \<le> i \<Longrightarrow> \<not> RuneStart (p ! k)) \<Longrightarrow>
   scan_start p lim i = j"
proof (induction p lim i rule: scan_start.induct)
  case (1 p lim i)
  show ?case
  proof (cases "j = i")
    case True
    with 1 show ?thesis by (subst scan_start.simps) simp
  next
    case False
    with 1 have "j < i" "\<not> RuneStart (p ! i)" by auto
    moreover from this 1 have "scan_start p lim (i - 1) = j" by (intro "1.IH") auto
    ultimately show ?thesis using 1 by (subst scan_start.simps) simp
  qed
qed

lemma scan_start_le: "scan_start p lim i \<le> i"
proof (induction p lim i rule: scan_start.induct)
  case (1 p lim i)
  then show ?case by (subst scan_start.simps) (auto intro: le_trans)
qed

lemma RuneStart_lead: "194 \<le> byte c \<Longrightarrow> RuneStart c"
  by (simp add: RuneStart_def)

lemma RuneStart_cont: "cont c \<Longrightarrow> \<not> RuneStart c"
  by (simp add: RuneStart_def)

text \<open>A lead byte followed by fewer than four continuation bytes is where the scan stops.\<close>

lemma scan_start_tail:
  assumes "194 \<le> byte c" "v = c # d # cs" "\<forall>x\<in>set (d # cs). cont x" "length v \<le> 4"
  shows "scan_start (s @ v) (length (s @ v) - 4) (length (s @ v) - 2) = length s"
proof (rule scan_start_found)
  show "RuneStart ((s @ v) ! length s)" using assms by (simp add: RuneStart_lead)
  fix k assume k: "length s < k" "k \<le> length (s @ v) - 2"
  then have "(s @ v) ! k = (d # cs) ! (k - length s - 1)" "k - length s - 1 < length (d # cs)"
    using assms by (auto simp: nth_append nth_Cons')
  with assms(3) show "\<not> RuneStart ((s @ v) ! k)"
    using nth_mem RuneStart_cont by metis
qed (use assms in auto)

lemma last_in_tail: "v = c # d # cs \<Longrightarrow> last (s @ v) \<in> set (d # cs)"
  by simp

lemma DecodeLastRune_seq:
  assumes "utf8_seq u"
  shows "DecodeLastRune (s @ u) = (fst (DecodeRune u), length u)"
  using assms
proof (cases rule: utf8_seq_cases)
  case ascii
  then show ?thesis by (simp add: DecodeLastRune_def)
next
  case (multi c d cs lo hi)
  then have tail: "\<forall>x\<in>set (d # cs). cont x" by simp
  have "\<not> byte (last (s @ u)) < 128" using last_in_tail [OF multi(1), of s] tail by fastforce
  moreover have "drop (length s) (s @ u) = u" by simp
  ultimately show ?thesis
    using scan_start_tail [OF multi(2,1) tail multi(8), of s] DecodeRune_seq_self [OF assms] multi(1)
    by (auto simp: DecodeLastRune_def Let_def split: prod.splits)
qed

lemma utf8_seq_last_cont:
  assumes "utf8_seq u" "2 \<le> length u" shows "cont (last u)"
  using assms by (cases rule: utf8_seq_cases) (auto)

lemma DecodeRune_not_whole:
  assumes "2 \<le> length q" "194 \<le> byte (last q)"
  shows "snd (DecodeRune q) \<noteq> length q"
proof
  assume eq: "snd (DecodeRune q) = length q"
  from assms have "q \<noteq> []" by auto
  then show False
  proof (cases rule: DecodeRune_cases)
    case error
    with eq assms show False by simp
  next
    case (seq u t)
    with eq have "u = q" by simp
    with seq assms utf8_seq_last_cont [of q] show False by simp
  qed
qed

text \<open>A sequence cut short at its end is an error of size 1, whatever comes before it.\<close>

lemma DecodeLastRune_partial:
  assumes "utf8_seq (v @ w)" "v \<noteq> []" "w \<noteq> []"
  shows "DecodeLastRune (s @ v) = (RuneError, 1)"
proof -
  obtain c d cs lo hi where u: "v @ w = c # d # cs" "194 \<le> byte c" "byte c < 245"
    "lead (byte c) = Some (length (v @ w), lo, hi)" "\<forall>x\<in>set (d # cs). cont x" "length (v @ w) \<le> 4"
    using assms(1)
  proof (cases rule: utf8_seq_cases)
    case ascii
    with assms(2,3) show ?thesis by (auto simp: append_eq_Cons_conv)
  next
    case (multi c d cs lo hi)
    then show ?thesis using lead_Some_ge [OF multi(3)] by (intro that [of c d cs lo hi]) auto
  qed
  from u(1) assms(2) obtain v' where v: "v = c # v'" "v' @ w = d # cs" by (cases v) auto
  have dec: "DecodeRune v = (RuneError, 1)"
    using DecodeRune_short [OF u(4), of v'] v(1) assms(3) by simp
  show ?thesis
  proof (cases v')
    case Nil
    let ?p = "s @ v"
    let ?i = "scan_start ?p (length ?p - 4) (length ?p - 2)"
    show ?thesis
    proof (cases "s = []")
      case True
      with Nil v dec u show ?thesis by (simp add: DecodeLastRune_def Let_def)
    next
      case False
      have "?i \<le> length ?p - 2" by (rule scan_start_le)
      with False Nil v have i: "?i + 2 \<le> length ?p" by (cases s) auto
      let ?q = "drop ?i ?p"
      have ne: "snd (DecodeRune ?q) \<noteq> length ?q"
        using i Nil v u by (intro DecodeRune_not_whole) auto
      have "?i + snd (DecodeRune ?q) \<noteq> length ?p"
        using ne i unfolding length_drop by linarith
      with Nil v u False show ?thesis
        by (auto simp: DecodeLastRune_def Let_def split: prod.splits)
    qed
  next
    case (Cons d' ds)
    with v u(5) have t: "\<forall>x\<in>set (d' # ds). cont x" and d: "d' = d" by (auto simp: Cons_eq_append_conv)
    have len: "length v \<le> 4" using u(6) by simp
    have "\<not> byte (last (s @ v)) < 128"
      using last_in_tail [of v c d' ds s] v Cons t by fastforce
    moreover have "drop (length s) (s @ v) = v" by simp
    ultimately show ?thesis
      using scan_start_tail [OF u(2) _ t len, of s] v Cons dec
      by (auto simp: DecodeLastRune_def Let_def split: prod.splits)
  qed
qed

lemma DecodeLastRune_Nil [simp]: "DecodeLastRune [] = (RuneError, 0)"
  by (simp add: DecodeLastRune_def)

subsection \<open>Encoding and decoding are inverse\<close>

text \<open>The multi-byte shapes, with the payload bits \<open>x\<close>, \<open>y\<close>, \<open>z\<close>, \<open>w\<close> as numbers.\<close>

lemma EncodeRune_1: "r < 128 \<Longrightarrow> EncodeRune r = [char_of r]"
  by (simp add: EncodeRune_def valid_rune_def)

lemma EncodeRune_2:
  "2 \<le> x \<Longrightarrow> x < 32 \<Longrightarrow> y < 64 \<Longrightarrow> EncodeRune (x * 64 + y) = [char_of (192 + x), char_of (128 + y)]"
  by (simp add: EncodeRune_def valid_rune_def)

lemma EncodeRune_3:
  assumes "x < 16" "y < 64" "z < 64" "x = 0 \<Longrightarrow> 32 \<le> y" "x = 13 \<Longrightarrow> y < 32"
  shows "EncodeRune (x * 4096 + y * 64 + z) = [char_of (224 + x), char_of (128 + y), char_of (128 + z)]"
proof -
  let ?r = "x * 4096 + y * 64 + z"
  have "2048 \<le> ?r" using assms by (cases "x = 0") auto
  moreover have "?r < 65536" using assms by auto
  moreover have "valid_rune ?r"
    using assms by (cases "x < 13"; cases "x = 13") (auto simp: valid_rune_def)
  moreover have "?r div 4096 = x" "?r div 64 = x * 64 + y"
    using assms by simp_all
  moreover have r: "?r = z + (x * 64 + y) * 64" by simp
  have "?r mod 64 = z" unfolding r mod_mult_self1 using assms by simp
  moreover have "(x * 64 + y) mod 64 = y" using assms by simp
  ultimately show ?thesis by (simp add: EncodeRune_def)
qed

lemma EncodeRune_4:
  assumes "x < 5" "y < 64" "z < 64" "w < 64" "x = 0 \<Longrightarrow> 16 \<le> y" "x = 4 \<Longrightarrow> y < 16"
  shows "EncodeRune (x * 262144 + y * 4096 + z * 64 + w) =
    [char_of (240 + x), char_of (128 + y), char_of (128 + z), char_of (128 + w)]"
proof -
  let ?r = "x * 262144 + y * 4096 + z * 64 + w"
  have "65536 \<le> ?r" using assms by (cases "x = 0") auto
  moreover from this have "valid_rune ?r"
    using assms by (cases "x = 4") (auto simp: valid_rune_def)
  moreover have "?r div 262144 = x" "?r div 4096 = x * 64 + y" "?r div 64 = (x * 64 + y) * 64 + z"
    using assms by simp_all
  moreover have r: "?r = w + ((x * 64 + y) * 64 + z) * 64" by simp
  have "?r mod 64 = w" unfolding r mod_mult_self1 using assms by simp
  moreover have "(x * 64 + y) mod 64 = y" "((x * 64 + y) * 64 + z) mod 64 = z"
    unfolding mod_mult_self3 using assms by simp_all
  ultimately show ?thesis by (simp add: EncodeRune_def)
qed

lemma payload_mod:
  fixes n :: nat
  shows "192 \<le> n \<Longrightarrow> n < 224 \<Longrightarrow> n mod 32 = n - 192"
    and "224 \<le> n \<Longrightarrow> n < 240 \<Longrightarrow> n mod 16 = n - 224"
    and "240 \<le> n \<Longrightarrow> n < 248 \<Longrightarrow> n mod 8 = n - 240"
    and "128 \<le> n \<Longrightarrow> n \<le> 191 \<Longrightarrow> n mod 64 = n - 128"
  by (simp_all add: le_mod_geq)

lemma payload:
  "192 \<le> byte c \<Longrightarrow> byte c < 224 \<Longrightarrow> char_of (192 + byte c mod 32) = c"
  "224 \<le> byte c \<Longrightarrow> byte c < 240 \<Longrightarrow> char_of (224 + byte c mod 16) = c"
  "240 \<le> byte c \<Longrightarrow> byte c < 248 \<Longrightarrow> char_of (240 + byte c mod 8) = c"
  "cont c \<Longrightarrow> char_of (128 + byte c mod 64) = c"
  by (simp_all add: payload_mod)

lemma split_radix_64:
  fixes r :: nat
  shows "r = (r div 64) * 64 + r mod 64"
    and "r = (r div 4096) * 4096 + (r div 64 mod 64) * 64 + r mod 64"
    and "r = (r div 262144) * 262144 + (r div 4096 mod 64) * 4096 + (r div 64 mod 64) * 64 + r mod 64"
proof -
  have 1: "n = (n div 64) * 64 + n mod 64" for n :: nat by simp
  have d: "r div 4096 = r div 64 div 64" "r div 262144 = r div 64 div 64 div 64"
    by (simp_all add: div_mult2_eq [symmetric])
  show "r = (r div 64) * 64 + r mod 64" by (rule 1)
  show "r = (r div 4096) * 4096 + (r div 64 mod 64) * 64 + r mod 64"
    using 1 [of r] 1 [of "r div 64"] unfolding d by linarith
  show "r = (r div 262144) * 262144 + (r div 4096 mod 64) * 4096 + (r div 64 mod 64) * 64 + r mod 64"
    using 1 [of r] 1 [of "r div 64"] 1 [of "r div 64 div 64"] unfolding d by linarith
qed

lemma lead_cases:
  assumes "lead b = Some (sz, lo, hi)"
  shows "sz = 2 \<Longrightarrow> 194 \<le> b \<and> b < 224 \<and> lo = 128 \<and> hi = 191"
    and "sz = 3 \<Longrightarrow> 224 \<le> b \<and> b < 240 \<and> (b = 224 \<longrightarrow> lo = 160) \<and> (b = 237 \<longrightarrow> hi = 159)"
    and "sz = 4 \<Longrightarrow> 240 \<le> b \<and> b < 245 \<and> (b = 240 \<longrightarrow> lo = 144) \<and> (b = 244 \<longrightarrow> hi = 143)"
  using assms by (auto simp: lead_def split: if_splits)

lemma EncodeRune_DecodeRune:
  assumes "utf8_seq u"
  shows "EncodeRune (fst (DecodeRune u)) = u"
  using assms
proof (cases rule: utf8_seq_cases)
  case (ascii c)
  then show ?thesis by (simp add: EncodeRune_1)
next
  case (multi c d cs lo hi)
  note l = lead_cases [OF multi(3)]
  have dm: "byte d mod 64 = byte d - 128" using multi(6) by (simp add: payload_mod)
  from multi have "length cs \<le> 2" by simp
  then have "length cs = 0 \<or> length cs = 1 \<or> length cs = 2" by linarith
  then consider "cs = []" | e where "cs = [e]" | e f where "cs = [e, f]"
    by (auto simp: length_Suc_conv numeral_2_eq_2)
  then show ?thesis
  proof cases
    case 1
    with multi l(1) have "194 \<le> byte c" "byte c < 224" by auto
    moreover from this have "2 \<le> byte c mod 32" by (simp add: payload_mod)
    ultimately show ?thesis
      using multi 1 by (simp add: DecodeRune.simps EncodeRune_2 payload)
  next
    case 2
    with multi l(2) have c: "224 \<le> byte c" "byte c < 240" "byte c = 224 \<Longrightarrow> 160 \<le> byte d"
      "byte c = 237 \<Longrightarrow> byte d \<le> 159" by auto
    have "byte c mod 16 = byte c - 224" using c(1,2) by (simp add: payload_mod)
    moreover from this have "byte c mod 16 = 13 \<Longrightarrow> byte c = 237" using c(1) by linarith
    ultimately have "byte c mod 16 = 0 \<Longrightarrow> 32 \<le> byte d mod 64" "byte c mod 16 = 13 \<Longrightarrow> byte d mod 64 < 32"
      using c dm multi(6) by auto
    then show ?thesis
      using multi 2 c by (simp add: DecodeRune.simps EncodeRune_3 payload)
  next
    case 3
    with multi l(3) have c: "240 \<le> byte c" "byte c < 245" "byte c = 240 \<Longrightarrow> 144 \<le> byte d"
      "byte c = 244 \<Longrightarrow> byte d \<le> 143" by auto
    have "byte c mod 8 = byte c - 240" using c(1,2) by (simp add: payload_mod)
    moreover from this have "byte c mod 8 = 4 \<Longrightarrow> byte c = 244" using c(1) by linarith
    ultimately have "byte c mod 8 < 5" "byte c mod 8 = 0 \<Longrightarrow> 16 \<le> byte d mod 64"
      "byte c mod 8 = 4 \<Longrightarrow> byte d mod 64 < 16"
      using c dm multi(6) by auto
    then show ?thesis
      using multi 3 c by (simp add: DecodeRune.simps EncodeRune_4 payload)
  qed
qed

text \<open>Every encoding is one well-formed sequence; the error rune stands for invalid runes.\<close>

lemma EncodeRune_fix: "EncodeRune r = EncodeRune (if valid_rune r then r else RuneError)"
  by (simp add: EncodeRune_def)

lemma DecodeRune_2:
  assumes "2 \<le> x" "x < 32" "y < 64"
  shows "utf8_seq [char_of (192 + x), char_of (128 + y)]"
    and "fst (DecodeRune [char_of (192 + x), char_of (128 + y)]) = x * 64 + y"
proof -
  have "lead (192 + x) = Some (2, 128, 191)" using assms by (simp add: lead_def)
  with assms show "utf8_seq [char_of (192 + x), char_of (128 + y)]"
    "fst (DecodeRune [char_of (192 + x), char_of (128 + y)]) = x * 64 + y"
    by (simp_all add: utf8_seq.simps DecodeRune.simps payload_mod)
qed

lemma DecodeRune_3:
  assumes "x < 16" "y < 64" "z < 64" "x = 0 \<Longrightarrow> 32 \<le> y" "x = 13 \<Longrightarrow> y < 32"
  defines "u \<equiv> [char_of (224 + x), char_of (128 + y), char_of (128 + z)] :: string"
  shows "utf8_seq u" and "fst (DecodeRune u) = x * 4096 + y * 64 + z"
proof -
  obtain lo hi where "lead (224 + x) = Some (3, lo, hi)" "lo \<le> 128 + y" "128 + y \<le> hi"
    using assms by (cases "x = 0"; cases "x = 13") (auto simp: lead_def)
  with assms show "utf8_seq u" "fst (DecodeRune u) = x * 4096 + y * 64 + z"
    by (simp_all add: u_def utf8_seq.simps DecodeRune.simps payload_mod)
qed

lemma DecodeRune_4:
  assumes "x < 5" "y < 64" "z < 64" "w < 64" "x = 0 \<Longrightarrow> 16 \<le> y" "x = 4 \<Longrightarrow> y < 16"
  defines "u \<equiv> [char_of (240 + x), char_of (128 + y), char_of (128 + z), char_of (128 + w)] :: string"
  shows "utf8_seq u" and "fst (DecodeRune u) = x * 262144 + y * 4096 + z * 64 + w"
proof -
  obtain lo hi where "lead (240 + x) = Some (4, lo, hi)" "lo \<le> 128 + y" "128 + y \<le> hi"
    using assms by (cases "x = 0"; cases "x = 4") (auto simp: lead_def)
  with assms show "utf8_seq u" "fst (DecodeRune u) = x * 262144 + y * 4096 + z * 64 + w"
    by (simp_all add: u_def utf8_seq.simps DecodeRune.simps payload_mod)
qed

lemma DecodeRune_EncodeRune:
  assumes "valid_rune r"
  shows "utf8_seq (EncodeRune r) \<and> fst (DecodeRune (EncodeRune r)) = r"
proof -
  consider "r < 128" | "128 \<le> r" "r < 2048" | "2048 \<le> r" "r < 65536" | "65536 \<le> r" "r < 1114112"
    using assms by (force simp: valid_rune_def)
  then show ?thesis
  proof cases
    case 1
    then show ?thesis by (simp add: EncodeRune_1)
  next
    case 2
    obtain x y where r: "r = x * 64 + y" "y < 64"
      using split_radix_64(1) [of r] by (metis mod_less_divisor zero_less_numeral)
    with 2 have "2 \<le> x" "x < 32" by auto
    with r show ?thesis by (simp add: EncodeRune_2 DecodeRune_2)
  next
    case 3
    obtain x y z where r: "r = x * 4096 + y * 64 + z" "y < 64" "z < 64"
      using split_radix_64(2) [of r] by (metis mod_less_divisor zero_less_numeral)
    with 3 have "x < 16" "x = 0 \<Longrightarrow> 32 \<le> y" by auto
    moreover have "x = 13 \<Longrightarrow> y < 32" using r assms by (auto simp: valid_rune_def)
    ultimately show ?thesis using r by (simp add: EncodeRune_3 DecodeRune_3)
  next
    case 4
    obtain x y z w where r: "r = x * 262144 + y * 4096 + z * 64 + w" "y < 64" "z < 64" "w < 64"
      using split_radix_64(3) [of r] by (metis mod_less_divisor zero_less_numeral)
    with 4 have "x < 5" "x = 0 \<Longrightarrow> 16 \<le> y" "x = 4 \<Longrightarrow> y < 16" by auto
    with r show ?thesis by (simp add: EncodeRune_4 DecodeRune_4)
  qed
qed

lemma valid_RuneError [simp]: "valid_rune RuneError"
  by (simp add: valid_rune_def RuneError_def)

lemma utf8_seq_EncodeRune [simp]: "utf8_seq (EncodeRune r)"
  using DecodeRune_EncodeRune [of r] DecodeRune_EncodeRune [of RuneError]
  by (subst EncodeRune_fix) auto

lemma EncodeRune_high: "128 \<le> r \<Longrightarrow> c \<in> set (EncodeRune r) \<Longrightarrow> 128 \<le> byte c"
proof -
  assume r: "128 \<le> r" and c: "c \<in> set (EncodeRune r)"
  have "length (EncodeRune r) \<noteq> 1" using r by (auto simp: EncodeRune_def valid_rune_def RuneError_def Let_def)
  then show ?thesis
    using c utf8_seq_EncodeRune [of r] by - (erule utf8_seq_cases, auto)
qed

lemma RuneLen_EncodeRune: "valid_rune r \<Longrightarrow> RuneLen r = int (length (EncodeRune r))"
  by (auto simp: RuneLen_def EncodeRune_def valid_rune_def)

lemma utf8_seq_valid_rune:
  assumes "utf8_seq u" shows "valid_rune (fst (DecodeRune u))"
proof (rule ccontr)
  assume inv: "\<not> ?thesis"
  with EncodeRune_DecodeRune [OF assms] EncodeRune_fix [of "fst (DecodeRune u)"]
  have "u = EncodeRune RuneError" by simp
  with DecodeRune_EncodeRune [OF valid_RuneError] have "fst (DecodeRune u) = RuneError" by simp
  with inv show False by simp
qed

lemma DecodeRune_valid_rune: "s \<noteq> [] \<Longrightarrow> valid_rune (fst (DecodeRune s))"
  by (cases rule: DecodeRune_cases [where s = s]) (simp_all add: utf8_seq_valid_rune)

subsection \<open>Strings and rune slices\<close>

lemma runes_Nil [simp]: "runes [] = []"
  by (subst runes.simps) simp

lemma runes_seq_append [simp]: "utf8_seq u \<Longrightarrow> runes (u @ t) = fst (DecodeRune u) # runes t"
  by (subst runes.simps) (auto simp: DecodeRune_seq dest: utf8_seq_not_Nil)

lemma runes_ascii_Cons [simp]: "byte c < 128 \<Longrightarrow> runes (c # t) = byte c # runes t"
  using runes_seq_append [of "[c]" t] by simp

lemma string_of_runes_simps [simp]:
  "string_of_runes [] = []"
  "string_of_runes (r # rs) = EncodeRune r @ string_of_runes rs"
  "string_of_runes (rs @ rs') = string_of_runes rs @ string_of_runes rs'"
  by (simp_all add: string_of_runes_def)

lemma string_of_runes_runes: "ValidString s \<Longrightarrow> string_of_runes (runes s) = s"
  by (induction rule: ValidString_induct) (simp_all add: EncodeRune_DecodeRune)

lemma ValidString_string_of_runes [simp]: "ValidString (string_of_runes rs)"
  by (induction rs) simp_all

lemma runes_string_of_runes: "\<forall>r\<in>set rs. valid_rune r \<Longrightarrow> runes (string_of_runes rs) = rs"
  by (induction rs) (simp_all add: DecodeRune_EncodeRune)

lemma runes_valid_rune: "\<forall>r\<in>set (runes s). valid_rune r"
proof (induction s rule: runes.induct)
  case (1 s)
  then show ?case
    using DecodeRune_valid_rune [of s] by (subst runes.simps) auto
qed

end
