(* ===== verification/Msg_Tags.thy ===== *)
theory Msg_Tags
  imports Go_Utf8
begin

text \<open>
  \<^verbatim>\<open>ircmsg/tags.go\<close>: escaping and unescaping of message tag values, and the validation of tag
  names and values. \<open>unescape_spec\<close> is the specification of unescaping, one byte at a time; the
  code's loop with its fast path is proved equal to it.
\<close>

subsection \<open>The code\<close>

text \<open>\<open>valtoescape\<close>: the replacer maps each single byte independently.\<close>

definition escape_byte :: "char \<Rightarrow> string" where
  "escape_byte c =
    (if c = CHR 0x5C then [CHR 0x5C, CHR 0x5C]
     else if c = CHR '';'' then [CHR 0x5C, CHR '':'']
     else if c = CHR '' '' then [CHR 0x5C, CHR ''s'']
     else if c = CHR 0x0D then [CHR 0x5C, CHR ''r'']
     else if c = CHR 0x0A then [CHR 0x5C, CHR ''n'']
     else [c])"

definition EscapeTagValue :: "string \<Rightarrow> string" where
  "EscapeTagValue inString = concat (map escape_byte inString)"

definition escapedCharLookupTable :: "char \<Rightarrow> char" where
  "escapedCharLookupTable c =
    (if c = CHR '':'' then CHR '';''
     else if c = CHR ''s'' then CHR '' ''
     else if c = CHR ''r'' then CHR 0x0D
     else if c = CHR ''n'' then CHR 0x0A
     else c)"

text \<open>
  The loop of \<open>UnescapeTagValue\<close>. An empty \<open>buf\<close> means that nothing was unescaped yet, and the
  result is then cut from \<open>inString\<close> itself.
\<close>

function unescape_loop :: "string \<Rightarrow> string \<Rightarrow> string \<Rightarrow> string" where
  "unescape_loop inString buf remainder =
    (case IndexByte remainder (CHR 0x5C) of
       None \<Rightarrow> (if buf = [] then inString else buf @ remainder)
     | Some backslashPos \<Rightarrow>
        (if backslashPos = length remainder - 1 then
           (if buf = [] then take (length inString - 1) inString
            else buf @ take (length remainder - 1) remainder)
         else unescape_loop inString
           (buf @ take backslashPos remainder
              @ [escapedCharLookupTable (remainder ! (backslashPos + 1))])
           (drop (backslashPos + 2) remainder)))"
  by pat_completeness auto
termination
  by (relation "measure (\<lambda>(i, b, r). length r)") (auto dest: IndexByte_less)

declare unescape_loop.simps [simp del, go_eval]

definition UnescapeTagValue :: "string \<Rightarrow> string" where
  "UnescapeTagValue inString = unescape_loop inString [] inString"

definition valid_name_byte :: "char \<Rightarrow> bool" where
  "valid_name_byte c \<longleftrightarrow>
    (45 \<le> byte c \<and> byte c \<le> 47) \<or> (48 \<le> byte c \<and> byte c \<le> 57)
    \<or> (65 \<le> byte c \<and> byte c \<le> 90) \<or> (97 \<le> byte c \<and> byte c \<le> 122)"

definition validateTagName :: "string \<Rightarrow> bool" where
  "validateTagName name =
    (if length name = 0 then False
     else
       let name' = (if name ! 0 = CHR ''+'' then drop 1 name else name) in
       if length name' = 0 then False
       else list_all valid_name_byte name')"

definition validateTagValue :: "string \<Rightarrow> bool" where
  "validateTagValue v = ValidString v"

subsection \<open>Specification of unescaping\<close>

fun unescape_spec :: "string \<Rightarrow> string" where
  "unescape_spec [] = []"
| "unescape_spec [c] = (if c = CHR 0x5C then [] else [c])"
| "unescape_spec (c # d # s) =
    (if c = CHR 0x5C then escapedCharLookupTable d # unescape_spec s
     else c # unescape_spec (d # s))"

lemma unescape_spec_plain [simp]: "CHR 0x5C \<notin> set s \<Longrightarrow> unescape_spec s = s"
  by (induction s rule: unescape_spec.induct) auto

lemma unescape_spec_prefix: "CHR 0x5C \<notin> set a \<Longrightarrow> unescape_spec (a @ s) = a @ unescape_spec s"
proof (induction a)
  case (Cons x a)
  then show ?case by (cases "a @ s") auto
qed simp

lemma unescape_loop_spec:
  "(buf = [] \<longrightarrow> remainder = inString) \<Longrightarrow>
   unescape_loop inString buf remainder = buf @ unescape_spec remainder"
proof (induction inString buf remainder rule: unescape_loop.induct)
  case (1 inString buf remainder)
  show ?case
  proof (cases "IndexByte remainder (CHR 0x5C)")
    case None
    with 1 show ?thesis by (subst unescape_loop.simps) auto
  next
    case (Some p)
    note split = IndexByte_Some_split [OF Some]
    have len: "p < length remainder" by (rule IndexByte_less [OF Some])
    show ?thesis
    proof (cases "p = length remainder - 1")
      case True
      with split(1) len have "remainder = take p remainder @ [CHR 0x5C]" by simp
      then have "unescape_spec remainder = take p remainder"
        using unescape_spec_prefix [OF split(2), of "[CHR 0x5C]"] by simp
      with Some True 1 show ?thesis by (subst unescape_loop.simps) auto
    next
      case False
      with len have len2: "Suc p < length remainder" by linarith
      have "unescape_spec remainder
          = take p remainder @ unescape_spec (CHR 0x5C # drop (Suc p) remainder)"
        by (subst split(1)) (simp add: unescape_spec_prefix split(2))
      also have "drop (Suc p) remainder = remainder ! Suc p # drop (Suc (Suc p)) remainder"
        using len2 by (rule Cons_nth_drop_Suc [symmetric])
      finally have "unescape_spec remainder = take p remainder @
          escapedCharLookupTable (remainder ! Suc p) # unescape_spec (drop (p + 2) remainder)"
        by simp
      with 1(1) [OF Some False] Some False show ?thesis by (subst unescape_loop.simps) simp
    qed
  qed
qed

lemma UnescapeTagValue_eq_spec: "UnescapeTagValue v = unescape_spec v"
  by (simp add: UnescapeTagValue_def unescape_loop_spec)

subsection \<open>Escaping and unescaping\<close>

lemma EscapeTagValue_simps [simp]:
  "EscapeTagValue [] = []"
  "EscapeTagValue (c # s) = escape_byte c @ EscapeTagValue s"
  "EscapeTagValue (s @ t) = EscapeTagValue s @ EscapeTagValue t"
  by (simp_all add: EscapeTagValue_def)

lemma unescape_escape_byte: "unescape_spec (escape_byte c @ s) = c # unescape_spec s"
proof -
  have "unescape_spec (c # s) = c # unescape_spec s" if "c \<noteq> CHR 0x5C"
    using that by (cases s) auto
  then show ?thesis by (simp add: escape_byte_def escapedCharLookupTable_def)
qed

lemma Unescape_Escape: "UnescapeTagValue (EscapeTagValue v) = v"
  by (induction v) (simp_all add: UnescapeTagValue_eq_spec unescape_escape_byte)

interpretation tag_value: codec EscapeTagValue UnescapeTagValue "\<lambda>_. True"
  by unfold_locales (rule Unescape_Escape)

lemma set_EscapeTagValue:
  "c \<in> {CHR '';'', CHR '' '', CHR 0x0D, CHR 0x0A} \<Longrightarrow> c \<notin> set (EscapeTagValue v)"
  by (induction v) (auto simp: escape_byte_def)

lemma set_EscapeTagValue_NUL: "CHR 0x00 \<in> set (EscapeTagValue v) \<longleftrightarrow> CHR 0x00 \<in> set v"
  by (induction v) (auto simp: escape_byte_def)

lemma EscapeTagValue_eq_Nil [simp]: "EscapeTagValue v = [] \<longleftrightarrow> v = []"
  by (cases v) (auto simp: escape_byte_def)

lemma escape_byte_ascii: "byte c < 128 \<Longrightarrow> \<forall>x\<in>set (escape_byte c). byte x < 128"
  by (simp add: escape_byte_def)

lemma escape_high: "\<forall>x\<in>set s. 128 \<le> byte x \<Longrightarrow> EscapeTagValue s = s"
  by (induction s) (auto simp: escape_byte_def)

lemma utf8_seq_high: "utf8_seq u \<Longrightarrow> (\<exists>c. u = [c] \<and> byte c < 128) \<or> (\<forall>x\<in>set u. 128 \<le> byte x)"
  by (cases rule: utf8_seq_cases) auto

lemma ValidString_EscapeTagValue: "ValidString v \<Longrightarrow> ValidString (EscapeTagValue v)"
proof (induction v rule: ValidString_induct)
  case (seq u t)
  have "ValidString (escape_byte c)" if "byte c < 128" for c
    by (rule ValidString_ascii) (rule escape_byte_ascii [OF that])
  then have "ValidString (EscapeTagValue u)"
    using utf8_seq_high [OF seq(1)] ValidString_seq [OF seq(1)] by (auto simp: escape_high)
  with seq show ?case by simp
qed simp

text \<open>Unescaping keeps validity as well: a backslash is never inside a multi-byte sequence.\<close>

lemma unescape_spec_seq:
  assumes "\<forall>x\<in>set u. 128 \<le> byte x" shows "unescape_spec (u @ s) = u @ unescape_spec s"
  using assms by (intro unescape_spec_prefix) auto

lemma unescape_spec_bs_seq:
  assumes "\<forall>x\<in>set u. 128 \<le> byte x" "u \<noteq> []"
  shows "unescape_spec (CHR 0x5C # u @ s) = u @ unescape_spec s"
proof -
  obtain d ds where u: "u = d # ds" using assms(2) by (cases u) auto
  with assms(1) have "escapedCharLookupTable d = d" by (auto simp: escapedCharLookupTable_def)
  with u assms(1) show ?thesis by (simp add: unescape_spec_seq)
qed

lemma byte_lookup_ascii: "byte d < 128 \<Longrightarrow> byte (escapedCharLookupTable d) < 128"
  by (simp add: escapedCharLookupTable_def)

lemma unescape_spec_valid:
  "ValidString v \<Longrightarrow> ValidString (unescape_spec v) \<and> ValidString (unescape_spec (CHR 0x5C # v))"
proof (induction v rule: ValidString_induct)
  case (seq u t)
  from utf8_seq_high [OF seq(1)] show ?case
  proof
    assume "\<exists>c. u = [c] \<and> byte c < 128"
    then obtain c where c: "u = [c]" "byte c < 128" by blast
    with seq have "ValidString (unescape_spec (CHR 0x5C # u @ t))"
      by (simp add: byte_lookup_ascii)
    moreover have "ValidString (unescape_spec (c # t))"
      using seq c(2) by (cases t; cases "c = CHR 0x5C") auto
    ultimately show ?thesis using c by simp
  next
    assume "\<forall>x\<in>set u. 128 \<le> byte x"
    with seq utf8_seq_not_Nil [OF seq(1)] show ?thesis
      using unescape_spec_seq [of u t] unescape_spec_bs_seq [of u t] by simp
  qed
qed simp

lemma ValidString_UnescapeTagValue: "ValidString v \<Longrightarrow> ValidString (UnescapeTagValue v)"
  by (simp add: UnescapeTagValue_eq_spec unescape_spec_valid)

subsection \<open>Tag names\<close>

lemma validateTagName_set:
  "validateTagName name \<Longrightarrow> c \<in> set name \<Longrightarrow> c = CHR ''+'' \<or> valid_name_byte c"
  by (cases name) (auto simp: validateTagName_def Let_def list_all_iff split: if_splits)

lemma validateTagName_not_Nil: "validateTagName name \<Longrightarrow> name \<noteq> []"
  by (auto simp: validateTagName_def)

lemma validateTagName_clean:
  assumes "validateTagName name"
  shows "c \<in> {CHR '';'', CHR ''='', CHR '' '', CHR 0x00, CHR 0x0D, CHR 0x0A, CHR ''@''} \<Longrightarrow> c \<notin> set name"
  using validateTagName_set [OF assms, of c] by (auto simp: valid_name_byte_def)

subsection \<open>Properties\<close>

text \<open>Every tag value survives escaping and unescaping, and its escaped form has none of the
  characters that end a tag or a line and is valid UTF-8 if the value is.\<close>

theorem tag_value_round_trip:
  "UnescapeTagValue (EscapeTagValue v) = v \<and>
    {CHR '';'', CHR '' '', CHR 0x0D, CHR 0x0A} \<inter> set (EscapeTagValue v) = {} \<and>
    (validateTagValue v \<longrightarrow> validateTagValue (EscapeTagValue v))"
  using tag_value.dec_enc [of v] set_EscapeTagValue [of _ v] ValidString_EscapeTagValue [of v]
  by (auto simp: validateTagValue_def)

lemma tag_value_round_trip_witness:
  "validateTagValue (EscapeTagValue ''a;b'') \<and> UnescapeTagValue (EscapeTagValue ''a;b'') = ''a;b''"
  using tag_value_round_trip [of "''a;b''"] by (simp add: validateTagValue_def ValidString_ascii)

text \<open>C9. The buffer loop of \<open>UnescapeTagValue\<close>, with its shortcuts, computes the protocol's
  unescaping: each backslash is dropped and the character behind it looked up.\<close>

theorem UnescapeTagValue_spec: "UnescapeTagValue v = unescape_spec v"
  by (rule UnescapeTagValue_eq_spec)

end
