(* ===== verification/Msg_Userhost.thy ===== *)
theory Msg_Userhost
  imports Irc_Prelude
begin

text \<open>
  \<^verbatim>\<open>ircmsg/userhost.go\<close>: parsing a message source \<open>name!user@host\<close> and printing it back.
\<close>

subsection \<open>The code\<close>

datatype nuh_error = MalformedNUH

record NUH =
  Name :: string
  User :: string
  Host :: string

definition ParseNUH :: "string \<Rightarrow> nuh_error + NUH" where
  "ParseNUH in0 =
    (if length in0 = 0 then Inl MalformedNUH
     else
       let (host, in1) =
             (case IndexByte in0 (CHR ''@'') of
                None \<Rightarrow> ([], in0)
              | Some hostStart \<Rightarrow> (drop (hostStart + 1) in0, take hostStart in0));
           (user, in2) =
             (case IndexByte in1 (CHR ''!'') of
                None \<Rightarrow> ([], in1)
              | Some userStart \<Rightarrow> (drop (userStart + 1) in1, take userStart in1))
       in Inr \<lparr>Name = in2, User = user, Host = host\<rparr>)"

definition Canonical :: "NUH \<Rightarrow> string" where
  "Canonical nuh =
    Name nuh
    @ (if length (User nuh) \<noteq> 0 then CHR ''!'' # User nuh else [])
    @ (if length (Host nuh) \<noteq> 0 then CHR ''@'' # Host nuh else [])"

subsection \<open>Round trips\<close>

text \<open>The sources that a \<open>NUH\<close> can stand for: the separators are where the parser looks for them.\<close>

definition nuh_ok :: "NUH \<Rightarrow> bool" where
  "nuh_ok n \<longleftrightarrow> CHR ''!'' \<notin> set (Name n) \<and> CHR ''@'' \<notin> set (Name n) \<and> CHR ''@'' \<notin> set (User n)
    \<and> Canonical n \<noteq> []"

lemma ParseNUH_Canonical: "nuh_ok n \<Longrightarrow> ParseNUH (Canonical n) = Inr n"
proof -
  assume ok: "nuh_ok n"
  let ?nu = "Name n @ (if User n \<noteq> [] then CHR ''!'' # User n else [])"
  have nu: "CHR ''@'' \<notin> set ?nu" using ok by (auto simp: nuh_ok_def)
  have host: "IndexByte (Canonical n) (CHR ''@'') = (if Host n = [] then None else Some (length ?nu))"
    using nu IndexByte_append [of "CHR ''@''" ?nu "Host n"] by (auto simp: Canonical_def)
  have user: "IndexByte ?nu (CHR ''!'') = (if User n = [] then None else Some (length (Name n)))"
    using ok by (auto simp: nuh_ok_def IndexByte_append)
  have "Canonical n = ?nu @ (if Host n \<noteq> [] then CHR ''@'' # Host n else [])"
    by (simp add: Canonical_def)
  with ok host user show ?thesis
    by (cases "Host n = []"; cases "User n = []") (auto simp: ParseNUH_def nuh_ok_def)
qed

text \<open>
  Whatever the parser accepts has no separator left in its name, none in front of the host, and
  prints back to the input unless the input has a separator with nothing behind it.
\<close>

lemma ParseNUH_cases:
  assumes "ParseNUH s = Inr n"
  obtains
    (name) "s = Name n" "User n = []" "Host n = []"
  | (name_user) "s = Name n @ CHR ''!'' # User n" "Host n = []"
  | (name_host) "s = Name n @ CHR ''@'' # Host n" "User n = []"
  | (full) "s = Name n @ CHR ''!'' # User n @ CHR ''@'' # Host n"
proof (cases "IndexByte s (CHR ''@'')")
  case None
  show ?thesis
  proof (cases "IndexByte s (CHR ''!'')")
    case None
    with \<open>IndexByte s (CHR ''@'') = None\<close> assms show ?thesis
      by (intro name) (auto simp: ParseNUH_def split: if_splits)
  next
    case (Some j)
    with None assms IndexByte_Some_split(1) [OF Some] show ?thesis
      by (intro name_user) (auto simp: ParseNUH_def split: if_splits)
  qed
next
  case (Some i)
  note host = IndexByte_Some_split(1) [OF Some]
  show ?thesis
  proof (cases "IndexByte (take i s) (CHR ''!'')")
    case None
    with Some assms host show ?thesis
      by (intro name_host) (auto simp: ParseNUH_def split: if_splits)
  next
    case (Some j)
    note user = IndexByte_Some_split(1) [OF Some]
    from assms \<open>IndexByte s _ = Some i\<close> Some
    have "Name n = take j (take i s)" "User n = drop (Suc j) (take i s)" "Host n = drop (Suc i) s"
      by (auto simp: ParseNUH_def split: if_splits)
    with user host show ?thesis by (intro full) (metis append.assoc append_Cons)
  qed
qed

lemma ParseNUH_name_clean:
  assumes "ParseNUH s = Inr n"
  shows "CHR ''!'' \<notin> set (Name n) \<and> CHR ''@'' \<notin> set (Name n) \<and> CHR ''@'' \<notin> set (User n)"
proof -
  have t: "c \<notin> set (take i x)" if "c \<notin> set x" for c :: char and i x
    using that by (auto dest: in_set_takeD)
  have d: "c \<notin> set (drop i x)" if "c \<notin> set x" for c :: char and i x
    using that by (auto dest: in_set_dropD)
  show ?thesis
    using assms
    by (auto simp: ParseNUH_def t d IndexByte_Some_split(2) simp del: take_take
        split: if_splits option.splits)
qed

lemma Canonical_ParseNUH:
  assumes "ParseNUH s = Inr n"
    and "\<And>a. s \<noteq> a @ [CHR ''@'']" "\<And>a. s \<noteq> a @ [CHR ''!'']" "\<And>a b. s \<noteq> a @ CHR ''!'' # CHR ''@'' # b"
  shows "Canonical n = s"
  using assms(1)
proof (cases rule: ParseNUH_cases)
  case full
  with assms(2) [of "Name n @ CHR ''!'' # User n"] assms(4) [of "Name n" "Host n"] show ?thesis
    by (auto simp: Canonical_def)
qed (use assms(2,3) [of "Name n"] in \<open>auto simp: Canonical_def\<close>)

interpretation nuh_codec: codec Canonical "\<lambda>s. case ParseNUH s of Inr n \<Rightarrow> n" nuh_ok
  by unfold_locales (simp add: ParseNUH_Canonical)

subsection \<open>Properties\<close>

text \<open>C11. Sources: a the canonical form of a well-formed source parses back to its parts, and no other well-formed
  source has the same canonical form.\<close>

theorem NUH_round_trip:
  assumes "nuh_ok n"
  shows "ParseNUH (Canonical n) = Inr n \<and>
    (\<forall>n'. nuh_ok n' \<and> Canonical n' = Canonical n \<longrightarrow> n' = n)"
  using nuh_codec.enc_inj [of _ n] ParseNUH_Canonical assms by blast

lemma NUH_round_trip_witness:
  "ParseNUH (Canonical \<lparr>Name = ''n'', User = ''u'', Host = ''h''\<rparr>) = Inr \<lparr>Name = ''n'', User = ''u'', Host = ''h''\<rparr>"
  using NUH_round_trip [of "\<lparr>Name = ''n'', User = ''u'', Host = ''h''\<rparr>"]
  by (simp add: nuh_ok_def Canonical_def)

end
