(* ===== verification/Msg_Message.thy ===== *)
theory Msg_Message
  imports Msg_Tags Msg_Userhost
begin

text \<open>
  \<^verbatim>\<open>ircmsg/message.go\<close>, first part: the \<open>Message\<close> type, its errors and limits, the tag
  operations and \<open>MakeMessage\<close>. A Go map is a partial function; \<open>nil\<close> and the empty map are the
  same value here, as no operation of the package tells them apart. Where the code ranges over a map,
  the order of the iteration is an argument of the model: a list of the entries.
\<close>

subsection \<open>The code\<close>

datatype msg_error =
    ErrorLineIsEmpty
  | ErrorLineContainsBadChar
  | ErrorBodyTooLong
  | ErrorTagsTooLong
  | ErrorInvalidTagContent
  | ErrorCommandMissing
  | ErrorBadParam

definition MaxlenTags :: int where
  "MaxlenTags = 8191"

definition MaxlenTagData :: int where
  "MaxlenTagData = MaxlenTags - 2"

definition MaxlenClientTagData :: int where
  "MaxlenClientTagData = 4094"

definition MaxlenServerTagData :: int where
  "MaxlenServerTagData = 4094"

definition MaxlenTagsFromClient :: int where
  "MaxlenTagsFromClient = MaxlenClientTagData + 2"

type_synonym tag_map = "string \<rightharpoonup> string"

record Message =
  Source :: string
  Command :: string
  Params :: "string list"
  forceTrailing :: bool
  tags :: tag_map
  clientOnlyTags :: tag_map

definition zero_Message :: Message where
  "zero_Message = \<lparr>Source = [], Command = [], Params = [], forceTrailing = False,
    tags = Map.empty, clientOnlyTags = Map.empty\<rparr>"

definition ForceTrailing :: "Message \<Rightarrow> Message" where
  "ForceTrailing msg = msg\<lparr>forceTrailing := True\<rparr>"

definition GetTag :: "Message \<Rightarrow> string \<Rightarrow> bool \<times> string" where
  "GetTag msg tagName =
    (if length tagName = 0 then (False, [])
     else
       case (if tagName ! 0 = CHR ''+'' then clientOnlyTags msg tagName else tags msg tagName) of
         None \<Rightarrow> (False, [])
       | Some v \<Rightarrow> (True, v))"

definition HasTag :: "Message \<Rightarrow> string \<Rightarrow> bool" where
  "HasTag msg tagName = fst (GetTag msg tagName)"

definition SetTag :: "Message \<Rightarrow> string \<Rightarrow> string \<Rightarrow> Message" where
  "SetTag msg tagName tagValue =
    (if length tagName = 0 then msg
     else if tagName ! 0 = CHR ''+'' then
       msg\<lparr>clientOnlyTags := (clientOnlyTags msg)(tagName \<mapsto> tagValue)\<rparr>
     else msg\<lparr>tags := (tags msg)(tagName \<mapsto> tagValue)\<rparr>)"

definition DeleteTag :: "Message \<Rightarrow> string \<Rightarrow> Message" where
  "DeleteTag msg tagName =
    (if length tagName = 0 then msg
     else if tagName ! 0 = CHR ''+'' then
       msg\<lparr>clientOnlyTags := (clientOnlyTags msg)(tagName := None)\<rparr>
     else msg\<lparr>tags := (tags msg)(tagName := None)\<rparr>)"

fun UpdateTags :: "Message \<Rightarrow> (string \<times> string) list \<Rightarrow> Message" where
  "UpdateTags msg [] = msg"
| "UpdateTags msg ((name, value) # rest) = UpdateTags (SetTag msg name value) rest"

definition AllTags :: "Message \<Rightarrow> tag_map" where
  "AllTags msg = tags msg ++ clientOnlyTags msg"

definition ClientOnlyTags :: "Message \<Rightarrow> tag_map" where
  "ClientOnlyTags msg = clientOnlyTags msg"

definition Nick :: "Message \<Rightarrow> string" where
  "Nick msg = (case ParseNUH (Source msg) of Inr nuh \<Rightarrow> Name nuh | Inl _ \<Rightarrow> [])"

definition msg_NUH :: "Message \<Rightarrow> nuh_error + NUH" where
  "msg_NUH msg = ParseNUH (Source msg)"

definition MakeMessage :: "(string \<times> string) list \<Rightarrow> string \<Rightarrow> string \<Rightarrow> string list \<Rightarrow> Message" where
  "MakeMessage tagList source command params =
    UpdateTags (zero_Message\<lparr>Source := source, Command := command, Params := params\<rparr>) tagList"

subsection \<open>Interface: access to tags\<close>

text \<open>
  What the rest of the library relies on when it reads and writes tags, stated once for any store
  with these three operations.
\<close>

locale tag_store =
  fixes get :: "'m \<Rightarrow> string \<Rightarrow> bool \<times> string"
    and set_tag :: "'m \<Rightarrow> string \<Rightarrow> string \<Rightarrow> 'm"
    and del :: "'m \<Rightarrow> string \<Rightarrow> 'm"
  assumes get_set: "k \<noteq> [] \<Longrightarrow> get (set_tag m k v) k = (True, v)"
    and get_set_other: "k' \<noteq> k \<Longrightarrow> get (set_tag m k v) k' = get m k'"
    and get_del: "get (del m k) k = (False, [])"
    and get_del_other: "k' \<noteq> k \<Longrightarrow> get (del m k) k' = get m k'"
    and get_Nil: "get m [] = (False, [])"
begin

lemma get_set_if: "get (set_tag m k v) k' = (if k' = k \<and> k \<noteq> [] then (True, v) else get m k')"
  by (cases "k' = k"; cases "k = []") (simp_all add: get_set get_set_other get_Nil)

lemma get_del_set: "get (del (set_tag m k v) k) k' = get (del m k) k'"
  by (cases "k' = k") (simp_all add: get_del get_del_other get_set_other)

text \<open>Storing a list of tags: the last entry of a name counts.\<close>

lemma get_foldl_set:
  "get (foldl (\<lambda>m (k, v). set_tag m k v) m kvs) k =
    (case map_of (rev kvs) k of Some v \<Rightarrow> if k = [] then (False, []) else (True, v) | None \<Rightarrow> get m k)"
proof (induction kvs arbitrary: m)
  case (Cons kv kvs)
  then show ?case
    by (cases kv) (auto simp: get_set_if get_Nil map_add_def split: option.splits)
qed simp

end

interpretation msg_tags: tag_store GetTag SetTag DeleteTag
  by unfold_locales (auto simp: GetTag_def SetTag_def DeleteTag_def)

subsection \<open>The invariant of the two tag maps\<close>

text \<open>
  Client-only tags are the ones whose name starts with \<open>+\<close>; the two maps never share a name.
\<close>

definition msg_inv :: "Message \<Rightarrow> bool" where
  "msg_inv m \<longleftrightarrow> finite (dom (tags m)) \<and> finite (dom (clientOnlyTags m))
    \<and> (\<forall>k\<in>dom (tags m). k \<noteq> [] \<and> k ! 0 \<noteq> CHR ''+'')
    \<and> (\<forall>k\<in>dom (clientOnlyTags m). k \<noteq> [] \<and> k ! 0 = CHR ''+'')"

lemma msg_inv_zero: "msg_inv zero_Message"
  by (simp add: msg_inv_def zero_Message_def)

lemma msg_inv_SetTag: "msg_inv m \<Longrightarrow> msg_inv (SetTag m k v)"
  by (auto simp: msg_inv_def SetTag_def)

lemma msg_inv_DeleteTag: "msg_inv m \<Longrightarrow> msg_inv (DeleteTag m k)"
  by (auto simp: msg_inv_def DeleteTag_def)

lemma msg_inv_UpdateTags: "msg_inv m \<Longrightarrow> msg_inv (UpdateTags m kvs)"
  by (induction m kvs rule: UpdateTags.induct) (simp_all add: msg_inv_SetTag)

lemma msg_inv_ForceTrailing: "msg_inv m \<Longrightarrow> msg_inv (ForceTrailing m)"
  by (simp add: msg_inv_def ForceTrailing_def)

lemma msg_inv_fields [simp]:
  "msg_inv (m\<lparr>Source := s\<rparr>) = msg_inv m"
  "msg_inv (m\<lparr>Command := s\<rparr>) = msg_inv m"
  "msg_inv (m\<lparr>Params := ps\<rparr>) = msg_inv m"
  by (simp_all add: msg_inv_def)

lemma msg_inv_MakeMessage: "msg_inv (MakeMessage kvs s c ps)"
  unfolding MakeMessage_def by (intro msg_inv_UpdateTags) (simp add: msg_inv_zero)

lemma UpdateTags_foldl: "UpdateTags m kvs = foldl (\<lambda>m (k, v). SetTag m k v) m kvs"
  by (induction m kvs rule: UpdateTags.induct) simp_all

lemma SetTag_fields [simp]:
  "Source (SetTag m k v) = Source m" "Command (SetTag m k v) = Command m"
  "Params (SetTag m k v) = Params m" "forceTrailing (SetTag m k v) = forceTrailing m"
  by (simp_all add: SetTag_def)

lemma UpdateTags_fields [simp]:
  "Source (UpdateTags m kvs) = Source m" "Command (UpdateTags m kvs) = Command m"
  "Params (UpdateTags m kvs) = Params m" "forceTrailing (UpdateTags m kvs) = forceTrailing m"
  by (induction m kvs rule: UpdateTags.induct) simp_all

text \<open>What \<open>AllTags\<close> and \<open>GetTag\<close> say agree.\<close>

lemma AllTags_GetTag:
  assumes "msg_inv m"
  shows "AllTags m k = (if fst (GetTag m k) then Some (snd (GetTag m k)) else None)"
proof (cases "k = []")
  case True
  with assms have "tags m k = None" "clientOnlyTags m k = None"
    by (auto simp: msg_inv_def dom_def)
  with True show ?thesis by (simp add: AllTags_def GetTag_def map_add_def)
next
  case False
  with assms have "k ! 0 = CHR ''+'' \<Longrightarrow> tags m k = None" "k ! 0 \<noteq> CHR ''+'' \<Longrightarrow> clientOnlyTags m k = None"
    by (auto simp: msg_inv_def dom_def)
  with False show ?thesis
    by (auto simp: AllTags_def GetTag_def map_add_def split: option.splits)
qed

text \<open>
  The result of \<open>UpdateTags\<close> does not depend on the order in which Go ranges over the map.
\<close>

lemma SetTag_commute: "k \<noteq> k' \<Longrightarrow> SetTag (SetTag m k v) k' v' = SetTag (SetTag m k' v') k v"
  by (auto simp: SetTag_def fun_upd_twist)

lemma UpdateTags_snoc:
  "(k, v) \<in> set kvs \<Longrightarrow> distinct (map fst kvs) \<Longrightarrow>
   UpdateTags m kvs = UpdateTags (SetTag m k v) (remove1 (k, v) kvs)"
proof (induction kvs arbitrary: m)
  case (Cons kv kvs)
  obtain k' v' where kv: "kv = (k', v')" by (cases kv)
  show ?case
  proof (cases "kv = (k, v)")
    case False
    with Cons.prems kv have "(k, v) \<in> set kvs" "k' \<noteq> k" by force+
    with Cons kv show ?thesis by (simp add: SetTag_commute)
  qed (simp add: kv)
qed simp

lemma UpdateTags_order:
  "set kvs = set kvs' \<Longrightarrow> distinct (map fst kvs) \<Longrightarrow> distinct (map fst kvs') \<Longrightarrow>
   UpdateTags m kvs = UpdateTags m kvs'"
proof (induction kvs arbitrary: m kvs')
  case (Cons kv kvs)
  obtain k v where kv: "kv = (k, v)" by (cases kv)
  have d: "distinct (kv # kvs)" "distinct kvs'" using Cons.prems(2,3) distinct_map by blast+
  have "(k, v) \<in> set kvs'" using Cons.prems(1) kv by auto
  then have "UpdateTags m kvs' = UpdateTags (SetTag m k v) (remove1 (k, v) kvs')"
    using Cons.prems(3) by (rule UpdateTags_snoc)
  moreover have "set kvs = set (remove1 (k, v) kvs')"
    using Cons.prems(1) d kv by (auto simp: set_remove1_eq)
  moreover have "distinct (map fst (remove1 (k, v) kvs'))"
    using Cons.prems(3) by (metis distinct_map distinct_remove1 inj_on_subset set_remove1_subset)
  ultimately show ?case using Cons.IH [of "remove1 (k, v) kvs'" "SetTag m k v"] Cons.prems kv by simp
qed simp

subsection \<open>Properties\<close>

text \<open>\<open>UpdateTags\<close> with the entries of a map, in any iteration order: afterwards \<open>GetTag\<close>
  finds exactly the map's values, or else what the message had before; the empty name is never found.
  The two tag maps keep their division by the \<open>+\<close> sigil.\<close>

lemma UpdateTags_GetTag:
  assumes "distinct (map fst kvs)" "msg_inv m"
  shows "GetTag (UpdateTags m kvs) k =
      (if k = [] then (False, []) else case map_of kvs k of Some v \<Rightarrow> (True, v) | None \<Rightarrow> GetTag m k) \<and>
    msg_inv (UpdateTags m kvs) \<and>
    (\<forall>kvs'. set kvs' = set kvs \<and> distinct (map fst kvs') \<longrightarrow> UpdateTags m kvs' = UpdateTags m kvs)"
proof -
  have rev: "map_of (rev kvs) = map_of kvs"
    using assms(1) by (intro map_of_inject_set [THEN iffD2]) (simp_all add: rev_map [symmetric])
  then have "GetTag (UpdateTags m kvs) k =
      (if k = [] then (False, []) else case map_of kvs k of Some v \<Rightarrow> (True, v) | None \<Rightarrow> GetTag m k)"
    using msg_tags.get_foldl_set [of m kvs k] msg_tags.get_Nil
    by (auto simp: UpdateTags_foldl split: option.splits)
  with msg_inv_UpdateTags [OF assms(2)] UpdateTags_order assms(1) show ?thesis by blast
qed

lemma UpdateTags_GetTag_witness:
  "GetTag (UpdateTags zero_Message [(''a'', ''x''), (''+b'', ''y'')]) ''+b'' = (True, ''y'')"
  using UpdateTags_GetTag [of "[(''a'', ''x''), (''+b'', ''y'')]" zero_Message "''+b''"] msg_inv_zero by simp

end
