(* ===== verification/Msg_Unicode.thy ===== *)
theory Msg_Unicode
  imports Go_Utf8 "HOL-Library.Sublist"
begin

text \<open>
  \<^verbatim>\<open>ircmsg/unicode.go\<close>: \<open>TruncateUTF8Safe\<close>, and the removal loop that \<open>line\<close> of
  \<^verbatim>\<open>ircmsg/message.go\<close> repeats on its buffer. The interface \<open>safe_truncation\<close> is what the
  parser relies on; it is interpreted on the model of the function.
\<close>

subsection \<open>The code\<close>

text \<open>
  The loop of at most \<open>utf8.UTFMax - 1 = 3\<close> rounds: drop the last byte while it is not the end of
  a decodable rune. \<open>message[:len(message)-1]\<close> panics on the empty message.
\<close>

fun trim_rune_loop :: "nat \<Rightarrow> string \<Rightarrow> string go" where
  "trim_rune_loop 0 message = Some message"
| "trim_rune_loop (Suc i) message =
    (let (r, n) = DecodeLastRune message in
     if r = RuneError \<and> n \<le> 1 then
       (if message = [] then None
        else trim_rune_loop i (take (length message - 1) message))
     else Some message)"

definition TruncateUTF8Safe :: "string \<Rightarrow> int \<Rightarrow> string go" where
  "TruncateUTF8Safe message byteLimit =
    (if int (length message) \<le> byteLimit then Some message
     else if byteLimit < 0 then None
     else trim_rune_loop 3 (take (nat byteLimit) message))"

subsection \<open>What the loop removes\<close>

lemma trim_rune_loop_prefix: "trim_rune_loop i m = Some r \<Longrightarrow> prefix r m \<and> length m \<le> length r + i"
proof (induction i arbitrary: m)
  case (Suc i)
  show ?case
  proof (cases "fst (DecodeLastRune m) = RuneError \<and> snd (DecodeLastRune m) \<le> 1")
    case True
    with Suc.prems have m: "m \<noteq> []" and r: "trim_rune_loop i (take (length m - 1) m) = Some r"
      by (auto split: prod.splits if_splits)
    from Suc.IH [OF r] m show ?thesis by (auto intro: prefix_order.trans take_is_prefix)
  next
    case False
    with Suc.prems show ?thesis by (auto split: prod.splits)
  qed
qed simp

lemma trim_rune_loop_total: "i \<le> length m \<Longrightarrow> \<exists>r. trim_rune_loop i m = Some r"
  by (induction i m rule: trim_rune_loop.induct) (auto split: prod.splits)

lemma DecodeLastRune_valid:
  assumes "ValidString m" "m \<noteq> []"
  shows "\<not> (fst (DecodeLastRune m) = RuneError \<and> snd (DecodeLastRune m) \<le> 1)"
  using assms
proof (induction rule: ValidString_rev_induct)
  case (snoc t u)
  then show ?case
    using utf8_seq_not_error [of u] utf8_seq_length [of u] by (auto simp: DecodeLastRune_seq)
qed simp

lemma partial_seq_invalid:
  assumes "utf8_seq (v @ w)" "v \<noteq> []" "w \<noteq> []" shows "\<not> ValidString v"
  using DecodeLastRune_partial [OF assms, of "[]"] DecodeLastRune_valid [of v] assms(2) by auto

text \<open>
  On a valid part \<open>a\<close> followed by an incomplete sequence \<open>v\<close>, the loop removes exactly \<open>v\<close>;
  if nothing is left and rounds remain, it slices the empty string and panics.
\<close>

lemma trim_rune_loop_cut:
  "ValidString a \<Longrightarrow> length v \<le> i \<Longrightarrow> v = [] \<or> (w \<noteq> [] \<and> utf8_seq (v @ w)) \<Longrightarrow>
   trim_rune_loop i (a @ v) = (if a = [] \<and> length v < i then None else Some a)"
proof (induction v arbitrary: i w rule: rev_induct)
  case Nil
  then show ?case
    using DecodeLastRune_valid [of a] by (cases i) (auto split: prod.splits)
next
  case (snoc y v)
  then obtain i' where i: "i = Suc i'" by (cases i) auto
  have e: "DecodeLastRune (a @ v @ [y]) = (RuneError, 1)"
    using snoc.prems by (intro DecodeLastRune_partial [of _ w]) auto
  have "trim_rune_loop i' (a @ v) = (if a = [] \<and> length v < i' then None else Some a)"
    using snoc.prems i by (intro snoc.IH [of i' "y # w"]) auto
  with e i show ?case by simp
qed

text \<open>Where a byte limit falls in a valid message.\<close>

lemma ValidString_cut:
  assumes "ValidString m" "n \<le> length m"
  obtains a v w where "take n m = a @ v" "ValidString a" "v = [] \<or> (w \<noteq> [] \<and> utf8_seq (v @ w))"
    "length v \<le> 3"
proof -
  have "\<exists>a v w. take n m = a @ v \<and> ValidString a \<and> (v = [] \<or> (w \<noteq> [] \<and> utf8_seq (v @ w)))"
    using assms
  proof (induction m arbitrary: n rule: ValidString_induct)
    case (seq u t)
    show ?case
    proof (cases "length u \<le> n")
      case True
      with seq.prems have "n - length u \<le> length t" by auto
      from seq.IH [OF this] obtain a v w where
        "take (n - length u) t = a @ v" "ValidString a" "v = [] \<or> (w \<noteq> [] \<and> utf8_seq (v @ w))"
        by blast
      with True seq.hyps(1) show ?thesis by (intro exI [of _ "u @ a"] exI [of _ v] exI [of _ w]) auto
    next
      case False
      with seq.hyps(1) show ?thesis
        by (intro exI [of _ "[]"] exI [of _ "take n u"] exI [of _ "drop n u"]) auto
    qed
  qed simp
  then obtain a v w where *: "take n m = a @ v" "ValidString a" "v = [] \<or> (w \<noteq> [] \<and> utf8_seq (v @ w))"
    by blast
  moreover from *(3) have "length v \<le> 3"
    using utf8_seq_length [of "v @ w"] by (cases w) auto
  ultimately show ?thesis by (rule that)
qed

subsection \<open>The contract of a truncation\<close>

locale safe_truncation =
  fixes trunc :: "string \<Rightarrow> int \<Rightarrow> string go"
  assumes trunc_fits: "int (length m) \<le> n \<Longrightarrow> trunc m n = Some m"
    and trunc_prefix: "trunc m n = Some r \<Longrightarrow> prefix r m"
    and trunc_le: "trunc m n = Some r \<Longrightarrow> int (length r) \<le> n"
    and trunc_total: "3 \<le> n \<Longrightarrow> trunc m n \<noteq> None"
    and trunc_valid: "ValidString m \<Longrightarrow> trunc m n = Some r \<Longrightarrow> ValidString r"
begin

lemma trunc_idem: "trunc m n = Some r \<Longrightarrow> trunc r n = Some r"
  by (rule trunc_fits) (rule trunc_le)

lemma trunc_set: "trunc m n = Some r \<Longrightarrow> set r \<subseteq> set m"
  by (drule trunc_prefix) (auto simp: prefix_def)

lemma trunc_no_new: "trunc m n = Some r \<Longrightarrow> c \<notin> set m \<Longrightarrow> c \<notin> set r"
  using trunc_set by blast

end

lemma TruncateUTF8Safe_prefix: "TruncateUTF8Safe m n = Some r \<Longrightarrow> prefix r m"
  unfolding TruncateUTF8Safe_def
  by (auto split: if_splits dest!: trim_rune_loop_prefix intro: prefix_order.trans take_is_prefix)

lemma TruncateUTF8Safe_le: "TruncateUTF8Safe m n = Some r \<Longrightarrow> int (length r) \<le> n"
  unfolding TruncateUTF8Safe_def
  by (auto split: if_splits dest!: trim_rune_loop_prefix prefix_length_le)

lemma TruncateUTF8Safe_total: "3 \<le> n \<Longrightarrow> TruncateUTF8Safe m n \<noteq> None"
  using trim_rune_loop_total [of 3 "take (nat n) m"] by (auto simp: TruncateUTF8Safe_def)

text \<open>The result on valid UTF-8, and the limits at which it panics.\<close>

lemma TruncateUTF8Safe_valid_eq:
  assumes "ValidString m" "0 \<le> n" "n < int (length m)"
  obtains a where "prefix a m" "ValidString a" "int (length a) \<le> n"
    "\<And>p. prefix p m \<Longrightarrow> ValidString p \<Longrightarrow> int (length p) \<le> n \<Longrightarrow> length p \<le> length a"
    "TruncateUTF8Safe m n = (if a = [] \<and> n < 3 then None else Some a)"
proof -
  obtain a v w where c: "take (nat n) m = a @ v" "ValidString a"
    "v = [] \<or> (w \<noteq> [] \<and> utf8_seq (v @ w))" "length v \<le> 3"
    by (rule ValidString_cut [of m "nat n"]) (use assms in auto)
  have len: "length (a @ v) = nat n" using c(1) [symmetric] assms by simp
  show ?thesis
  proof (rule that [of a])
    show "prefix a m" using c(1) take_is_prefix [of "nat n" m] by (auto dest: append_prefixD)
    show "int (length a) \<le> n" using len assms(2) by simp
    show "TruncateUTF8Safe m n = (if a = [] \<and> n < 3 then None else Some a)"
      using trim_rune_loop_cut [OF c(2,4,3)] assms c(1) len by (auto simp: TruncateUTF8Safe_def)
    fix p assume p: "prefix p m" "ValidString p" "int (length p) \<le> n"
    then obtain t where t: "m = p @ t" by (auto simp: prefix_def)
    with p(3) c(1) have pt: "p @ take (nat n - length p) t = a @ v" by simp
    show "length p \<le> length a"
    proof (rule ccontr)
      assume "\<not> ?thesis"
      with pt obtain x where x: "p = a @ x" "x @ take (nat n - length p) t = v" "x \<noteq> []"
        by (auto simp: append_eq_append_conv2)
      with c(3) have "utf8_seq (x @ take (nat n - length p) t @ w)" "w \<noteq> []" by auto
      with x(3) have "\<not> ValidString x"
        by (intro partial_seq_invalid [of x "take (nat n - length p) t @ w"]) auto
      with x(1) p(2) c(2) show False by simp
    qed
  qed (rule c(2))
qed

lemma TruncateUTF8Safe_keeps_valid:
  assumes "ValidString m" "TruncateUTF8Safe m n = Some r" shows "ValidString r"
proof (cases "0 \<le> n \<and> n < int (length m)")
  case True
  then obtain a where "ValidString a" "TruncateUTF8Safe m n = (if a = [] \<and> n < 3 then None else Some a)"
    using TruncateUTF8Safe_valid_eq [OF assms(1)] by metis
  with assms(2) show ?thesis by (auto split: if_splits)
next
  case False
  with assms show ?thesis by (auto simp: TruncateUTF8Safe_def split: if_splits)
qed

interpretation utf8_trunc: safe_truncation TruncateUTF8Safe
proof
  show "int (length m) \<le> n \<Longrightarrow> TruncateUTF8Safe m n = Some m" for m n
    by (simp add: TruncateUTF8Safe_def)
qed (auto intro: TruncateUTF8Safe_prefix TruncateUTF8Safe_le TruncateUTF8Safe_keeps_valid
    dest: TruncateUTF8Safe_total)

subsection \<open>Properties\<close>

lemma euro_panics: "trim_rune_loop 3 [CHR 0xE2, CHR 0x82] = None"
proof -
  have "utf8_seq ([CHR 0xE2, CHR 0x82] @ [CHR 0xAC])" by (simp add: utf8_seq.simps lead_def)
  with trim_rune_loop_cut [of "[]" "[CHR 0xE2, CHR 0x82]" 3 "[CHR 0xAC]"] show ?thesis
    by (simp add: ValidString.simps)
qed

text \<open>C10. On valid UTF-8, \<open>TruncateUTF8Safe\<close> returns the longest valid prefix that fits the limit. It
  panics exactly when that prefix is empty and the limit is below the three rounds of its loop.\<close>

theorem TruncateUTF8Safe_longest_prefix:
  assumes "ValidString m" "0 \<le> n" "n < int (length m)"
  shows "\<exists>a. prefix a m \<and> ValidString a \<and> int (length a) \<le> n \<and>
    (\<forall>p. prefix p m \<and> ValidString p \<and> int (length p) \<le> n \<longrightarrow> length p \<le> length a) \<and>
    TruncateUTF8Safe m n = (if a = [] \<and> n < 3 then None else Some a)"
  using TruncateUTF8Safe_valid_eq [OF assms] by metis

lemma TruncateUTF8Safe_longest_prefix_witness:
  "\<exists>a. prefix a ''abc'' \<and> ValidString a \<and> int (length a) \<le> 2 \<and>
    (\<forall>p. prefix p ''abc'' \<and> ValidString p \<and> int (length p) \<le> 2 \<longrightarrow> length p \<le> length a) \<and>
    TruncateUTF8Safe ''abc'' 2 = (if a = [] \<and> (2::int) < 3 then None else Some a)"
  by (rule TruncateUTF8Safe_longest_prefix) (simp_all add: ValidString_ascii)

text \<open>The panic is real: a three-byte rune against a limit of two bytes.\<close>

lemma TruncateUTF8Safe_panics: "TruncateUTF8Safe [CHR 0xE2, CHR 0x82, CHR 0xAC] 2 = None"
  by (simp add: TruncateUTF8Safe_def euro_panics)

end
