(* ===== verification/Msg_Parse.thy ===== *)
theory Msg_Parse
  imports Msg_Message Msg_Unicode
begin

text \<open>
  \<^verbatim>\<open>ircmsg/message.go\<close>, second part: parsing a line (\<open>ParseLine\<close>, \<open>ParseLineStrict\<close>,
  \<open>parseLine\<close>, \<open>parseTags\<close> and their helpers). The wire grammar of the part after the tags is
  stated as two inductive relations; the parser is proved to accept exactly this grammar.
\<close>

subsection \<open>The code\<close>

definition trimInitialSpaces :: "string \<Rightarrow> string" where
  "trimInitialSpaces str = dropWhile (\<lambda>c. c = CHR '' '') str"

definition isASCII :: "string \<Rightarrow> bool" where
  "isASCII str = list_all (\<lambda>c. byte c \<le> 127) str"

text \<open>
  One round of the loop of \<open>parseTags\<close> cuts off the text up to the next semicolon; a tag with an
  invalid name is skipped, an invalid value ends the parse with an error.
\<close>

function parseTags :: "Message \<Rightarrow> string \<Rightarrow> Message \<times> msg_error option" where
  "parseTags m ts =
    (if \<not> 0 < length ts then (m, None)
     else
       let (endPos, nextPos) =
             (case IndexByte ts (CHR '';'') of
                None \<Rightarrow> (length ts, length ts)
              | Some tagEnd \<Rightarrow> (tagEnd, tagEnd + 1));
           tagPair = take endPos ts;
           (tagName, tagValue) =
             (case IndexByte tagPair (CHR ''='') of
                None \<Rightarrow> (tagPair, [])
              | Some equalsIndex \<Rightarrow> (take equalsIndex tagPair, drop (equalsIndex + 1) tagPair))
       in if validateTagName tagName then
            (if \<not> validateTagValue tagValue then (m, Some ErrorInvalidTagContent)
             else parseTags (SetTag m tagName (UnescapeTagValue tagValue)) (drop nextPos ts))
          else parseTags m (drop nextPos ts))"
  by pat_completeness auto
termination
  by (relation "measure (\<lambda>(m, ts). length ts)") (auto split: option.splits dest: IndexByte_less)

declare parseTags.simps [simp del, go_eval]

text \<open>The loop over the parameters; \<open>ps\<close> is \<open>ircmsg.Params\<close> so far.\<close>

lemma length_trimInitialSpaces: "length (trimInitialSpaces s) \<le> length s"
  by (simp add: trimInitialSpaces_def length_dropWhile_le)

function parse_params :: "string list \<Rightarrow> string \<Rightarrow> string list" where
  "parse_params ps line0 =
    (let line = trimInitialSpaces line0 in
     if length line = 0 then ps
     else if line ! 0 = CHR '':'' then ps @ [drop 1 line]
     else
       case IndexByte line (CHR '' '') of
         None \<Rightarrow> ps @ [line]
       | Some paramEnd \<Rightarrow> parse_params (ps @ [take paramEnd line]) (drop (paramEnd + 1) line))"
  by pat_completeness auto
termination
  by (relation "measure (\<lambda>(ps, s). length s)")
    (auto dest: IndexByte_less intro: less_le_trans [OF _ length_trimInitialSpaces])

declare parse_params.simps [simp del, go_eval]

text \<open>From \<open>// modern: ...\<close> to the end of \<open>parseLine\<close>: source, command and parameters.\<close>

definition parse_body :: "Message \<Rightarrow> msg_error option \<Rightarrow> string \<Rightarrow> Message \<times> msg_error option" where
  "parse_body m0 err line0 =
    (let line1 = trimInitialSpaces line0 in
     case (if 0 < length line1 \<and> line1 ! 0 = CHR '':'' then
             (case IndexByte line1 (CHR '' '') of
                None \<Rightarrow> None
              | Some sourceEnd \<Rightarrow>
                  Some (m0\<lparr>Source := drop 1 (take sourceEnd line1)\<rparr>, drop (sourceEnd + 1) line1))
           else Some (m0, line1)) of
       None \<Rightarrow> (m0, Some ErrorLineIsEmpty)
     | Some (m, line2) \<Rightarrow>
         let line3 = trimInitialSpaces line2;
             (commandEnd, paramStart) =
               (case IndexByte line3 (CHR '' '') of
                  None \<Rightarrow> (length line3, length line3)
                | Some i \<Rightarrow> (i, i + 1));
             baseCommand = take commandEnd line3
         in if length baseCommand = 0 then (m, Some ErrorLineIsEmpty)
            else if \<not> isASCII baseCommand then (m, Some ErrorLineContainsBadChar)
            else (m\<lparr>Command := ToUpperASCII baseCommand,
                    Params := parse_params (Params m) (drop paramStart line3)\<rparr>, err))"

text \<open>The tag section: the message so far, the error if any, and the rest of the line.\<close>

definition parse_tag_section :: "string \<Rightarrow> int \<Rightarrow> Message \<times> msg_error option \<times> string" where
  "parse_tag_section line maxTagDataLength =
    (if line ! 0 = CHR ''@'' then
       (case IndexByte line (CHR '' '') of
          None \<Rightarrow> (zero_Message, Some ErrorLineIsEmpty, line)
        | Some tagEnd \<Rightarrow>
            let ts = drop 1 (take tagEnd line) in
            if 0 < maxTagDataLength \<and> maxTagDataLength < int (length ts) then
              (zero_Message, Some ErrorTagsTooLong, line)
            else
              (case parseTags zero_Message ts of
                 (m, Some e) \<Rightarrow> (m, Some e, line)
               | (m, None) \<Rightarrow> (m, None, drop (tagEnd + 1) line)))
     else (zero_Message, None, line))"

definition forbidden :: "string \<Rightarrow> bool" where
  "forbidden line \<longleftrightarrow> IndexByte line (CHR 0x00) \<noteq> None \<or> IndexByte line (CHR 0x0A) \<noteq> None
     \<or> IndexByte line (CHR 0x0D) \<noteq> None"

definition parseLine :: "string \<Rightarrow> int \<Rightarrow> int \<Rightarrow> (Message \<times> msg_error option) go" where
  "parseLine line0 maxTagDataLength truncateLen0 =
    (let line = TrimSuffix (TrimSuffix line0 [CHR 0x0A]) [CHR 0x0D] in
     if truncateLen0 \<noteq> 0 \<and> truncateLen0 \<le> 2 then Some (zero_Message, Some ErrorLineIsEmpty)
     else
       let truncateLen = (if truncateLen0 \<noteq> 0 then truncateLen0 - 2 else 0) in
       if forbidden line then Some (zero_Message, Some ErrorLineContainsBadChar)
       else if length line < 1 then Some (zero_Message, Some ErrorLineIsEmpty)
       else
         case parse_tag_section line maxTagDataLength of
           (m, Some e, _) \<Rightarrow> Some (m, Some e)
         | (m, None, line') \<Rightarrow>
             if truncateLen \<noteq> 0 \<and> truncateLen < int (length line') then do {
               line'' \<leftarrow> TruncateUTF8Safe line' truncateLen;
               Some (parse_body m (Some ErrorBodyTooLong) line'')
             }
             else Some (parse_body m None line'))"

definition ParseLine :: "string \<Rightarrow> (Message \<times> msg_error option) go" where
  "ParseLine line = parseLine line 0 0"

definition ParseLineStrict :: "string \<Rightarrow> bool \<Rightarrow> int \<Rightarrow> (Message \<times> msg_error option) go" where
  "ParseLineStrict line fromClient truncateLen =
    (let maxTagDataLength = (if fromClient then MaxlenClientTagData else MaxlenTagData)
     in parseLine line maxTagDataLength truncateLen)"

subsection \<open>The grammar of parameters\<close>

definition middle :: "string \<Rightarrow> bool" where
  "middle p \<longleftrightarrow> p \<noteq> [] \<and> CHR '' '' \<notin> set p \<and> hd p \<noteq> CHR '':''"

abbreviation spaces :: "nat \<Rightarrow> string" where
  "spaces n \<equiv> replicate n (CHR '' '')"

inductive params_syntax :: "string \<Rightarrow> string list \<Rightarrow> bool" where
  no_params: "params_syntax (spaces n) []"
| trailing: "params_syntax (spaces n @ CHR '':'' # t) [t]"
| last_middle: "middle p \<Longrightarrow> params_syntax (spaces n @ p) [p]"
| cons_middle: "middle p \<Longrightarrow> params_syntax s ps \<Longrightarrow> params_syntax (spaces n @ p @ CHR '' '' # s) (p # ps)"

inductive cmd_syntax :: "string \<Rightarrow> string \<Rightarrow> string list \<Rightarrow> bool" where
  cmd_only: "c \<noteq> [] \<Longrightarrow> CHR '' '' \<notin> set c \<Longrightarrow> cmd_syntax (spaces n @ c) c []"
| cmd_params: "c \<noteq> [] \<Longrightarrow> CHR '' '' \<notin> set c \<Longrightarrow> params_syntax r ps \<Longrightarrow>
    cmd_syntax (spaces n @ c @ CHR '' '' # r) c ps"

inductive body_syntax :: "string \<Rightarrow> string \<Rightarrow> string \<Rightarrow> string list \<Rightarrow> bool" where
  no_source: "cmd_syntax s c ps \<Longrightarrow> hd c \<noteq> CHR '':'' \<Longrightarrow> body_syntax s [] c ps"
| with_source: "CHR '' '' \<notin> set src \<Longrightarrow> cmd_syntax r c ps \<Longrightarrow>
    body_syntax (spaces n @ CHR '':'' # src @ CHR '' '' # r) src c ps"

lemma trim_spaces [simp]:
  "trimInitialSpaces (spaces n) = []"
  "s = [] \<or> hd s \<noteq> CHR '' '' \<Longrightarrow> trimInitialSpaces (spaces n @ s) = s"
proof -
  show "trimInitialSpaces (spaces n) = []" by (simp add: trimInitialSpaces_def)
  show "trimInitialSpaces (spaces n @ s) = s" if "s = [] \<or> hd s \<noteq> CHR '' ''"
    using that by (cases s) (auto simp: trimInitialSpaces_def dropWhile_append)
qed

lemma trim_not_space [simp]: "s = [] \<or> hd s \<noteq> CHR '' '' \<Longrightarrow> trimInitialSpaces s = s"
  using trim_spaces(2) [of s 0] by simp

lemma trim_split:
  obtains n where "s = spaces n @ trimInitialSpaces s"
    "trimInitialSpaces s = [] \<or> hd (trimInitialSpaces s) \<noteq> CHR '' ''"
proof
  have "takeWhile (\<lambda>c. c = CHR '' '') s = spaces (length (takeWhile (\<lambda>c. c = CHR '' '') s))"
    by (rule replicate_eqI) (auto dest: set_takeWhileD)
  then show "s = spaces (length (takeWhile (\<lambda>c. c = CHR '' '') s)) @ trimInitialSpaces s"
    by (metis takeWhile_dropWhile_id trimInitialSpaces_def)
  show "trimInitialSpaces s = [] \<or> hd (trimInitialSpaces s) \<noteq> CHR '' ''"
    by (metis (full_types) hd_dropWhile trimInitialSpaces_def)
qed

lemma hd_append_not_Nil: "p \<noteq> [] \<Longrightarrow> hd (p @ s) = hd p"
  by simp

lemma not_space_hd: "p \<noteq> [] \<Longrightarrow> CHR '' '' \<notin> set p \<Longrightarrow> hd p \<noteq> CHR '' ''"
  by (metis hd_in_set)

lemma parse_params_syntax_acc: "params_syntax s ps \<Longrightarrow> parse_params acc s = acc @ ps"
proof (induction arbitrary: acc rule: params_syntax.induct)
  case no_params
  then show ?case by (subst parse_params.simps) simp
next
  case (trailing n t)
  then show ?case by (subst parse_params.simps) simp
next
  case (last_middle p n)
  then have "hd p \<noteq> CHR '' ''" by (simp add: middle_def not_space_hd)
  with last_middle show ?case
    by (subst parse_params.simps) (auto simp: middle_def hd_conv_nth)
next
  case (cons_middle p s ps n)
  then have "p \<noteq> []" "hd p \<noteq> CHR '' ''" "hd p \<noteq> CHR '':''" "CHR '' '' \<notin> set p"
    by (simp_all add: middle_def not_space_hd)
  then show ?case
    by (subst parse_params.simps)
      (simp add: IndexByte_append cons_middle.IH hd_conv_nth [symmetric])
qed

lemma parse_params_sound_acc: "\<exists>ps. params_syntax s ps \<and> parse_params acc s = acc @ ps"
proof (induction acc s rule: parse_params.induct)
  case (1 acc s)
  obtain n where s: "s = spaces n @ trimInitialSpaces s"
    and h: "trimInitialSpaces s = [] \<or> hd (trimInitialSpaces s) \<noteq> CHR '' ''"
    by (rule trim_split)
  let ?l = "trimInitialSpaces s"
  consider "?l = []" | t where "?l = CHR '':'' # t"
    | "?l \<noteq> []" "hd ?l \<noteq> CHR '':''" "IndexByte ?l (CHR '' '') = None"
    | e where "?l \<noteq> []" "hd ?l \<noteq> CHR '':''" "IndexByte ?l (CHR '' '') = Some e"
    by (cases ?l; cases "IndexByte ?l (CHR '' '')") auto
  then show ?case
  proof cases
    case 1
    with s have "params_syntax s []" by (metis append_Nil2 no_params)
    then show ?thesis using parse_params_syntax_acc by blast
  next
    case (2 t)
    with s have "params_syntax s [t]" by (metis trailing)
    then show ?thesis using parse_params_syntax_acc by blast
  next
    case 3
    with h have "middle ?l" by (simp add: middle_def)
    with s have "params_syntax s [?l]" by (metis last_middle)
    then show ?thesis using parse_params_syntax_acc by blast
  next
    case (4 e)
    note split = IndexByte_Some_split [OF 4(3)]
    have "take e ?l \<noteq> []" using h 4(1,3) by (cases ?l) (auto split: if_splits)
    moreover from this have "hd (take e ?l) = hd ?l" by simp
    ultimately have m: "middle (take e ?l)" using 4(2) split(2) by (simp add: middle_def)
    have "\<exists>ps. params_syntax (drop (e + 1) ?l) ps"
      using "1.IH" [OF refl _ _ 4(3)] 4(1,2) by (auto simp: hd_conv_nth)
    then obtain ps where "params_syntax (drop (Suc e) ?l) ps" by auto
    with m have "params_syntax (spaces n @ take e ?l @ CHR '' '' # drop (Suc e) ?l) (take e ?l # ps)"
      by (rule cons_middle)
    then have "params_syntax s (take e ?l # ps)"
      by (simp only: split(1) [symmetric] s [symmetric])
    then show ?thesis using parse_params_syntax_acc [of s "take e ?l # ps" acc] by blast
  qed
qed

text \<open>The parameter loop computes exactly the grammar.\<close>

lemma parse_params_iff: "parse_params [] s = ps \<longleftrightarrow> params_syntax s ps"
proof -
  obtain qs where "params_syntax s qs" "parse_params [] s = qs"
    using parse_params_sound_acc [of s "[]"] by auto
  then show ?thesis using parse_params_syntax_acc [of s ps "[]"] by auto
qed

subsection \<open>The grammar of source and command\<close>

lemma cmd_syntax_trim:
  assumes "cmd_syntax s c ps"
  obtains r where "trimInitialSpaces s = c @ r" "c \<noteq> []" "CHR '' '' \<notin> set c"
    "r = [] \<or> r = CHR '' '' # tl r" "parse_params [] (drop 1 r) = ps"
  using assms
proof (cases rule: cmd_syntax.cases)
  case (cmd_only n)
  with that [of "[]"] show ?thesis
    using parse_params_iff [of "[]" "[]"] no_params [of 0] by (simp add: not_space_hd)
next
  case (cmd_params r n)
  with that [of "CHR '' '' # r"] show ?thesis
    using not_space_hd [of c] by (simp add: parse_params_iff)
qed

lemma cmd_syntax_split:
  assumes "trimInitialSpaces s = c @ r" "c \<noteq> []" "CHR '' '' \<notin> set c" "r = [] \<or> r = CHR '' '' # tl r"
  shows "cmd_syntax s c (parse_params [] (drop 1 r))"
proof -
  obtain n where s: "s = spaces n @ c @ r" by (rule trim_split [of s]) (use assms(1) in auto)
  from assms(4) show ?thesis
  proof
    assume "r = []"
    with s assms show ?thesis
      using cmd_only [of c n] parse_params_iff [of "[]" "[]"] no_params [of 0] by simp
  next
    assume r: "r = CHR '' '' # tl r"
    then obtain q where q: "r = CHR '' '' # q" by blast
    have "params_syntax q (parse_params [] q)" using parse_params_iff by blast
    with s q assms(2,3) show ?thesis using cmd_params [of c q _ n] by simp
  qed
qed

text \<open>What \<open>parse_body\<close> does from the command on.\<close>

lemma command_split:
  obtains c r where "t = c @ r" "CHR '' '' \<notin> set c" "r = [] \<or> r = CHR '' '' # tl r"
    "IndexByte t (CHR '' '') = (if r = [] then None else Some (length c))"
proof (cases "IndexByte t (CHR '' '')")
  case None
  with that [of t "[]"] show ?thesis by simp
next
  case (Some i)
  with IndexByte_Some_split [OF Some] IndexByte_less [OF Some]
  show ?thesis by (intro that [of "take i t" "CHR '' '' # drop (Suc i) t"]) auto
qed

lemma parse_body_no_source:
  assumes "trimInitialSpaces s = c @ r" "CHR '' '' \<notin> set c" "r = [] \<or> r = CHR '' '' # tl r"
    "c = [] \<or> hd c \<noteq> CHR '':''" "c = [] \<Longrightarrow> r = []" "Params m = []"
  shows "parse_body m e s =
    (if c = [] then (m, Some ErrorLineIsEmpty)
     else if \<not> isASCII c then (m, Some ErrorLineContainsBadChar)
     else (m\<lparr>Command := ToUpperASCII c, Params := parse_params [] (drop 1 r)\<rparr>, e))"
proof -
  have hd: "\<not> (0 < length (c @ r) \<and> (c @ r) ! 0 = CHR '':'')"
    using assms(4,5) by (cases c) auto
  have trim: "trimInitialSpaces (c @ r) = c @ r"
    using assms(2,5) by (cases c) auto
  have idx: "IndexByte (c @ r) (CHR '' '') = (if r = [] then None else Some (length c))"
    using assms(2,3) by (cases r) (auto simp: IndexByte_append)
  have "r \<noteq> [] \<Longrightarrow> c \<noteq> []" using assms(5) by blast
  with assms hd trim idx show ?thesis
    by (cases "r = []") (auto simp: parse_body_def Let_def)
qed

lemma parse_body_with_source:
  assumes "trimInitialSpaces s = CHR '':'' # src @ CHR '' '' # q" "CHR '' '' \<notin> set src"
    "trimInitialSpaces q = c @ r" "CHR '' '' \<notin> set c" "r = [] \<or> r = CHR '' '' # tl r"
    "Params m = []"
  shows "parse_body m e s =
    (let m = m\<lparr>Source := src\<rparr> in
     if c = [] then (m, Some ErrorLineIsEmpty)
     else if \<not> isASCII c then (m, Some ErrorLineContainsBadChar)
     else (m\<lparr>Command := ToUpperASCII c, Params := parse_params [] (drop 1 r)\<rparr>, e))"
proof -
  have src: "IndexByte (CHR '':'' # src @ CHR '' '' # q) (CHR '' '') = Some (Suc (length src))"
    using IndexByte_append [of "CHR '' ''" "CHR '':'' # src" q] assms(2) by simp
  have idx: "IndexByte (c @ r) (CHR '' '') = (if r = [] then None else Some (length c))"
    using assms(4,5) by (cases r) (auto simp: IndexByte_append)
  with assms src show ?thesis
    by (cases "r = []") (auto simp: parse_body_def Let_def)
qed

text \<open>The body is parsed exactly by its grammar.\<close>

lemma parse_body_syntax:
  assumes "body_syntax s src c ps" "Source m = []" "Params m = []"
  shows "parse_body m e s =
    (if isASCII c then (m\<lparr>Source := src, Command := ToUpperASCII c, Params := ps\<rparr>, e)
     else (m\<lparr>Source := src\<rparr>, Some ErrorLineContainsBadChar))"
  using assms(1)
proof (cases rule: body_syntax.cases)
  case no_source
  obtain r where "trimInitialSpaces s = c @ r" "c \<noteq> []" "CHR '' '' \<notin> set c"
    "r = [] \<or> r = CHR '' '' # tl r" "parse_params [] (drop 1 r) = ps"
    by (rule cmd_syntax_trim [OF no_source(2)])
  with parse_body_no_source [of s c r m e] no_source assms(2,3) show ?thesis by auto
next
  case (with_source q n)
  obtain r where "trimInitialSpaces q = c @ r" "c \<noteq> []" "CHR '' '' \<notin> set c"
    "r = [] \<or> r = CHR '' '' # tl r" "parse_params [] (drop 1 r) = ps"
    by (rule cmd_syntax_trim [OF with_source(3)])
  with parse_body_with_source [of s src q c r m e] with_source assms(2,3) show ?thesis
    by (auto simp: Let_def)
qed

lemma parse_body_not_syntax:
  assumes "\<And>src c ps. \<not> body_syntax s src c ps" "Params m = []"
  shows "snd (parse_body m e s) = Some ErrorLineIsEmpty"
proof -
  obtain n where s: "s = spaces n @ trimInitialSpaces s"
    and h: "trimInitialSpaces s = [] \<or> hd (trimInitialSpaces s) \<noteq> CHR '' ''"
    by (rule trim_split)
  let ?t = "trimInitialSpaces s"
  show ?thesis
  proof (cases "?t \<noteq> [] \<and> hd ?t = CHR '':''")
    case True
    then obtain t where t: "?t = CHR '':'' # t" by (cases ?t) auto
    show ?thesis
    proof (cases "IndexByte t (CHR '' '')")
      case None
      with t have "IndexByte ?t (CHR '' '') = None" by simp
      with True t show ?thesis by (simp add: parse_body_def)
    next
      case (Some i)
      obtain src q where q: "t = src @ CHR '' '' # q" "CHR '' '' \<notin> set src"
        using IndexByte_Some_split [OF Some] by blast
      obtain c r where c: "trimInitialSpaces q = c @ r" "CHR '' '' \<notin> set c"
        "r = [] \<or> r = CHR '' '' # tl r" by (rule command_split)
      have "c = []"
      proof (rule ccontr)
        assume "c \<noteq> []"
        with c have "cmd_syntax q c (parse_params [] (drop 1 r))" by (intro cmd_syntax_split)
        with q(2) have "body_syntax (spaces n @ CHR '':'' # src @ CHR '' '' # q) src c
            (parse_params [] (drop 1 r))" by (rule with_source)
        with assms(1) s t q(1) show False by metis
      qed
      with c q t assms(2) show ?thesis
        by (simp add: parse_body_with_source [of s src q c r m e] Let_def)
    qed
  next
    case False
    obtain c r where c: "?t = c @ r" "CHR '' '' \<notin> set c" "r = [] \<or> r = CHR '' '' # tl r"
      by (rule command_split)
    have r: "c = [] \<Longrightarrow> r = []" using h c by (cases r) auto
    have "c = []"
    proof (rule ccontr)
      assume ne: "c \<noteq> []"
      with c have "cmd_syntax s c (parse_params [] (drop 1 r))" by (intro cmd_syntax_split)
      moreover have "hd c \<noteq> CHR '':''" using False c(1) ne by auto
      ultimately show False using assms(1) no_source by blast
    qed
    with c r assms(2) show ?thesis by (simp add: parse_body_no_source [of s c r m e])
  qed
qed

lemma body_syntax_unique:
  assumes "body_syntax s src c ps" "body_syntax s src' c' ps'" "isASCII c" "isASCII c'"
  shows "src' = src \<and> ToUpperASCII c' = ToUpperASCII c \<and> ps' = ps"
proof -
  let ?m = "zero_Message"
  have "?m\<lparr>Source := src, Command := ToUpperASCII c, Params := ps\<rparr>
      = ?m\<lparr>Source := src', Command := ToUpperASCII c', Params := ps'\<rparr>"
    using parse_body_syntax [OF assms(1), of ?m None] parse_body_syntax [OF assms(2), of ?m None]
      assms(3,4) by (simp add: zero_Message_def)
  then show ?thesis by (simp add: zero_Message_def)
qed

subsection \<open>Tags\<close>

definition clean :: "string \<Rightarrow> bool" where
  "clean s \<longleftrightarrow> CHR 0x00 \<notin> set s \<and> CHR 0x0A \<notin> set s \<and> CHR 0x0D \<notin> set s"

lemma forbidden_iff: "forbidden s \<longleftrightarrow> \<not> clean s"
  by (simp add: forbidden_def clean_def del: IndexByte_absent)

lemma clean_subset: "clean s \<Longrightarrow> set t \<subseteq> set s \<Longrightarrow> clean t"
  by (auto simp: clean_def)

lemma clean_append [simp]: "clean (s @ t) \<longleftrightarrow> clean s \<and> clean t"
  by (auto simp: clean_def)

lemma clean_Cons [simp]:
  "clean (c # s) \<longleftrightarrow> c \<noteq> CHR 0x00 \<and> c \<noteq> CHR 0x0A \<and> c \<noteq> CHR 0x0D \<and> clean s"
  by (auto simp: clean_def)

lemma clean_Nil [simp]: "clean []"
  by (simp add: clean_def)

lemma clean_ToUpperASCII: "clean s \<Longrightarrow> clean (ToUpperASCII s)"
  by (simp add: clean_def set_ToUpperASCII)

text \<open>
  What a parsed tag satisfies. An escaped value may stand for one with line breaks, but never for
  one with a NUL byte.
\<close>

definition tags_ok :: "Message \<Rightarrow> bool" where
  "tags_ok m \<longleftrightarrow> (\<forall>k v. tags m k = Some v \<or> clientOnlyTags m k = Some v \<longrightarrow>
     validateTagName k \<and> validateTagValue v \<and> CHR 0x00 \<notin> set v)"

lemma tags_ok_zero: "tags_ok zero_Message"
  by (simp add: tags_ok_def zero_Message_def)

lemma tags_ok_SetTag:
  "tags_ok m \<Longrightarrow> validateTagName k \<Longrightarrow> validateTagValue v \<Longrightarrow> CHR 0x00 \<notin> set v \<Longrightarrow> tags_ok (SetTag m k v)"
  by (auto simp: tags_ok_def SetTag_def)

lemma NUL_unescape: "CHR 0x00 \<in> set (unescape_spec s) \<Longrightarrow> CHR 0x00 \<in> set s"
  by (induction s rule: unescape_spec.induct) (auto simp: escapedCharLookupTable_def split: if_splits)

lemma parseTags_step:
  assumes "ts \<noteq> []"
  obtains k v rest where "length rest < length ts" "set k \<subseteq> set ts" "set v \<subseteq> set ts" "set rest \<subseteq> set ts"
    "\<And>m. parseTags m ts =
      (if validateTagName k then
         if \<not> validateTagValue v then (m, Some ErrorInvalidTagContent)
         else parseTags (SetTag m k (UnescapeTagValue v)) rest
       else parseTags m rest)"
proof -
  obtain endPos nextPos where pos: "(case IndexByte ts (CHR '';'') of
      None \<Rightarrow> (length ts, length ts) | Some tagEnd \<Rightarrow> (tagEnd, tagEnd + 1)) = (endPos, nextPos)"
    by fastforce
  obtain k v where kv: "(case IndexByte (take endPos ts) (CHR ''='') of
      None \<Rightarrow> (take endPos ts, [])
    | Some i \<Rightarrow> (take i (take endPos ts), drop (i + 1) (take endPos ts))) = (k, v)"
    by fastforce
  show ?thesis
  proof (rule that)
    show "length (drop nextPos ts) < length ts"
      using pos assms by (auto split: option.splits dest: IndexByte_less)
    show "set k \<subseteq> set ts" "set v \<subseteq> set ts"
      using kv by (auto split: option.splits dest!: in_set_takeD in_set_dropD)
    show "set (drop nextPos ts) \<subseteq> set ts" by (rule set_drop_subset)
    show "parseTags m ts =
      (if validateTagName k then
         if \<not> validateTagValue v then (m, Some ErrorInvalidTagContent)
         else parseTags (SetTag m k (UnescapeTagValue v)) (drop nextPos ts)
       else parseTags m (drop nextPos ts))" for m
      using assms pos kv by (subst parseTags.simps) simp
  qed
qed

lemma parseTags_Nil [simp]: "parseTags m [] = (m, None)"
  by (subst parseTags.simps) simp

lemma parseTags_keeps:
  "parseTags m ts = (m', e) \<Longrightarrow> msg_inv m \<Longrightarrow> tags_ok m \<Longrightarrow> CHR 0x00 \<notin> set ts \<Longrightarrow>
   msg_inv m' \<and> tags_ok m' \<and> Source m' = Source m \<and> Command m' = Command m \<and> Params m' = Params m
   \<and> forceTrailing m' = forceTrailing m \<and> e \<in> {None, Some ErrorInvalidTagContent}"
proof (induction ts arbitrary: m rule: length_induct)
  case (1 ts)
  show ?case
  proof (cases "ts = []")
    case True
    with "1.prems" show ?thesis by simp
  next
    case False
    obtain k v rest where r: "length rest < length ts" "set k \<subseteq> set ts" "set v \<subseteq> set ts"
      "set rest \<subseteq> set ts"
      "\<And>m. parseTags m ts =
        (if validateTagName k then
           if \<not> validateTagValue v then (m, Some ErrorInvalidTagContent)
           else parseTags (SetTag m k (UnescapeTagValue v)) rest
         else parseTags m rest)"
      by (rule parseTags_step [OF False], rule that)
    have nul: "CHR 0x00 \<notin> set (UnescapeTagValue v)" "CHR 0x00 \<notin> set rest"
      using r(3,4) "1.prems"(4) NUL_unescape [of v] unfolding UnescapeTagValue_eq_spec by blast+
    have IH: "parseTags m1 rest = (m', e) \<Longrightarrow> msg_inv m1 \<Longrightarrow> tags_ok m1 \<Longrightarrow>
       msg_inv m' \<and> tags_ok m' \<and> Source m' = Source m1 \<and> Command m' = Command m1
       \<and> Params m' = Params m1 \<and> forceTrailing m' = forceTrailing m1
       \<and> e \<in> {None, Some ErrorInvalidTagContent}" for m1
      using "1.IH" r(1) nul(2) by blast
    show ?thesis
    proof (cases "validateTagName k \<and> validateTagValue v")
      case True
      then have "validateTagValue (UnescapeTagValue v)"
        by (simp add: validateTagValue_def ValidString_UnescapeTagValue)
      then have "msg_inv (SetTag m k (UnescapeTagValue v))" "tags_ok (SetTag m k (UnescapeTagValue v))"
        using True nul(1) "1.prems"(2,3) by (auto intro: msg_inv_SetTag tags_ok_SetTag)
      moreover have "parseTags (SetTag m k (UnescapeTagValue v)) rest = (m', e)"
        using True "1.prems"(1) unfolding r(5) [of m] by simp
      ultimately show ?thesis using IH by fastforce
    next
      case False
      with "1.prems"(1) have "parseTags m rest = (m', e) \<or> (m' = m \<and> e = Some ErrorInvalidTagContent)"
        unfolding r(5) [of m] by (auto split: if_splits)
      with IH "1.prems"(2,3) show ?thesis by blast
    qed
  qed
qed

subsection \<open>The whole line\<close>

text \<open>The shape of a message that came out of the parser.\<close>

definition msg_wf :: "Message \<Rightarrow> bool" where
  "msg_wf m \<longleftrightarrow> msg_inv m \<and> tags_ok m
    \<and> CHR '' '' \<notin> set (Source m) \<and> clean (Source m)
    \<and> Command m \<noteq> [] \<and> CHR '' '' \<notin> set (Command m) \<and> clean (Command m)
    \<and> isASCII (Command m) \<and> ToUpperASCII (Command m) = Command m
    \<and> (\<forall>p\<in>set (butlast (Params m)). middle p) \<and> (\<forall>p\<in>set (Params m). clean p)"

inductive line_syntax :: "string \<Rightarrow> string \<Rightarrow> string \<Rightarrow> string \<Rightarrow> string list \<Rightarrow> bool" where
  untagged: "body_syntax s src c ps \<Longrightarrow> hd s \<noteq> CHR ''@'' \<Longrightarrow> line_syntax s [] src c ps"
| tagged: "CHR '' '' \<notin> set t \<Longrightarrow> body_syntax b src c ps \<Longrightarrow>
    line_syntax (CHR ''@'' # t @ CHR '' '' # b) t src c ps"

lemma params_syntax_parts:
  "params_syntax s ps \<Longrightarrow> (\<forall>p\<in>set (butlast ps). middle p) \<and> (\<forall>p\<in>set ps. set p \<subseteq> set s)"
  by (induction rule: params_syntax.induct) auto

lemma cmd_syntax_parts:
  "cmd_syntax s c ps \<Longrightarrow> c \<noteq> [] \<and> CHR '' '' \<notin> set c \<and> set c \<subseteq> set s \<and>
   (\<forall>p\<in>set (butlast ps). middle p) \<and> (\<forall>p\<in>set ps. set p \<subseteq> set s)"
  by (cases rule: cmd_syntax.cases) (fastforce dest: params_syntax_parts)+

lemma body_syntax_parts:
  "body_syntax s src c ps \<Longrightarrow> c \<noteq> [] \<and> CHR '' '' \<notin> set c \<and> CHR '' '' \<notin> set src \<and>
   set src \<subseteq> set s \<and> set c \<subseteq> set s \<and>
   (\<forall>p\<in>set (butlast ps). middle p) \<and> (\<forall>p\<in>set ps. set p \<subseteq> set s)"
  by (cases rule: body_syntax.cases) (fastforce dest!: cmd_syntax_parts)+

lemma body_syntax_not_Nil: "body_syntax s src c ps \<Longrightarrow> s \<noteq> []"
  by (auto dest: body_syntax_parts)

lemma isASCII_upper: "isASCII s \<Longrightarrow> isASCII (ToUpperASCII s)"
  by (auto simp: isASCII_def ToUpperASCII_def list_all_iff byte_upper_byte)

text \<open>A successful parse of the body, in terms of the grammar.\<close>

lemma parse_body_success:
  assumes "parse_body m e s = (m', e')" "e' \<noteq> Some ErrorLineIsEmpty" "e' \<noteq> Some ErrorLineContainsBadChar"
    "Source m = []" "Params m = []"
  obtains src c ps where "body_syntax s src c ps" "isASCII c" "e' = e"
    "m' = m\<lparr>Source := src, Command := ToUpperASCII c, Params := ps\<rparr>"
proof -
  have "\<exists>src c ps. body_syntax s src c ps"
    using parse_body_not_syntax [of s m e] assms(1,2,5) by auto
  then obtain src c ps where b: "body_syntax s src c ps" by blast
  from parse_body_syntax [OF b assms(4,5), of e] assms(1,3)
  have "isASCII c" "m' = m\<lparr>Source := src, Command := ToUpperASCII c, Params := ps\<rparr>" "e' = e"
    by (auto split: if_splits)
  with b that show thesis by blast
qed

lemma msg_wf_body:
  assumes "body_syntax s src c ps" "isASCII c" "clean s" "msg_inv m" "tags_ok m"
  shows "msg_wf (m\<lparr>Source := src, Command := ToUpperASCII c, Params := ps\<rparr>)"
proof -
  from body_syntax_parts [OF assms(1)] have parts: "c \<noteq> []" "CHR '' '' \<notin> set c" "CHR '' '' \<notin> set src"
    "clean src" "clean c" "\<forall>p\<in>set (butlast ps). middle p" "\<forall>p\<in>set ps. clean p"
    using clean_subset [OF assms(3)] by auto
  then show ?thesis
    using assms(2,4,5) by (simp add: msg_wf_def clean_ToUpperASCII isASCII_upper set_ToUpperASCII)
      (simp add: tags_ok_def)
qed

text \<open>What the tag section leaves for the body.\<close>

lemma parse_tag_section_None:
  assumes "parse_tag_section line k = (m, None, rest)" "line \<noteq> []"
  shows "(hd line \<noteq> CHR ''@'' \<and> rest = line \<and> m = zero_Message) \<or>
    (\<exists>t. line = CHR ''@'' # t @ CHR '' '' # rest \<and> CHR '' '' \<notin> set t \<and>
      \<not> (0 < k \<and> k < int (length t)) \<and> parseTags zero_Message t = (m, None))"
proof (cases "hd line = CHR ''@''")
  case True
  with assms(2) obtain l where l: "line = CHR ''@'' # l" by (cases line) auto
  with assms(1) obtain i where i: "IndexByte l (CHR '' '') = Some i"
    by (cases "IndexByte l (CHR '' '')") (auto simp: parse_tag_section_def)
  from assms(1) l i show ?thesis
    using IndexByte_Some_split [OF i]
    by (auto simp: parse_tag_section_def Let_def split: if_splits prod.splits option.splits)
next
  case False
  with assms show ?thesis by (auto simp: parse_tag_section_def hd_conv_nth)
qed

lemma parse_tag_section_keeps:
  assumes "parse_tag_section line k = (m, e, rest)" "line \<noteq> []" "clean line"
  shows "msg_inv m \<and> tags_ok m \<and> Source m = [] \<and> Params m = [] \<and> forceTrailing m = False \<and>
    (e = None \<longrightarrow> clean rest)"
proof (cases e)
  case None
  with parse_tag_section_None [of line k m rest] assms show ?thesis
    using parseTags_keeps [of zero_Message _ m None] msg_inv_zero tags_ok_zero
    by (auto simp: clean_def) (auto simp: zero_Message_def)
next
  case (Some x)
  show ?thesis
  proof (cases "m = zero_Message")
    case True
    then show ?thesis using Some msg_inv_zero tags_ok_zero by (simp add: zero_Message_def)
  next
    case False
    with assms(1) Some obtain i where "parseTags zero_Message (drop 1 (take i line)) = (m, Some x)"
      by (auto simp: parse_tag_section_def Let_def split: if_splits prod.splits option.splits)
    moreover have "CHR 0x00 \<notin> set (drop 1 (take i line))"
      using assms(3) by (auto simp: clean_def dest!: in_set_dropD in_set_takeD)
    ultimately show ?thesis
      using parseTags_keeps [of zero_Message _ m "Some x"] msg_inv_zero tags_ok_zero Some
      by (simp add: zero_Message_def)
  qed
qed

text \<open>The line without its terminator.\<close>

definition stripped :: "string \<Rightarrow> string" where
  "stripped line = TrimSuffix (TrimSuffix line [CHR 0x0A]) [CHR 0x0D]"

lemma stripped_clean: "clean s \<Longrightarrow> stripped s = s" "clean s \<Longrightarrow> stripped (s @ [CHR 0x0D, CHR 0x0A]) = s"
  using TrimSuffix_append [of "s @ [CHR 0x0D]" "[CHR 0x0A]"] TrimSuffix_append [of s "[CHR 0x0D]"]
  by (simp_all add: stripped_def clean_def TrimSuffix_single_absent)

text \<open>The stages of \<open>parseLine\<close> for a line that passes the first checks.\<close>

lemma parseLine_stages:
  assumes "clean (stripped line)" "stripped line \<noteq> []" "n = 0 \<or> 2 < n"
  shows "parseLine line k n =
    (case parse_tag_section (stripped line) k of
       (m, Some e, _) \<Rightarrow> Some (m, Some e)
     | (m, None, rest) \<Rightarrow>
         if n \<noteq> 0 \<and> n - 2 < int (length rest)
         then map_option (parse_body m (Some ErrorBodyTooLong)) (TruncateUTF8Safe rest (n - 2))
         else Some (parse_body m None rest))"
proof -
  have "\<not> (n \<noteq> 0 \<and> n \<le> 2)" "\<not> forbidden (stripped line)" "\<not> length (stripped line) < 1"
    using assms by (auto simp: forbidden_iff)
  then show ?thesis
    unfolding parseLine_def stripped_def [symmetric] Let_def
    by (auto split: prod.splits option.splits bind_splits)
qed

lemma parseLine_early:
  assumes "\<not> (clean (stripped line) \<and> stripped line \<noteq> [] \<and> (n = 0 \<or> 2 < n))"
  shows "parseLine line k n = Some (zero_Message,
    if n \<noteq> 0 \<and> n \<le> 2 then Some ErrorLineIsEmpty
    else if \<not> clean (stripped line) then Some ErrorLineContainsBadChar else Some ErrorLineIsEmpty)"
  using assms unfolding parseLine_def stripped_def [symmetric] Let_def by (auto simp: forbidden_iff)

lemma parseLine_total:
  assumes "n \<le> 2 \<or> 5 \<le> n"
  shows "parseLine line k n \<noteq> None"
proof (cases "clean (stripped line) \<and> stripped line \<noteq> [] \<and> (n = 0 \<or> 2 < n)")
  case True
  with assms utf8_trunc.trunc_total [of "n - 2"] show ?thesis
    by (simp add: parseLine_stages del: not_None_eq split: prod.splits option.splits) auto
next
  case False
  then show ?thesis by (simp add: parseLine_early)
qed

text \<open>Every message that is returned without a fatal error is well-formed.\<close>

lemma parseLine_wf:
  assumes "parseLine line k n = Some (m, e)" "e = None \<or> e = Some ErrorBodyTooLong"
  shows "msg_wf m \<and> forceTrailing m = False"
proof -
  have ok: "clean (stripped line) \<and> stripped line \<noteq> [] \<and> (n = 0 \<or> 2 < n)"
  proof (rule ccontr)
    assume "\<not> ?thesis"
    from parseLine_early [OF this, of k] assms show False by (auto split: if_splits)
  qed
  obtain m0 e0 rest where sec: "parse_tag_section (stripped line) k = (m0, e0, rest)"
    by (metis prod_cases3)
  have keeps: "msg_inv m0" "tags_ok m0" "Source m0 = []" "Params m0 = []" "forceTrailing m0 = False"
    "e0 = None \<Longrightarrow> clean rest"
    using parse_tag_section_keeps [OF sec] ok by auto
  have e0: "e0 = None"
  proof (cases e0)
    case (Some x)
    with assms ok sec have "x = ErrorBodyTooLong" by (auto simp: parseLine_stages)
    with sec Some ok show ?thesis
      using parseTags_keeps [of zero_Message _ m0 "Some x"] msg_inv_zero tags_ok_zero
      by (fastforce simp: parse_tag_section_def Let_def clean_def split: if_splits prod.splits option.splits
          dest!: in_set_takeD in_set_dropD)
  qed
  obtain b e1 where b: "parse_body m0 e1 b = (m, e)" "clean b"
  proof (cases "n \<noteq> 0 \<and> n - 2 < int (length rest)")
    case True
    with assms(1) ok sec e0 obtain b where "TruncateUTF8Safe rest (n - 2) = Some b"
      "parse_body m0 (Some ErrorBodyTooLong) b = (m, e)" by (auto simp: parseLine_stages)
    with that keeps(6) e0 show ?thesis using utf8_trunc.trunc_set clean_subset by blast
  next
    case False
    with assms(1) ok sec e0 keeps(6) that show ?thesis by (auto simp: parseLine_stages)
  qed
  have "e \<noteq> Some ErrorLineIsEmpty" "e \<noteq> Some ErrorLineContainsBadChar" using assms(2) by auto
  with b(1) keeps(3,4) obtain src c ps where s: "body_syntax b src c ps" "isASCII c"
    "m = m0\<lparr>Source := src, Command := ToUpperASCII c, Params := ps\<rparr>"
    by (elim parse_body_success)
  show ?thesis using msg_wf_body [OF s(1,2) b(2) keeps(1,2)] s(3) keeps(5) by simp
qed

text \<open>\<open>ParseLine\<close> accepts exactly the grammar.\<close>

lemma parse_tag_section_line:
  "CHR '' '' \<notin> set t \<Longrightarrow> parseTags zero_Message t = (m0, None) \<Longrightarrow>
   parse_tag_section (CHR ''@'' # t @ CHR '' '' # b) 0 = (m0, None, b)"
  using IndexByte_append [of "CHR '' ''" "CHR ''@'' # t" b] by (simp add: parse_tag_section_def)

lemma ParseLine_sound:
  assumes "clean (stripped line)" "line_syntax (stripped line) t src c ps" "isASCII c"
    "parseTags zero_Message t = (m0, None)"
  shows "ParseLine line = Some (m0\<lparr>Source := src, Command := ToUpperASCII c, Params := ps\<rparr>, None)"
  using assms(2)
proof (cases rule: line_syntax.cases)
  case untagged
  then have ne: "stripped line \<noteq> []" by (auto dest: body_syntax_not_Nil)
  from untagged assms(4) have "m0 = zero_Message" by simp
  moreover have "parse_tag_section (stripped line) 0 = (zero_Message, None, stripped line)"
    using untagged ne by (simp add: parse_tag_section_def hd_conv_nth)
  ultimately show ?thesis
    using parse_body_syntax [OF untagged(2), of zero_Message None] assms(1,3) ne
    by (simp add: ParseLine_def parseLine_stages) (simp add: zero_Message_def)
next
  case (tagged b)
  have "\<not> CHR 0x00 \<in> set t" using assms(1) tagged by (auto simp: clean_def)
  then have "Source m0 = []" "Params m0 = []"
    using parseTags_keeps [OF assms(4) msg_inv_zero tags_ok_zero] by (auto simp: zero_Message_def)
  then show ?thesis
    using parse_body_syntax [OF tagged(3), of m0 None] parse_tag_section_line [OF tagged(2) assms(4), of b]
      tagged(1) assms(1,3)
    by (simp add: ParseLine_def parseLine_stages)
qed

lemma ParseLine_complete:
  assumes "ParseLine line = Some (m, None)"
  obtains t src c ps m0 where "clean (stripped line)" "line_syntax (stripped line) t src c ps" "isASCII c"
    "parseTags zero_Message t = (m0, None)"
    "m = m0\<lparr>Source := src, Command := ToUpperASCII c, Params := ps\<rparr>"
proof -
  have ok: "clean (stripped line) \<and> stripped line \<noteq> []"
  proof (rule ccontr)
    assume "\<not> ?thesis"
    then have "\<not> (clean (stripped line) \<and> stripped line \<noteq> [] \<and> ((0::int) = 0 \<or> 2 < (0::int)))" by simp
    from parseLine_early [OF this, of 0] assms show False by (auto simp: ParseLine_def split: if_splits)
  qed
  obtain m0 e0 rest where sec: "parse_tag_section (stripped line) 0 = (m0, e0, rest)"
    by (metis prod_cases3)
  with assms ok have e0: "e0 = None"
    by (cases e0) (auto simp: ParseLine_def parseLine_stages)
  have body: "parse_body m0 None rest = (m, None)"
    using assms ok sec e0 by (simp add: ParseLine_def parseLine_stages)
  have keeps: "Source m0 = []" "Params m0 = []" using parse_tag_section_keeps [OF sec] ok by auto
  from body keeps obtain src c ps where s: "body_syntax rest src c ps" "isASCII c"
    "m = m0\<lparr>Source := src, Command := ToUpperASCII c, Params := ps\<rparr>"
    by (elim parse_body_success) auto
  from parse_tag_section_None [OF sec [unfolded e0]] ok have "(hd (stripped line) \<noteq> CHR ''@'' \<and> rest = stripped line \<and> m0 = zero_Message) \<or>
    (\<exists>t. stripped line = CHR ''@'' # t @ CHR '' '' # rest \<and> CHR '' '' \<notin> set t \<and>
      \<not> (0 < (0::int) \<and> 0 < int (length t)) \<and> parseTags zero_Message t = (m0, None))" by blast
  then show ?thesis
  proof
    assume u: "hd (stripped line) \<noteq> CHR ''@'' \<and> rest = stripped line \<and> m0 = zero_Message"
    with s(1) have "line_syntax (stripped line) [] src c ps" by (intro untagged) auto
    with s u ok that [of "[]" src c ps m0] show ?thesis by simp
  next
    assume "\<exists>t. stripped line = CHR ''@'' # t @ CHR '' '' # rest \<and> CHR '' '' \<notin> set t \<and>
      \<not> (0 < (0::int) \<and> 0 < int (length t)) \<and> parseTags zero_Message t = (m0, None)"
    then obtain t where "stripped line = CHR ''@'' # t @ CHR '' '' # rest" "CHR '' '' \<notin> set t"
      "parseTags zero_Message t = (m0, None)" by blast
    with s ok that [of t] show ?thesis using tagged [of t rest] by metis
  qed
qed

subsection \<open>Properties\<close>




text \<open>Parsing never panics without a body limit, or with one that leaves the truncation at least
  three bytes.\<close>

theorem ParseLineStrict_no_panic:
  assumes "n \<le> 2 \<or> 5 \<le> n"
  shows "\<exists>m e. ParseLineStrict s fromClient n = Some (m, e)"
  using parseLine_total [OF assms] by (auto simp: ParseLineStrict_def)

lemma ParseLineStrict_no_panic_witness: "\<exists>m e. ParseLineStrict ''PING'' False 512 = Some (m, e)"
  by (rule ParseLineStrict_no_panic) simp

end
