(* ===== verification/Msg_Line.thy ===== *)
theory Msg_Line
  imports Msg_Parse
begin

text \<open>
  \<^verbatim>\<open>ircmsg/message.go\<close>, third part: serializing a message (\<open>Line\<close>, \<open>LineBytes\<close>,
  \<open>LineBytesStrict\<close>, \<open>line\<close>). The two lists \<open>tord\<close> and \<open>cord\<close> are the entries of the two
  tag maps in the order in which Go happens to range over them (\<open>is_order\<close>). A \<open>nil\<close> slice is
  the empty list.
\<close>

subsection \<open>The code\<close>

definition paramRequiresTrailing :: "string \<Rightarrow> bool" where
  "paramRequiresTrailing param \<longleftrightarrow>
    length param = 0 \<or> IndexByte param (CHR '' '') \<noteq> None \<or> param ! 0 = CHR '':''"

text \<open>
  The closure \<open>writeTags\<close>; its state is the buffer, \<open>firstTag\<close> and \<open>tagError\<close>.
\<close>

fun writeTags :: "(string \<times> string) list \<Rightarrow> string \<times> bool \<times> msg_error option
    \<Rightarrow> string \<times> bool \<times> msg_error option" where
  "writeTags [] st = st"
| "writeTags ((tag, val) # rest) (buf, firstTag, tagError) =
    (let tagError' = (if \<not> (validateTagName tag \<and> validateTagValue val)
                      then Some ErrorInvalidTagContent else tagError);
         buf1 = (if \<not> firstTag then buf @ '';'' else buf);
         buf2 = buf1 @ tag;
         buf3 = (if val \<noteq> [] then buf2 @ ''='' @ EscapeTagValue val else buf2)
     in writeTags rest (buf3, False, tagError'))"

text \<open>
  The tag part: the buffer, \<open>lenRegularTags\<close>, \<open>lenClientOnlyTags\<close> and the error.
\<close>

definition line_tags :: "(string \<times> string) list \<Rightarrow> (string \<times> string) list
    \<Rightarrow> string \<times> int \<times> int \<times> msg_error option" where
  "line_tags tord cord =
    (if 0 < length tord \<or> 0 < length cord then
       let (buf1, firstTag1, tagError1) = writeTags tord (''@'', True, None);
           lenRegularTags = int (length buf1) - 1;
           (buf2, firstTag2, tagError2) = writeTags cord (buf1, firstTag1, tagError1);
           lenClientOnlyTags0 = (int (length buf2) - 1) - lenRegularTags;
           lenClientOnlyTags =
             (if lenRegularTags \<noteq> 0 then lenClientOnlyTags0 - 1 else lenClientOnlyTags0)
       in (buf2 @ '' '', lenRegularTags, lenClientOnlyTags, tagError2)
     else ([], 0, 0, None))"

fun line_params :: "bool \<Rightarrow> string list \<Rightarrow> string \<Rightarrow> msg_error + string" where
  "line_params force [] buf = Inr buf"
| "line_params force (param # rest) buf =
    (let buf1 = buf @ '' '';
         requiresTrailing = paramRequiresTrailing param;
         lastParam = (rest = [])
     in if (requiresTrailing \<or> force) \<and> lastParam then
          line_params force rest (buf1 @ '':'' @ param)
        else if requiresTrailing \<and> \<not> lastParam then Inl ErrorBadParam
        else line_params force rest (buf1 @ param))"

text \<open>
  Truncation of the buffer: \<open>buf.Truncate\<close> panics on a negative length, and the loop that follows
  removes the rest of a cut rune, as \<open>TruncateUTF8Safe\<close> does.
\<close>

definition line_truncate :: "string \<Rightarrow> int \<Rightarrow> int \<Rightarrow> (string \<times> msg_error option) go" where
  "line_truncate buf lenTags truncateLen =
    (if truncateLen \<noteq> 0 \<and> truncateLen - 2 < int (length buf) - lenTags then
       let newBufLen = lenTags + (truncateLen - 2) in
       if newBufLen < 0 then None
       else do {
         buf' \<leftarrow> trim_rune_loop 3 (take (nat newBufLen) buf);
         Some (buf', Some ErrorBodyTooLong)
       }
     else Some (buf, None))"

definition line :: "Message \<Rightarrow> (string \<times> string) list \<Rightarrow> (string \<times> string) list
    \<Rightarrow> int \<Rightarrow> int \<Rightarrow> int \<Rightarrow> int \<Rightarrow> (string \<times> msg_error option) go" where
  "line msg tord cord tagLimit clientOnlyTagDataLimit serverAddedTagDataLimit truncateLen =
    (if length (Command msg) = 0 then Some ([], Some ErrorCommandMissing)
     else
       case line_tags tord cord of
         (_, _, _, Some tagError) \<Rightarrow> Some ([], Some tagError)
       | (tagBuf, lenRegularTags, lenClientOnlyTags, None) \<Rightarrow>
           let lenTags = int (length tagBuf) in
           if 0 < tagLimit \<and> tagLimit < lenTags then Some ([], Some ErrorTagsTooLong)
           else if (0 < clientOnlyTagDataLimit \<and> clientOnlyTagDataLimit < lenClientOnlyTags)
                 \<or> (0 < serverAddedTagDataLimit \<and> serverAddedTagDataLimit < lenRegularTags) then
             Some ([], Some ErrorTagsTooLong)
           else
             let buf1 = (if 0 < length (Source msg) then tagBuf @ '':'' @ Source msg @ '' ''
                         else tagBuf) @ Command msg
             in case line_params (forceTrailing msg) (Params msg) buf1 of
                  Inl e \<Rightarrow> Some ([], Some e)
                | Inr buf2 \<Rightarrow> do {
                    (buf3, err) \<leftarrow> line_truncate buf2 lenTags truncateLen;
                    Some (if forbidden buf3 then ([], Some ErrorLineContainsBadChar)
                          else (buf3 @ [CHR 0x0D, CHR 0x0A], err))
                  })"

definition LineBytes :: "Message \<Rightarrow> (string \<times> string) list \<Rightarrow> (string \<times> string) list
    \<Rightarrow> (string \<times> msg_error option) go" where
  "LineBytes msg tord cord = line msg tord cord 0 0 0 0"

definition Line :: "Message \<Rightarrow> (string \<times> string) list \<Rightarrow> (string \<times> string) list
    \<Rightarrow> (string \<times> msg_error option) go" where
  "Line msg tord cord = do {
    (bytes, err) \<leftarrow> line msg tord cord 0 0 0 0;
    Some (if err = None then bytes else [], err)
  }"

definition LineBytesStrict :: "Message \<Rightarrow> (string \<times> string) list \<Rightarrow> (string \<times> string) list
    \<Rightarrow> bool \<Rightarrow> int \<Rightarrow> (string \<times> msg_error option) go" where
  "LineBytesStrict msg tord cord fromClient truncateLen =
    (let (tagLimit, clientOnlyTagDataLimit, serverAddedTagDataLimit) =
       (if fromClient then (MaxlenTagsFromClient, 0, 0)
        else (0, MaxlenClientTagData, MaxlenServerTagData))
     in line msg tord cord tagLimit clientOnlyTagDataLimit serverAddedTagDataLimit truncateLen)"

text \<open>The iteration orders of a map.\<close>

definition is_order :: "tag_map \<Rightarrow> (string \<times> string) list \<Rightarrow> bool" where
  "is_order m kvs \<longleftrightarrow> distinct (map fst kvs) \<and> map_of kvs = m"

subsection \<open>The text of the tags\<close>

definition tag_text :: "string \<times> string \<Rightarrow> string" where
  "tag_text kv = fst kv @ (if snd kv = [] then [] else CHR ''='' # EscapeTagValue (snd kv))"

fun join_tags :: "(string \<times> string) list \<Rightarrow> string" where
  "join_tags [] = []"
| "join_tags [kv] = tag_text kv"
| "join_tags (kv # kvs) = tag_text kv @ CHR '';'' # join_tags kvs"

definition tag_ok :: "string \<times> string \<Rightarrow> bool" where
  "tag_ok kv \<longleftrightarrow> validateTagName (fst kv) \<and> validateTagValue (snd kv)"

lemma join_tags_Cons: "kvs \<noteq> [] \<Longrightarrow> join_tags (kv # kvs) = tag_text kv @ CHR '';'' # join_tags kvs"
  by (cases kvs) auto

lemma writeTags_step:
  "writeTags (kv # rest) (buf, firstTag, e) =
    writeTags rest (buf @ (if firstTag then [] else '';'') @ tag_text kv, False,
      if tag_ok kv then e else Some ErrorInvalidTagContent)"
  by (cases kv) (simp add: Let_def tag_text_def tag_ok_def)

lemma writeTags_later:
  "writeTags kvs (buf, False, e) =
    (buf @ concat (map (\<lambda>kv. CHR '';'' # tag_text kv) kvs), False,
     if list_all tag_ok kvs then e else Some ErrorInvalidTagContent)"
proof (induction kvs arbitrary: buf e)
  case (Cons kv kvs)
  then show ?case by (subst writeTags_step) simp
qed simp

lemma concat_join: "kvs \<noteq> [] \<Longrightarrow> concat (map (\<lambda>kv. CHR '';'' # tag_text kv) kvs) = CHR '';'' # join_tags kvs"
  by (induction kvs rule: join_tags.induct) auto

lemma writeTags_first:
  "kvs \<noteq> [] \<Longrightarrow> writeTags kvs (buf, True, e) =
    (buf @ join_tags kvs, False, if list_all tag_ok kvs then e else Some ErrorInvalidTagContent)"
proof (cases kvs)
  case (Cons kv rest)
  then show ?thesis
    by (cases "rest = []")
      (simp_all add: writeTags_step writeTags_later concat_join join_tags_Cons del: writeTags.simps(2))
qed simp

lemma join_tags_append:
  "a \<noteq> [] \<Longrightarrow> b \<noteq> [] \<Longrightarrow> join_tags (a @ b) = join_tags a @ CHR '';'' # join_tags b"
  by (induction a rule: join_tags.induct) (auto simp: join_tags_Cons)

text \<open>The tag part of a line and its two lengths, whatever the two orders.\<close>

lemma line_tags_eq:
  "line_tags tord cord =
    (if tord = [] \<and> cord = [] then ([], 0, 0, None)
     else (''@'' @ join_tags (tord @ cord) @ '' '', int (length (join_tags tord)),
           int (length (join_tags cord)) - (if tord \<noteq> [] \<and> join_tags tord \<noteq> [] \<and> cord = [] then 1 else 0)
             + (if tord \<noteq> [] \<and> join_tags tord = [] \<and> cord \<noteq> [] then 1 else 0),
           if list_all tag_ok (tord @ cord) then None else Some ErrorInvalidTagContent))"
proof (cases "tord = []")
  case True
  then show ?thesis by (cases "cord = []") (auto simp: line_tags_def writeTags_first Let_def)
next
  case False
  then show ?thesis
    by (cases "cord = []")
      (auto simp: line_tags_def writeTags_first writeTags_later concat_join join_tags_append Let_def)
qed

lemma line_tags_err:
  "snd (snd (snd (line_tags tord cord)))
    = (if list_all tag_ok (tord @ cord) then None else Some ErrorInvalidTagContent)"
  by (simp add: line_tags_eq)

lemma line_tags_parts:
  obtains tagBuf lr lc where "line_tags tord cord =
    (tagBuf, lr, lc, if list_all tag_ok (tord @ cord) then None else Some ErrorInvalidTagContent)"
  by (rule that [of "fst (line_tags tord cord)" "fst (snd (line_tags tord cord))"
        "fst (snd (snd (line_tags tord cord)))"]) (simp add: prod_eq_iff line_tags_err)

lemma tag_text_not_Nil: "tag_ok kv \<Longrightarrow> tag_text kv \<noteq> []"
  by (auto simp: tag_ok_def tag_text_def dest: validateTagName_not_Nil)

lemma tag_text_clean:
  assumes "tag_ok kv" "c \<in> {CHR '';'', CHR '' '', CHR 0x0D, CHR 0x0A}"
  shows "c \<notin> set (tag_text kv)"
proof -
  have "c \<notin> set (fst kv)"
    using assms validateTagName_clean [of "fst kv" c] by (auto simp: tag_ok_def)
  moreover have "c \<noteq> CHR ''=''" using assms(2) by auto
  ultimately show ?thesis
    using set_EscapeTagValue [OF assms(2), of "snd kv"] by (simp add: tag_text_def)
qed

lemma join_tags_clean:
  assumes "list_all tag_ok kvs" "c \<in> {CHR '' '', CHR 0x0D, CHR 0x0A}"
  shows "c \<notin> set (join_tags kvs)"
  using assms(1)
proof (induction kvs rule: join_tags.induct)
  case (2 kv)
  with assms(2) tag_text_clean [of kv c] show ?case by simp
next
  case (3 kv kv' kvs)
  with assms(2) tag_text_clean [of kv c] show ?case by auto
qed simp

text \<open>Parsing the joined text gives the tags back, in order.\<close>

lemma parseTags_item:
  assumes "tag_ok kv" "ts = tag_text kv \<or> (\<exists>r. ts = tag_text kv @ CHR '';'' # r \<and> rest = r)"
    "ts = tag_text kv \<Longrightarrow> rest = []"
  shows "parseTags m ts = parseTags (SetTag m (fst kv) (snd kv)) rest"
proof -
  let ?k = "fst kv" and ?v = "snd kv" and ?t = "tag_text kv"
  have semi: "CHR '';'' \<notin> set ?t" using tag_text_clean [OF assms(1)] by simp
  have eq: "CHR ''='' \<notin> set ?k"
    using assms(1) validateTagName_clean [of ?k "CHR ''=''"] by (simp add: tag_ok_def)
  have item: "(case IndexByte ?t (CHR ''='') of None \<Rightarrow> (?t, [])
      | Some i \<Rightarrow> (take i ?t, drop (i + 1) ?t)) = (?k, if ?v = [] then [] else EscapeTagValue ?v)"
    using eq by (cases "?v = []") (simp_all add: tag_text_def IndexByte_append)
  have v: "validateTagValue (if ?v = [] then [] else EscapeTagValue ?v)"
    using assms(1) by (auto simp: tag_ok_def validateTagValue_def ValidString_EscapeTagValue)
  have u: "UnescapeTagValue (if ?v = [] then [] else EscapeTagValue ?v) = ?v"
    using Unescape_Escape [of ?v] by (simp add: UnescapeTagValue_eq_spec)
  have ne: "?t \<noteq> []" by (rule tag_text_not_Nil) (rule assms(1))
  obtain e n where pos: "(case IndexByte ts (CHR '';'') of
      None \<Rightarrow> (length ts, length ts) | Some i \<Rightarrow> (i, i + 1)) = (e, n)" "take e ts = ?t" "drop n ts = rest"
    using assms(2,3) semi by (cases "ts = ?t") (auto simp: IndexByte_append)
  have "0 < length ts" using assms(2) ne by auto
  with pos item v u assms(1) show ?thesis
    by (subst parseTags.simps) (simp add: tag_ok_def)
qed

lemma parseTags_join:
  "list_all tag_ok kvs \<Longrightarrow> parseTags m (join_tags kvs) = (UpdateTags m kvs, None)"
proof (induction kvs arbitrary: m rule: join_tags.induct)
  case (2 kv)
  then show ?case
    using parseTags_item [of kv "tag_text kv" "[]" m] by (cases kv) simp
next
  case (3 kv kv' kvs)
  then show ?case
    using parseTags_item [of kv "join_tags (kv # kv' # kvs)" "join_tags (kv' # kvs)" m]
    by (cases kv) simp
qed simp

subsection \<open>The parameters\<close>

lemma paramRequiresTrailing_iff: "paramRequiresTrailing p \<longleftrightarrow> \<not> middle p"
  using IndexByte_None_iff [of p "CHR '' ''"]
  by (cases p) (auto simp: paramRequiresTrailing_def middle_def simp del: IndexByte_None_iff)

lemma line_params_ok:
  "\<forall>p\<in>set (butlast ps). middle p \<Longrightarrow>
   \<exists>t. line_params force ps buf = Inr (buf @ t) \<and> (clean t \<longleftrightarrow> (\<forall>p\<in>set ps. clean p)) \<and>
     (if ps = [] then t = [] else \<exists>r. t = CHR '' '' # r \<and> params_syntax r ps)"
proof (induction force ps buf rule: line_params.induct)
  case (2 force p rest buf)
  show ?case
  proof (cases "rest = []")
    case True
    then show ?thesis
      using last_middle [of p 0] trailing [of 0 p]
      by (cases "middle p"; cases force) (simp_all add: Let_def paramRequiresTrailing_iff)
  next
    case False
    with "2.prems" have p: "middle p" "\<forall>p\<in>set (butlast rest). middle p" by auto
    obtain r where r: "line_params force rest ((buf @ '' '') @ p) = Inr (((buf @ '' '') @ p) @ CHR '' '' # r)"
      "clean (CHR '' '' # r) \<longleftrightarrow> (\<forall>p\<in>set rest. clean p)" "params_syntax r rest"
      using "2.IH"(2) [OF refl refl refl] False p by (force simp: paramRequiresTrailing_iff)
    have "params_syntax (p @ CHR '' '' # r) (p # rest)"
      using cons_middle [OF p(1) r(3), of 0] by simp
    with r False p(1) show ?thesis by (auto simp: Let_def paramRequiresTrailing_iff)
  qed
qed simp

lemma line_params_bad:
  "\<not> (\<forall>p\<in>set (butlast ps). middle p) \<Longrightarrow> line_params force ps buf = Inl ErrorBadParam"
proof (induction force ps buf rule: line_params.induct)
  case (2 force p rest buf)
  then have "rest \<noteq> []" by auto
  with 2 show ?case by (auto simp: Let_def paramRequiresTrailing_iff)
qed simp

subsection \<open>The buffer before truncation\<close>

definition source_text :: "Message \<Rightarrow> string" where
  "source_text m = (if Source m = [] then [] else CHR '':'' # Source m @ '' '')"

text \<open>
  The part after the tags, when the parameters can be written: \<open>body_text\<close> of source, command and
  parameters.
\<close>

lemma body_text:
  assumes "\<forall>p\<in>set (butlast (Params m)). middle p"
  obtains t where
    "\<And>buf. line_params (forceTrailing m) (Params m) buf = Inr (buf @ t)"
    "clean t \<longleftrightarrow> (\<forall>p\<in>set (Params m). clean p)"
    "if Params m = [] then t = [] else \<exists>r. t = CHR '' '' # r \<and> params_syntax r (Params m)"
proof -
  have app: "line_params force ps (a @ b) = map_sum id ((@) a) (line_params force ps b)" for force ps a b
    by (induction force ps b rule: line_params.induct) (auto simp: Let_def)
  obtain t where "line_params (forceTrailing m) (Params m) [] = Inr t"
    "clean t \<longleftrightarrow> (\<forall>p\<in>set (Params m). clean p)"
    "if Params m = [] then t = [] else \<exists>r. t = CHR '' '' # r \<and> params_syntax r (Params m)"
    using line_params_ok [OF assms, of "forceTrailing m" "[]"] by auto
  moreover from this(1) have "line_params (forceTrailing m) (Params m) buf = Inr (buf @ t)" for buf
    using app [of _ _ buf "[]"] by simp
  ultimately show ?thesis using that by blast
qed

lemma line_without_error:
  assumes "Command m \<noteq> []" "list_all tag_ok (tord @ cord)"
    "\<not> (0 < a \<and> a < int (length (fst (line_tags tord cord))))"
    "\<not> (0 < b \<and> b < fst (snd (snd (line_tags tord cord))))"
    "\<not> (0 < c \<and> c < fst (snd (line_tags tord cord)))"
    "\<And>buf. line_params (forceTrailing m) (Params m) buf = Inr (buf @ t)"
  shows "line m tord cord a b c n =
    (let tagBuf = fst (line_tags tord cord) in
     map_option (\<lambda>(buf, err).
         if clean buf then (buf @ [CHR 0x0D, CHR 0x0A], err) else ([], Some ErrorLineContainsBadChar))
       (line_truncate (tagBuf @ source_text m @ Command m @ t) (int (length tagBuf)) n))"
proof -
  obtain tagBuf lr lc where lt: "line_tags tord cord = (tagBuf, lr, lc, None)"
    using line_tags_parts [of tord cord] assms(2) by metis
  with assms show ?thesis
    by (cases "line_truncate (tagBuf @ source_text m @ Command m @ t) (int (length tagBuf)) n";
        cases "Source m = []")
      (auto simp: line_def Let_def forbidden_iff source_text_def)
qed

text \<open>Conversely, what a result without a fatal error says about the message.\<close>

lemma line_resultD:
  assumes "line m tord cord a b c n = Some (bytes, e)" "bytes \<noteq> []"
  shows "Command m \<noteq> []" "list_all tag_ok (tord @ cord)"
    "\<not> (0 < a \<and> a < int (length (fst (line_tags tord cord))))"
    "\<not> (0 < b \<and> b < fst (snd (snd (line_tags tord cord))))"
    "\<not> (0 < c \<and> c < fst (snd (line_tags tord cord)))"
    "\<forall>p\<in>set (butlast (Params m)). middle p"
proof -
  show cmd: "Command m \<noteq> []" using assms by (auto simp: line_def)
  show tags: "list_all tag_ok (tord @ cord)"
  proof (rule ccontr)
    assume "\<not> ?thesis"
    then obtain tagBuf lr lc where "line_tags tord cord = (tagBuf, lr, lc, Some ErrorInvalidTagContent)"
      using line_tags_parts [of tord cord] by metis
    with cmd assms show False by (simp add: line_def)
  qed
  obtain tagBuf lr lc where lt: "line_tags tord cord = (tagBuf, lr, lc, None)"
    using line_tags_parts [of tord cord] tags by metis
  from assms cmd lt show "\<not> (0 < a \<and> a < int (length (fst (line_tags tord cord))))"
    "\<not> (0 < b \<and> b < fst (snd (snd (line_tags tord cord))))"
    "\<not> (0 < c \<and> c < fst (snd (line_tags tord cord)))"
    by (auto simp: line_def Let_def split: if_splits)
  show "\<forall>p\<in>set (butlast (Params m)). middle p"
  proof (rule ccontr)
    assume "\<not> ?thesis"
    from line_params_bad [OF this] assms cmd lt show False
      by (auto simp: line_def Let_def split: if_splits)
  qed
qed

lemma line_shape:
  assumes "line m tord cord a b c n = Some (bytes, e)" "bytes \<noteq> []"
  obtains t buf where
    "\<And>buf. line_params (forceTrailing m) (Params m) buf = Inr (buf @ t)"
    "clean t \<longleftrightarrow> (\<forall>p\<in>set (Params m). clean p)"
    "line_truncate (fst (line_tags tord cord) @ source_text m @ Command m @ t)
       (int (length (fst (line_tags tord cord)))) n = Some (buf, e)"
    "clean buf" "bytes = buf @ [CHR 0x0D, CHR 0x0A]"
proof -
  note D = line_resultD [OF assms]
  obtain t where t: "\<And>buf. line_params (forceTrailing m) (Params m) buf = Inr (buf @ t)"
    "clean t \<longleftrightarrow> (\<forall>p\<in>set (Params m). clean p)"
    by (rule body_text [OF D(6)], rule that)
  from assms line_without_error [OF D(1-5) t(1), of n] show ?thesis
    by (auto simp: Let_def split: if_splits intro!: that [OF t])
qed

subsection \<open>Storing the entries of a map\<close>

lemma UpdateTags_regular:
  "\<forall>k\<in>fst ` set kvs. k \<noteq> [] \<and> k ! 0 \<noteq> CHR ''+'' \<Longrightarrow>
   UpdateTags m kvs = m\<lparr>tags := tags m ++ map_of (rev kvs)\<rparr>"
proof (induction m kvs rule: UpdateTags.induct)
  case (2 m k v rest)
  then have "UpdateTags (SetTag m k v) rest
      = (SetTag m k v)\<lparr>tags := tags (SetTag m k v) ++ map_of (rev rest)\<rparr>" by simp
  with 2 show ?case by (simp add: SetTag_def map_add_upd_left fun_eq_iff map_add_def
        split: option.splits)
qed simp

lemma UpdateTags_clientOnly:
  "\<forall>k\<in>fst ` set kvs. k \<noteq> [] \<and> k ! 0 = CHR ''+'' \<Longrightarrow>
   UpdateTags m kvs = m\<lparr>clientOnlyTags := clientOnlyTags m ++ map_of (rev kvs)\<rparr>"
proof (induction m kvs rule: UpdateTags.induct)
  case (2 m k v rest)
  then have "UpdateTags (SetTag m k v) rest
      = (SetTag m k v)\<lparr>clientOnlyTags := clientOnlyTags (SetTag m k v) ++ map_of (rev rest)\<rparr>" by simp
  with 2 show ?case by (simp add: SetTag_def fun_eq_iff map_add_def split: option.splits)
qed simp

lemma map_of_rev_order: "distinct (map fst kvs) \<Longrightarrow> map_of (rev kvs) = map_of kvs"
  by (rule map_of_inject_set [THEN iffD2]) (simp_all add: rev_map [symmetric])

lemma UpdateTags_append: "UpdateTags m (a @ b) = UpdateTags (UpdateTags m a) b"
  by (induction m a rule: UpdateTags.induct) simp_all

lemma UpdateTags_orders:
  assumes "msg_inv m" "is_order (tags m) tord" "is_order (clientOnlyTags m) cord"
  shows "UpdateTags zero_Message (tord @ cord)
    = zero_Message\<lparr>tags := tags m, clientOnlyTags := clientOnlyTags m\<rparr>"
proof -
  have t: "\<forall>k\<in>fst ` set tord. k \<noteq> [] \<and> k ! 0 \<noteq> CHR ''+''"
    and c: "\<forall>k\<in>fst ` set cord. k \<noteq> [] \<and> k ! 0 = CHR ''+''"
    using assms by (metis dom_map_of_conv_image_fst is_order_def msg_inv_def)+
  show ?thesis
    using assms(2,3) unfolding UpdateTags_append
    by (simp add: UpdateTags_regular [OF t] UpdateTags_clientOnly [OF c] is_order_def map_of_rev_order)
      (simp add: zero_Message_def)
qed

lemma orders_tag_ok:
  assumes "tags_ok m" "is_order (tags m) tord" "is_order (clientOnlyTags m) cord"
  shows "list_all tag_ok (tord @ cord)" "\<forall>kv\<in>set (tord @ cord). CHR 0x00 \<notin> set (snd kv)"
proof -
  have "validateTagName (fst kv) \<and> validateTagValue (snd kv) \<and> CHR 0x00 \<notin> set (snd kv)"
    if "kv \<in> set (tord @ cord)" for kv
  proof -
    have "tags m (fst kv) = Some (snd kv) \<or> clientOnlyTags m (fst kv) = Some (snd kv)"
      using that assms(2,3) map_of_is_SomeI [of tord "fst kv" "snd kv"]
        map_of_is_SomeI [of cord "fst kv" "snd kv"] unfolding is_order_def by auto
    then show ?thesis using assms(1) unfolding tags_ok_def by blast
  qed
  then show "list_all tag_ok (tord @ cord)" "\<forall>kv\<in>set (tord @ cord). CHR 0x00 \<notin> set (snd kv)"
    by (auto simp: list_all_iff tag_ok_def)
qed

lemma join_tags_NUL:
  assumes "list_all tag_ok kvs" "\<forall>kv\<in>set kvs. CHR 0x00 \<notin> set (snd kv)"
  shows "CHR 0x00 \<notin> set (join_tags kvs)"
proof -
  have "CHR 0x00 \<notin> set (tag_text kv)" if "tag_ok kv" "CHR 0x00 \<notin> set (snd kv)" for kv
    using that validateTagName_clean [of "fst kv" "CHR 0x00"] set_EscapeTagValue_NUL [of "snd kv"]
    by (auto simp: tag_text_def tag_ok_def)
  with assms show ?thesis
    by (induction kvs rule: join_tags.induct) auto
qed

subsection \<open>Round trip\<close>

text \<open>
  The messages that survive the wire: well-formed, and with a command that the parser cannot take
  for a source or a tag section.
\<close>

definition printable :: "Message \<Rightarrow> bool" where
  "printable m \<longleftrightarrow> msg_wf m
    \<and> (hd (Command m) = CHR '':'' \<longrightarrow> Source m \<noteq> [])
    \<and> (hd (Command m) = CHR ''@'' \<longrightarrow>
        Source m \<noteq> [] \<or> tags m \<noteq> Map.empty \<or> clientOnlyTags m \<noteq> Map.empty)"

lemma body_syntax_text:
  assumes "printable m" "if Params m = [] then t = [] else \<exists>r. t = CHR '' '' # r \<and> params_syntax r (Params m)"
  shows "body_syntax (source_text m @ Command m @ t) (Source m) (Command m) (Params m)"
proof -
  have c: "Command m \<noteq> []" "CHR '' '' \<notin> set (Command m)" "CHR '' '' \<notin> set (Source m)"
    using assms(1) by (auto simp: printable_def msg_wf_def)
  have cmd: "cmd_syntax (Command m @ t) (Command m) (Params m)"
    using assms(2) cmd_only [OF c(1,2), of 0] cmd_params [OF c(1,2), of _ _ 0]
    by (auto split: if_splits)
  show ?thesis
  proof (cases "Source m = []")
    case True
    with assms(1) cmd show ?thesis
      by (auto simp: source_text_def printable_def intro: no_source)
  next
    case False
    with with_source [OF c(3) cmd, of 0] show ?thesis by (simp add: source_text_def)
  qed
qed

lemma clean_source_text: "clean (source_text m) = clean (Source m)"
  by (simp add: source_text_def)

lemma line_tags_clean:
  assumes "tags_ok m" "is_order (tags m) tord" "is_order (clientOnlyTags m) cord"
  shows "clean (fst (line_tags tord cord))"
proof -
  note ok = orders_tag_ok [OF assms]
  have "clean (join_tags (tord @ cord))"
    using join_tags_clean [OF ok(1)] join_tags_NUL [OF ok] by (simp add: clean_def)
  then show ?thesis by (simp add: line_tags_eq)
qed

lemma LineBytes_printable:
  assumes "printable m" "is_order (tags m) tord" "is_order (clientOnlyTags m) cord"
  obtains t where "LineBytes m tord cord =
      Some ((fst (line_tags tord cord) @ source_text m @ Command m @ t) @ [CHR 0x0D, CHR 0x0A], None)"
    "clean (fst (line_tags tord cord) @ source_text m @ Command m @ t)"
    "if Params m = [] then t = [] else \<exists>r. t = CHR '' '' # r \<and> params_syntax r (Params m)"
proof -
  have wf: "msg_wf m" using assms(1) by (simp add: printable_def)
  then have mid: "\<forall>p\<in>set (butlast (Params m)). middle p" by (simp add: msg_wf_def)
  obtain t where t: "\<And>buf. line_params (forceTrailing m) (Params m) buf = Inr (buf @ t)"
    "clean t \<longleftrightarrow> (\<forall>p\<in>set (Params m). clean p)"
    "if Params m = [] then t = [] else \<exists>r. t = CHR '' '' # r \<and> params_syntax r (Params m)"
    by (rule body_text [OF mid], rule that)
  have tok: "tags_ok m" using wf by (simp add: msg_wf_def)
  have cl: "clean (fst (line_tags tord cord) @ source_text m @ Command m @ t)"
    using wf t(2) line_tags_clean [OF tok assms(2,3)] by (simp add: msg_wf_def clean_source_text)
  have "LineBytes m tord cord =
      Some ((fst (line_tags tord cord) @ source_text m @ Command m @ t) @ [CHR 0x0D, CHR 0x0A], None)"
    unfolding LineBytes_def
    using line_without_error [OF _ orders_tag_ok(1) [OF tok assms(2,3)] _ _ _ t(1), of 0 0 0 0] cl wf
    by (simp add: line_truncate_def msg_wf_def Let_def)
  with cl t(3) that show ?thesis by blast
qed

lemma Parse_LineBytes:
  assumes "printable m" "is_order (tags m) tord" "is_order (clientOnlyTags m) cord"
  obtains b where "LineBytes m tord cord = Some (b, None)"
    "ParseLine b = Some (m\<lparr>forceTrailing := False\<rparr>, None)"
proof -
  obtain t where t: "LineBytes m tord cord =
      Some ((fst (line_tags tord cord) @ source_text m @ Command m @ t) @ [CHR 0x0D, CHR 0x0A], None)"
    "clean (fst (line_tags tord cord) @ source_text m @ Command m @ t)"
    "if Params m = [] then t = [] else \<exists>r. t = CHR '' '' # r \<and> params_syntax r (Params m)"
    by (rule LineBytes_printable [OF assms])
  let ?body = "source_text m @ Command m @ t"
  let ?line = "fst (line_tags tord cord) @ ?body"
  have wf: "msg_wf m" using assms(1) by (simp add: printable_def)
  then have tok: "tags_ok m" and inv: "msg_inv m" and up: "ToUpperASCII (Command m) = Command m"
    and asc: "isASCII (Command m)" by (simp_all add: msg_wf_def)
  note ok = orders_tag_ok(1) [OF tok assms(2,3)]
  have body: "body_syntax ?body (Source m) (Command m) (Params m)"
    using assms(1) t(3) by (rule body_syntax_text)
  have strip: "stripped (?line @ [CHR 0x0D, CHR 0x0A]) = ?line"
    using t(2) by (rule stripped_clean(2))
  have syn: "line_syntax ?line (join_tags (tord @ cord)) (Source m) (Command m) (Params m)"
  proof (cases "tord = [] \<and> cord = []")
    case True
    with assms have "tags m = Map.empty" "clientOnlyTags m = Map.empty" by (auto simp: is_order_def)
    with assms(1) wf have "hd ?body \<noteq> CHR ''@''"
      by (auto simp: source_text_def printable_def msg_wf_def)
    with True body show ?thesis by (auto simp: line_tags_eq intro: untagged)
  next
    case False
    have "CHR '' '' \<notin> set (join_tags (tord @ cord))" using join_tags_clean [OF ok] by simp
    from tagged [OF this body] False show ?thesis by (auto simp: line_tags_eq)
  qed
  have "ParseLine (?line @ [CHR 0x0D, CHR 0x0A]) = Some
      ((zero_Message\<lparr>tags := tags m, clientOnlyTags := clientOnlyTags m\<rparr>)
        \<lparr>Source := Source m, Command := ToUpperASCII (Command m), Params := Params m\<rparr>, None)"
    using strip t(2) syn asc parseTags_join [OF ok, of zero_Message] UpdateTags_orders [OF inv assms(2,3)]
    by (intro ParseLine_sound) simp_all
  then have "ParseLine (?line @ [CHR 0x0D, CHR 0x0A]) = Some (m\<lparr>forceTrailing := False\<rparr>, None)"
    using up by (simp add: zero_Message_def)
  with t(1) that show ?thesis by simp
qed

subsection \<open>Safety, limits and truncation\<close>

lemma trim_rune_loop_keeps:
  "trim_rune_loop i (a @ v) = Some r \<Longrightarrow> a = [] \<or> byte (last a) < 128 \<Longrightarrow> prefix a r"
proof (induction v arbitrary: i rule: rev_induct)
  case Nil
  show ?case
  proof (cases "i = 0 \<or> a = []")
    case False
    then obtain j where "i = Suc j" by (cases i) auto
    moreover have "DecodeLastRune a = (byte (last a), 1)" "byte (last a) \<noteq> RuneError"
      using Nil False by (auto simp: DecodeLastRune_def RuneError_def)
    ultimately show ?thesis using Nil by simp
  qed (use Nil in auto)
next
  case (snoc y v)
  show ?case
  proof (cases i)
    case (Suc j)
    with snoc.prems(1) have "r = a @ v @ [y] \<or> trim_rune_loop j (a @ v) = Some r"
      by (auto split: prod.splits if_splits)
    with snoc.IH snoc.prems(2) show ?thesis by auto
  qed (use snoc.prems in auto)
qed

lemma line_tags_last:
  "fst (line_tags tord cord) = [] \<or> byte (last (fst (line_tags tord cord))) < 128"
  by (simp add: line_tags_eq)

lemma line_truncate_result:
  assumes "line_truncate (a @ b) (int (length a)) n = Some (buf, e)" "n = 0 \<or> 2 \<le> n"
    "a = [] \<or> byte (last a) < 128"
  obtains (whole) "buf = a @ b" "e = None" "n = 0 \<or> int (length b) \<le> n - 2"
    | (cut) r where "buf = a @ r" "prefix r b" "e = Some ErrorBodyTooLong" "0 < n"
        "int (length r) \<le> n - 2" "n - 5 \<le> int (length r)" "n - 2 < int (length b)"
        "trim_rune_loop 3 (a @ take (nat (n - 2)) b) = Some buf"
proof (cases "n \<noteq> 0 \<and> n - 2 < int (length b)")
  case True
  have "take (nat (int (length a) + (n - 2))) (a @ b) = a @ take (nat (n - 2)) b"
    using True assms(2) by (simp add: nat_add_distrib)
  with True assms(1,2) have t: "trim_rune_loop 3 (a @ take (nat (n - 2)) b) = Some buf"
    "e = Some ErrorBodyTooLong"
    by (auto simp: line_truncate_def Let_def split: bind_splits if_splits)
  from trim_rune_loop_keeps [OF t(1) assms(3)] obtain r where r: "buf = a @ r" by (auto simp: prefix_def)
  from trim_rune_loop_prefix [OF t(1)] r have p: "prefix r (take (nat (n - 2)) b)"
    "length (a @ take (nat (n - 2)) b) \<le> length buf + 3" by auto
  have "length r \<le> nat (n - 2)" using prefix_length_le [OF p(1)] by simp
  moreover have "nat (n - 2) \<le> length b" using True by linarith
  then have "nat (n - 2) \<le> length r + 3" using p(2) r by (simp add: min_absorb2)
  moreover have "prefix r b" using p(1) take_is_prefix prefix_order.trans by blast
  ultimately show ?thesis using cut [of r] r t True assms(2) by force
next
  case False
  with assms(1) whole show ?thesis by (auto simp: line_truncate_def)
qed

lemma line_total:
  assumes "n = 0 \<or> 5 \<le> n"
  shows "line m tord cord a b c n \<noteq> None"
proof -
  have trunc: "line_truncate buf (int (length tb)) n \<noteq> None" for buf tb
  proof (cases "n \<noteq> 0 \<and> n - 2 < int (length buf) - int (length tb)")
    case True
    then have "3 \<le> length (take (nat (int (length tb) + (n - 2))) buf)"
      using assms by simp
    from trim_rune_loop_total [OF this] True assms show ?thesis
      by (auto simp: line_truncate_def Let_def)
  qed (auto simp: line_truncate_def)
  obtain tagBuf lr lc err where lt: "line_tags tord cord = (tagBuf, lr, lc, err)"
    by (metis prod_cases4)
  have "\<exists>x y. line_truncate buf (int (length tagBuf)) n = Some (x, y)" for buf
    using trunc [of buf tagBuf] by auto
  then obtain x y where xy: "\<And>buf. line_truncate buf (int (length tagBuf)) n = Some (x buf, y buf)"
    by metis
  let ?b = "(if 0 < length (Source m) then tagBuf @ '':'' @ Source m @ '' '' else tagBuf) @ Command m"
  show ?thesis
    by (cases err; cases "line_params (forceTrailing m) (Params m) ?b")
      (simp_all add: line_def lt Let_def xy)
qed

lemma length_tags:
  "line_tags tord cord = (tagBuf, lr, lc, err) \<Longrightarrow> list_all tag_ok (tord @ cord) \<Longrightarrow>
   lr = int (length (join_tags tord)) \<and>
   int (length tagBuf) \<le> (if tord = [] \<and> cord = [] then 0 else lr + max 0 lc + 3) \<and>
   (tord = [] \<or> cord = [] \<longrightarrow> int (length tagBuf) \<le> lr + max 0 lc + 2)"
proof -
  assume lt: "line_tags tord cord = (tagBuf, lr, lc, err)" and ok: "list_all tag_ok (tord @ cord)"
  have "join_tags tord \<noteq> []" if "tord \<noteq> []"
    using ok that by (cases tord rule: join_tags.cases) (auto dest: tag_text_not_Nil)
  then show ?thesis
    using lt by (cases "tord = []"; cases "cord = []") (auto simp: line_tags_eq join_tags_append)
qed

text \<open>Bytes are returned exactly without an error or with \<open>ErrorBodyTooLong\<close>.\<close>

lemma line_tags_error: "snd (snd (snd (line_tags tord cord))) \<in> {None, Some ErrorInvalidTagContent}"
  by (simp add: line_tags_err)

lemma line_params_error: "line_params f ps buf = Inl e \<Longrightarrow> e = ErrorBadParam"
  by (induction f ps buf rule: line_params.induct) (auto simp: Let_def split: if_splits)

lemma line_Nil_error:
  assumes "line m tord cord a b c n = Some ([], e)"
  shows "e \<noteq> None \<and> e \<noteq> Some ErrorBodyTooLong"
proof -
  obtain tagBuf lr lc err where lt: "line_tags tord cord = (tagBuf, lr, lc, err)" by (metis prod_cases4)
  then have err: "err = None \<or> err = Some ErrorInvalidTagContent" using line_tags_error [of tord cord] by auto
  let ?b = "(if 0 < length (Source m) then tagBuf @ '':'' @ Source m @ '' '' else tagBuf) @ Command m"
  show ?thesis
  proof (cases "Command m = [] \<or> err \<noteq> None")
    case True
    with err lt assms show ?thesis by (cases "Command m = []") (auto simp: line_def)
  next
    case False
    then have eq: "line m tord cord a b c n =
      (if 0 < a \<and> a < int (length tagBuf) \<or> 0 < b \<and> b < lc \<or> 0 < c \<and> c < lr
       then Some ([], Some ErrorTagsTooLong)
       else case line_params (forceTrailing m) (Params m) ?b of
          Inl e \<Rightarrow> Some ([], Some e)
        | Inr buf2 \<Rightarrow> (case line_truncate buf2 (int (length tagBuf)) n of
            None \<Rightarrow> None
          | Some (buf3, err) \<Rightarrow> Some (if forbidden buf3 then ([], Some ErrorLineContainsBadChar)
              else (buf3 @ [CHR 0x0D, CHR 0x0A], err))))"
      by (simp add: line_def lt Let_def Option.bind_eq_Some_conv split: sum.splits option.splits)
    show ?thesis
    proof (cases "line_params (forceTrailing m) (Params m) ?b")
      case (Inl x)
      with line_params_error [OF Inl] assms show ?thesis
        unfolding eq by (auto split: if_splits)
    next
      case (Inr r)
      with assms show ?thesis
        unfolding eq by (auto split: if_splits option.splits prod.splits)
    qed
  qed
qed

lemma line_None_not_Nil: "line m tord cord a b c n = Some (bytes, None) \<Longrightarrow> bytes \<noteq> []"
  using line_Nil_error by blast

lemma ValidString_tag_text: "tag_ok kv \<Longrightarrow> ValidString (tag_text kv)"
proof -
  assume ok: "tag_ok kv"
  have "byte c < 128" if "c \<in> set (fst kv)" for c
    using validateTagName_set [OF _ that] ok by (auto simp: tag_ok_def valid_name_byte_def)
  then have "ValidString (fst kv)" by (intro ValidString_ascii) simp
  with ok show ?thesis by (simp add: tag_ok_def tag_text_def validateTagValue_def ValidString_EscapeTagValue)
qed

lemma ValidString_line_tags: "list_all tag_ok (tord @ cord) \<Longrightarrow> ValidString (fst (line_tags tord cord))"
proof -
  have "list_all tag_ok kvs \<Longrightarrow> ValidString (join_tags kvs)" for kvs
    by (induction kvs rule: join_tags.induct) (simp_all add: ValidString_tag_text)
  moreover assume "list_all tag_ok (tord @ cord)"
  ultimately have "ValidString (join_tags (tord @ cord))" by blast
  then show ?thesis by (simp add: line_tags_eq)
qed

lemma LineBytes_text:
  assumes "Command m \<noteq> []" "list_all tag_ok (tord @ cord)"
    "\<And>buf. line_params (forceTrailing m) (Params m) buf = Inr (buf @ t)"
  shows "LineBytes m tord cord =
    (let body = fst (line_tags tord cord) @ source_text m @ Command m @ t in
     Some (if clean body then (body @ [CHR 0x0D, CHR 0x0A], None) else ([], Some ErrorLineContainsBadChar)))"
  unfolding LineBytes_def
  by (simp add: line_without_error [OF assms(1,2) _ _ _ assms(3)] line_truncate_def Let_def)

lemma trim_rune_loop_valid:
  assumes "ValidString a" "ValidString b" "n \<le> length b" "trim_rune_loop 3 (a @ take n b) = Some (a @ r)"
  shows "ValidString r"
proof -
  from assms(2,3) obtain u v w where u: "take n b = u @ v" "ValidString u"
    "v = [] \<or> (w \<noteq> [] \<and> utf8_seq (v @ w))" "length v \<le> 3"
    by (rule ValidString_cut)
  have "trim_rune_loop 3 ((a @ u) @ v)
      = (if a @ u = [] \<and> length v < 3 then None else Some (a @ u))"
    using assms(1) u by (intro trim_rune_loop_cut) (auto intro: ValidString_append)
  with assms(4) u(1,2) show ?thesis by (auto split: if_splits)
qed

subsection \<open>Properties\<close>

text \<open>C1. Round trip: a printable message is serialized without error, and parsing the bytes gives
  the message back, whatever the iteration order of the two tag maps.\<close>

theorem LineBytes_round_trip:
  assumes "printable m" "is_order (tags m) tord" "is_order (clientOnlyTags m) cord"
  shows "\<exists>b. LineBytes m tord cord = Some (b, None) \<and>
    ParseLine b = Some (m\<lparr>forceTrailing := False\<rparr>, None)"
  by (rule Parse_LineBytes [OF assms]) blast

definition example_message :: Message where
  "example_message = \<lparr>Source = ''n!u@h'', Command = ''PRIVMSG'', Params = [''#c'', '':hi there''],
      forceTrailing = False, tags = [''msgid'' \<mapsto> ''a;b''], clientOnlyTags = [''+x'' \<mapsto> [] ]\<rparr>"

lemma printable_example: "printable example_message"
proof -
  have ok: "validateTagName ''msgid''" "validateTagValue ''a;b''" "validateTagName ''+x''" "validateTagValue []"
    by (simp_all add: validateTagName_def valid_name_byte_def validateTagValue_def RuneError_def go_eval)
  have "tags_ok example_message"
    using ok by (auto simp: tags_ok_def example_message_def split: if_splits)
  then show ?thesis
    by (auto simp: printable_def msg_wf_def msg_inv_def middle_def example_message_def isASCII_def
        ToUpperASCII_def upper_byte_def clean_def split: if_splits)
qed

lemma orders_example:
  "is_order (tags example_message) [(''msgid'', ''a;b'')]"
  "is_order (clientOnlyTags example_message) [(''+x'', [])]"
  by (simp_all add: is_order_def example_message_def)

lemma LineBytes_round_trip_witness:
  "\<exists>b. LineBytes example_message [(''msgid'', ''a;b'')] [(''+x'', [])] = Some (b, None) \<and>
    ParseLine b = Some (example_message\<lparr>forceTrailing := False\<rparr>, None)"
  by (rule LineBytes_round_trip [OF printable_example orders_example])

text \<open>Parse, print, parse: a line that parses, and whose command does not start with a character
  that announces a source or tags, prints to a line that parses to the same message.\<close>

theorem ParseLine_print_parse:
  assumes "ParseLine s = Some (m, None)" "hd (Command m) \<notin> {CHR '':'', CHR ''@''}"
    "is_order (tags m) tord" "is_order (clientOnlyTags m) cord"
  shows "\<exists>b. LineBytes m tord cord = Some (b, None) \<and> ParseLine b = Some (m, None)"
proof -
  have wf: "msg_wf m" "forceTrailing m = False"
    using parseLine_wf [of s 0 0 m None] assms(1) by (auto simp: ParseLine_def)
  with assms(2) have "printable m" by (simp add: printable_def)
  moreover have "m\<lparr>forceTrailing := False\<rparr> = m" using wf(2) by (cases m) simp
  ultimately show ?thesis using Parse_LineBytes [OF _ assms(3,4)] by metis
qed

lemma ParseLine_print_parse_witness:
  "\<exists>b. LineBytes (zero_Message\<lparr>Source := ''s'', Command := ''PING'', Params := [''a'', ''b c'']\<rparr>) [] []
      = Some (b, None) \<and>
    ParseLine b = Some (zero_Message\<lparr>Source := ''s'', Command := ''PING'', Params := [''a'', ''b c'']\<rparr>, None)"
proof (rule ParseLine_print_parse [of "'':s  ping a   :b c''"])
  show "ParseLine '':s  ping a   :b c''
      = Some (zero_Message\<lparr>Source := ''s'', Command := ''PING'', Params := [''a'', ''b c'']\<rparr>, None)"
    by (simp add: ParseLine_def parseLine_def TrimSuffix_def HasSuffix_def forbidden_def
        parse_tag_section_def parse_body_def trimInitialSpaces_def isASCII_def ToUpperASCII_def
        upper_byte_def zero_Message_def go_eval char_of_def bit_Suc_0_iff)
qed (simp_all add: is_order_def zero_Message_def)


lemma line_one_line:
  assumes "line m tord cord a b c n = Some (bytes, e)"
  shows "if e = None \<or> e = Some ErrorBodyTooLong
    then \<exists>body. bytes = body @ [CHR 0x0D, CHR 0x0A] \<and> clean body else bytes = []"
proof (cases "bytes = []")
  case True
  then have "e \<noteq> None \<and> e \<noteq> Some ErrorBodyTooLong" using line_Nil_error assms by blast
  with True show ?thesis by simp
next
  case False
  from assms False show ?thesis
  proof (rule line_shape)
    fix t buf
    assume b: "line_truncate (fst (line_tags tord cord) @ source_text m @ Command m @ t)
       (int (length (fst (line_tags tord cord)))) n = Some (buf, e)"
      "clean buf" "bytes = buf @ [CHR 0x0D, CHR 0x0A]"
    then have "e = None \<or> e = Some ErrorBodyTooLong"
      by (auto simp: line_truncate_def Let_def split: bind_splits if_splits)
    with b show ?thesis by simp
  qed
qed

text \<open>C4. No injection: whatever the message, what is sent is one line, ended by its only CR LF and
  without NUL; on any other error nothing is sent.\<close>

theorem line_no_injection:
  assumes "line m tord cord a b c n = Some (bytes, e)"
  shows "if e = None \<or> e = Some ErrorBodyTooLong
    then \<exists>body. bytes = body @ [CHR 0x0D, CHR 0x0A] \<and> clean body else bytes = []"
  by (rule line_one_line [OF assms])

lemma line_no_injection_witness:
  "\<exists>body. ''A b'' @ [CHR 0x0D, CHR 0x0A] = body @ [CHR 0x0D, CHR 0x0A] \<and> clean body"
proof -
  have "line (zero_Message\<lparr>Command := ''A'', Params := [''b'']\<rparr>) [] [] 0 0 0 0
      = Some (''A b'' @ [CHR 0x0D, CHR 0x0A], None)"
    by (simp add: line_def line_tags_def line_truncate_def paramRequiresTrailing_def forbidden_def
        zero_Message_def)
  from line_no_injection [OF this] show ?thesis by simp
qed

lemma strict_limits:
  assumes "LineBytesStrict m tord cord fromClient n = Some (bytes, e)" "bytes \<noteq> []" "n = 0 \<or> 2 \<le> n"
  shows "\<exists>tagPart body. bytes = tagPart @ body \<and> tagPart = fst (line_tags tord cord) \<and>
    int (length tagPart) \<le> (if fromClient then 4096 else 8191) \<and>
    (n \<noteq> 0 \<longrightarrow> int (length body) \<le> n)"
proof -
  obtain a b c where l: "line m tord cord a b c n = Some (bytes, e)"
    and lim: "(a, b, c) = (if fromClient then (4096, 0, 0) else (0, 4094, 4094))"
    using assms(1) by (auto simp: LineBytesStrict_def MaxlenTagsFromClient_def MaxlenClientTagData_def
        MaxlenServerTagData_def split: if_splits)
  note D = line_resultD [OF l assms(2)]
  have tl: "int (length (fst (line_tags tord cord))) \<le> (if fromClient then 4096 else 8191)"
    using length_tags [OF _ D(2)] D(3-5) lim
    by (cases "line_tags tord cord") (auto split: if_splits)
  from l assms(2) show ?thesis
  proof (rule line_shape)
    fix t buf
    assume t: "line_truncate (fst (line_tags tord cord) @ source_text m @ Command m @ t)
       (int (length (fst (line_tags tord cord)))) n = Some (buf, e)"
      "bytes = buf @ [CHR 0x0D, CHR 0x0A]"
    from t(1) assms(3) line_tags_last show ?thesis
      by (cases rule: line_truncate_result) (use t(2) tl in auto)
  qed
qed

text \<open>C7. Limits: \<open>LineBytesStrict\<close> never returns a tag section beyond the protocol limit (4096 bytes
  from a client, 8191 from a server, with the \<open>@\<close> and the space), and with a body limit \<open>n\<close> never a
  body of more than \<open>n\<close> bytes, CR LF included.\<close>

theorem LineBytesStrict_limits:
  assumes "LineBytesStrict m tord cord fromClient n = Some (bytes, e)" "bytes \<noteq> []" "n = 0 \<or> 2 \<le> n"
  shows "\<exists>tagPart body. bytes = tagPart @ body \<and> tagPart = fst (line_tags tord cord) \<and>
    int (length tagPart) \<le> (if fromClient then 4096 else 8191) \<and>
    (n \<noteq> 0 \<longrightarrow> int (length body) \<le> n)"
  by (rule strict_limits [OF assms])

text \<open>A message that is cut: its body \<open>A bcd\<close> against a limit of 6 bytes.\<close>

definition long_message :: Message where
  "long_message = zero_Message\<lparr>Command := ''A'', Params := [''bcd'']\<rparr>"

lemmas line_eval = line_def line_tags_def line_truncate_def paramRequiresTrailing_def forbidden_def
  DecodeLastRune_def RuneError_def RuneStart_def zero_Message_def long_message_def

lemma long_message_cut:
  "LineBytesStrict long_message [] [] True 6 = Some (''A bc'' @ [CHR 0x0D, CHR 0x0A], Some ErrorBodyTooLong)"
  "line long_message [] [] 4096 0 0 6 = Some (''A bc'' @ [CHR 0x0D, CHR 0x0A], Some ErrorBodyTooLong)"
  "LineBytes long_message [] [] = Some (''A bcd'' @ [CHR 0x0D, CHR 0x0A], None)"
  by (simp_all add: LineBytesStrict_def LineBytes_def MaxlenTagsFromClient_def MaxlenClientTagData_def
      line_eval go_eval numeral_3_eq_3)

lemma LineBytesStrict_limits_witness:
  "\<exists>tagPart body. ''A bc'' @ [CHR 0x0D, CHR 0x0A] = tagPart @ body \<and> tagPart = fst (line_tags [] []) \<and>
    int (length tagPart) \<le> 4096 \<and> int (length body) \<le> 6"
  using LineBytesStrict_limits [OF long_message_cut(1)] by simp



text \<open>No panic: serialization without a body limit, or with one of at least 5 bytes, never panics.\<close>

theorem line_no_panic:
  assumes "n = 0 \<or> 5 \<le> n" shows "\<exists>bytes e. LineBytesStrict m tord cord fromClient n = Some (bytes, e)"
  using line_total [OF assms] by (auto simp: LineBytesStrict_def)

lemma line_no_panic_witness: "\<exists>bytes e. LineBytesStrict long_message [] [] True 6 = Some (bytes, e)"
  by (rule line_no_panic) simp

text \<open>With a smaller limit it can panic: the buffer is cut inside the only rune, and the loop that
  removes the rest of the rune slices the empty buffer.\<close>

lemma line_small_limit_panics:
  "LineBytesStrict (zero_Message\<lparr>Command := [CHR 0xE2, CHR 0x82, CHR 0xAC]\<rparr>) [] [] False 4 = None"
  by (simp add: LineBytesStrict_def MaxlenClientTagData_def MaxlenServerTagData_def line_def line_tags_def
      line_truncate_def zero_Message_def euro_panics)

end
