(* ===== verification/Reader_Round.thy ===== *)
theory Reader_Round
  imports Irc_Prelude "HOL-Library.Word"
begin

text \<open>
  \<^verbatim>\<open>roundUpToPowerOfTwo\<close> of \<^verbatim>\<open>ircreader/ircreader.go\<close>, on the 64-bit \<open>int\<close> of Go: subtraction
  and addition wrap, and \<open>>>\<close> on a signed value copies the sign bit. Shown bit by bit: the five
  or-shift steps spread the highest set bit over the 32 positions below it.
\<close>

unbundle bit_operations_syntax

subsection \<open>The code\<close>

definition roundUpToPowerOfTwo :: "64 word \<Rightarrow> 64 word" where
  "roundUpToPowerOfTwo v0 =
    (let v = v0 - 1;
         v = v OR signed_drop_bit 1 v;
         v = v OR signed_drop_bit 2 v;
         v = v OR signed_drop_bit 4 v;
         v = v OR signed_drop_bit 8 v;
         v = v OR signed_drop_bit 16 v
     in v + 1)"

subsection \<open>Spreading the highest bit\<close>

definition smeared :: "64 word \<Rightarrow> nat \<Rightarrow> 64 word \<Rightarrow> bool" where
  "smeared x d w \<longleftrightarrow> (\<forall>i. bit w i \<longleftrightarrow> (\<exists>j<d. bit x (i + j)))"

lemma bit_sdrop: "bit (signed_drop_bit d (w :: 64 word)) i = bit w (if 64 - d \<le> i \<and> i < 64 then 63 else d + i)"
proof -
  have L: "LENGTH(64) = 64" "(64 :: nat) - 1 = 63" by simp_all
  show ?thesis using bit_signed_drop_bit_iff [of d w i] unfolding L .
qed

lemma smeared_step:
  assumes "smeared x d w" "\<forall>i\<ge>62. \<not> bit x i" "0 < d" "d < 64"
  shows "smeared x (2 * d) (w OR signed_drop_bit d w)"
  unfolding smeared_def
proof
  fix i
  have top: "\<not> bit w n" if "62 \<le> n" for n
    using assms(1,2) that by (simp add: smeared_def)
  have "bit (signed_drop_bit d w) i \<longleftrightarrow> bit w (i + d)"
  proof (cases "64 - d \<le> i \<and> i < 64")
    case True
    then have "62 \<le> i + d" by linarith
    with True top [of 63] top [of "i + d"] show ?thesis by (simp add: bit_sdrop)
  next
    case False
    then show ?thesis unfolding bit_sdrop by (simp only: if_False add.commute)
  qed
  moreover have "bit w (i + d) \<longleftrightarrow> (\<exists>j<d. bit x (i + (d + j)))"
    using assms(1) by (simp add: smeared_def add.assoc)
  moreover have "(\<exists>j<2 * d. bit x (i + j)) \<longleftrightarrow> (\<exists>j<d. bit x (i + j)) \<or> (\<exists>j<d. bit x (i + (d + j)))"
  proof -
    have "\<exists>j'<d. j = d + j'" if "j < 2 * d" "\<not> j < d" for j
      using that by (intro exI [of _ "j - d"]) auto
    then show ?thesis by (metis add_less_cancel_left mult_2 trans_less_add1)
  qed
  ultimately show "bit (w OR signed_drop_bit d w) i \<longleftrightarrow> (\<exists>j<2 * d. bit x (i + j))"
    using assms(1) by (simp add: smeared_def bit_or_iff)
qed

lemma roundUp_smeared:
  assumes "\<forall>i\<ge>62. \<not> bit (v - 1) i"
  obtains w where "smeared (v - 1) 32 w" "roundUpToPowerOfTwo v = w + 1"
proof -
  let ?x = "v - 1"
  note step = smeared_step [OF _ assms]
  have "smeared ?x 1 ?x" by (simp add: smeared_def)
  from step [OF this] have "smeared ?x 2 (?x OR signed_drop_bit 1 ?x)" by simp
  note s2 = this
  from step [OF s2] have s4: "smeared ?x 4 (let v = ?x OR signed_drop_bit 1 ?x in v OR signed_drop_bit 2 v)"
    by (simp add: Let_def)
  from step [OF s4] have s8: "smeared ?x 8 (let v = ?x OR signed_drop_bit 1 ?x;
      v = v OR signed_drop_bit 2 v in v OR signed_drop_bit 4 v)"
    by (simp add: Let_def)
  from step [OF s8] have s16: "smeared ?x 16 (let v = ?x OR signed_drop_bit 1 ?x;
      v = v OR signed_drop_bit 2 v; v = v OR signed_drop_bit 4 v in v OR signed_drop_bit 8 v)"
    by (simp add: Let_def)
  from step [OF s16] have "smeared ?x 32 (let v = ?x OR signed_drop_bit 1 ?x;
      v = v OR signed_drop_bit 2 v; v = v OR signed_drop_bit 4 v; v = v OR signed_drop_bit 8 v
      in v OR signed_drop_bit 16 v)"
    by (simp add: Let_def)
  from that [OF this] show ?thesis by (simp add: roundUpToPowerOfTwo_def Let_def)
qed

lemma word_high_bits: "unat (x :: 64 word) < 2 ^ n \<longleftrightarrow> (\<forall>i\<ge>n. \<not> bit x i)"
proof -
  have bx: "bit (unat x) i = bit x i" for i
    by (cases "i < LENGTH(64)") (simp_all add: bit_unsigned_iff bit_word_def not_less_iff_gr_or_eq)
  have "(\<forall>i\<ge>n. \<not> bit x i) \<longleftrightarrow> take_bit n (unat x) = unat x"
  proof
    assume high: "\<forall>i\<ge>n. \<not> bit x i"
    show "take_bit n (unat x) = unat x"
    proof (rule bit_eqI)
      fix i
      show "bit (take_bit n (unat x)) i = bit (unat x) i"
        using high unfolding bit_take_bit_iff bx by (metis not_le)
    qed
  next
    assume "take_bit n (unat x) = unat x"
    then have "bit (take_bit n (unat x)) i = bit x i" for i unfolding bx [symmetric] by simp
    then show "\<forall>i\<ge>n. \<not> bit x i" unfolding bit_take_bit_iff by (metis not_le)
  qed
  then show ?thesis by (simp add: take_bit_nat_eq_self_iff)
qed

text \<open>The least power of two that is not below the argument.\<close>

lemma roundUp_power:
  assumes "0 < unat v" "unat v \<le> 2 ^ 32"
  obtains k where "k \<le> 32" "roundUpToPowerOfTwo v = 2 ^ k" "unat v \<le> 2 ^ k" "k = 0 \<or> 2 ^ (k - 1) < unat v"
proof -
  let ?x = "v - 1"
  have x: "unat ?x = unat v - 1"
    using assms(1) by (metis gr_implies_not0 unat_0 unat_minus_one)
  then have "unat ?x < 2 ^ 32" using assms by linarith
  then have hi: "\<forall>i\<ge>32. \<not> bit ?x i" by (simp only: word_high_bits)
  then have "\<forall>i\<ge>62. \<not> bit ?x i" by simp
  then obtain w where w: "smeared ?x 32 w" "roundUpToPowerOfTwo v = w + 1"
    by (rule roundUp_smeared)
  show thesis
  proof (cases "?x = 0")
    case True
    then have "w = 0" using w(1) by (intro bit_word_eqI) (simp add: smeared_def)
    moreover have "unat v = 1" using True x assms(1) by simp
    ultimately show thesis using w(2) by (intro that [of 0]) simp_all
  next
    case False
    then obtain i where "bit ?x i" by (metis bit_word_eqI bit_0_eq bot_apply bot_bool_def)
    define k where "k = (GREATEST i. bit ?x i)"
    have bd: "bit ?x i \<Longrightarrow> i \<le> 31" for i
      using hi [rule_format, of i] by linarith
    have k: "bit ?x k" unfolding k_def by (rule GreatestI_nat [of _ i]) (fact, rule bd)
    have max: "bit ?x i \<Longrightarrow> i \<le> k" for i unfolding k_def by (rule Greatest_le_nat) (auto intro: bd)
    have "w = mask (Suc k)"
    proof (rule bit_word_eqI)
      fix n assume "n < LENGTH(64)"
      have "(\<exists>j<32. bit ?x (n + j)) \<longleftrightarrow> n \<le> k"
      proof
        assume "\<exists>j<32. bit ?x (n + j)"
        then show "n \<le> k" using max by fastforce
      next
        assume "n \<le> k"
        with k bd [OF k] show "\<exists>j<32. bit ?x (n + j)" by (intro exI [of _ "k - n"]) auto
      qed
      with w(1) \<open>n < LENGTH(64)\<close> show "bit w n \<longleftrightarrow> bit (mask (Suc k) :: 64 word) n"
        by (simp add: smeared_def bit_mask_iff less_Suc_eq_le del: mask_Suc_exp)
    qed
    with w(2) have r: "roundUpToPowerOfTwo v = 2 ^ Suc k" by (simp add: mask_eq_exp_minus_1)
    have "unat ?x < 2 ^ Suc k" unfolding word_high_bits using max by (metis Suc_n_not_le_n order_trans)
    moreover have "\<not> unat ?x < 2 ^ k" unfolding word_high_bits using k by blast
    ultimately show thesis using r x bd [OF k] by (intro that [of "Suc k"]) auto
  qed
qed

lemma roundUp_ge:
  assumes "0 < unat v" "unat v \<le> 2 ^ 62"
  shows "unat v \<le> unat (roundUpToPowerOfTwo v)" "unat (roundUpToPowerOfTwo v) \<le> 2 ^ 62"
proof -
  let ?x = "v - 1"
  have x: "unat ?x = unat v - 1"
    using assms(1) by (metis gr_implies_not0 unat_0 unat_minus_one)
  then have "unat ?x < 2 ^ 62" using assms by linarith
  then have hi: "\<forall>i\<ge>62. \<not> bit ?x i" by (simp only: word_high_bits)
  then obtain w where w: "smeared ?x 32 w" "roundUpToPowerOfTwo v = w + 1"
    by (rule roundUp_smeared)
  have "\<forall>i\<ge>62. \<not> bit w i" using w(1) hi by (simp add: smeared_def)
  then have lt: "unat w < 2 ^ 62" by (simp only: word_high_bits)
  have "?x AND w = ?x"
  proof (rule bit_word_eqI)
    fix n
    have "bit ?x n \<Longrightarrow> bit w n" using w(1) unfolding smeared_def by (metis add.right_neutral zero_less_numeral)
    then show "bit (?x AND w) n = bit ?x n" by (auto simp: bit_and_iff)
  qed
  then have "?x \<le> w" by (metis word_and_le1)
  then have le: "unat ?x \<le> unat w" by (simp add: word_le_nat_alt)
  have "unat (w + 1) = unat w + 1" using lt by (simp add: unat_word_ariths)
  with le lt x assms(1) w(2) show "unat v \<le> unat (roundUpToPowerOfTwo v)"
    "unat (roundUpToPowerOfTwo v) \<le> 2 ^ 62" by simp_all
qed

lemma sint_small: "unat (w :: 64 word) \<le> 2 ^ 62 \<Longrightarrow> sint w = int (unat w)"
proof -
  assume "unat w \<le> 2 ^ 62"
  then have "int (unat w) \<le> int (2 ^ 62)" by (simp only: of_nat_le_iff)
  then have le: "uint w \<le> 2 ^ 62" by (simp only: uint_nat of_nat_power of_nat_numeral)
  have "signed_take_bit 63 (uint w) = uint w"
    using le uint_ge_0 [of w] unfolding signed_take_bit_int_eq_self_iff by (auto intro: order_trans [of _ 0])
  moreover have "sint w = signed_take_bit (LENGTH(64) - 1) (uint w)" by (simp only: sint_uint One_nat_def)
  moreover have "LENGTH(64) - 1 = 63" by simp
  ultimately show ?thesis by (simp only: uint_nat)
qed

text \<open>The same on Go's signed integers, for a length within the limits.\<close>

lemma roundUp_int:
  assumes "0 < n" "n \<le> 2 ^ 62"
  shows "int n \<le> sint (roundUpToPowerOfTwo (of_int (int n)))"
    and "sint (roundUpToPowerOfTwo (of_int (int n))) \<le> 2 ^ 62"
proof -
  have "n < 2 ^ LENGTH(64)" using assms(2) by simp
  then have u: "unat (of_nat n :: 64 word) = n" by (simp add: unat_of_nat)
  with assms roundUp_ge [of "of_nat n"]
  have r: "n \<le> unat (roundUpToPowerOfTwo (of_nat n))" "unat (roundUpToPowerOfTwo (of_nat n)) \<le> 2 ^ 62"
    by simp_all
  from sint_small [OF r(2)] have "sint (roundUpToPowerOfTwo (of_int (int n))) = int (unat (roundUpToPowerOfTwo (of_nat n)))"
    by simp
  with r show "int n \<le> sint (roundUpToPowerOfTwo (of_int (int n)))"
    "sint (roundUpToPowerOfTwo (of_int (int n))) \<le> 2 ^ 62" by (simp_all flip: of_nat_le_iff [where 'a = int])
qed

subsection \<open>Properties\<close>

text \<open>For \<open>1 \<le> v \<le> 2 ^ 32\<close>, \<open>roundUpToPowerOfTwo\<close> returns the least power of two that is not
  below \<open>v\<close>.\<close>

theorem roundUpToPowerOfTwo_least:
  assumes "0 < unat v" "unat v \<le> 2 ^ 32"
  shows "\<exists>k\<le>32. roundUpToPowerOfTwo v = 2 ^ k \<and> unat v \<le> 2 ^ k \<and> (k = 0 \<or> 2 ^ (k - 1) < unat v)"
  using roundUp_power [OF assms] by metis

lemma roundUpToPowerOfTwo_least_witness:
  "\<exists>k\<le>32. roundUpToPowerOfTwo 513 = 2 ^ k \<and> 513 \<le> (2 :: nat) ^ k \<and> (k = 0 \<or> (2 :: nat) ^ (k - 1) < 513)"
  using roundUpToPowerOfTwo_least [of 513] unfolding atLeastAtMost_iff by simp

text \<open>Above \<open>2 ^ 32\<close> the comment's promise fails: the shift by 32 is missing, and the result is
  not a power of two.\<close>

lemma roundUpToPowerOfTwo_large:
  "roundUpToPowerOfTwo (2 ^ 33 + 1) = 2 ^ 34 - 3 \<and> (\<nexists>k. roundUpToPowerOfTwo (2 ^ 33 + 1) = 2 ^ k)"
proof -
  have r: "roundUpToPowerOfTwo (2 ^ 33 + 1) = 2 ^ 34 - 3" by code_simp
  have "(2 ^ 34 - 3 :: 64 word) \<noteq> 2 ^ k" for k
  proof (cases k)
    case (Suc j)
    have odd: "bit (2 ^ 34 - 3 :: 64 word) 0" by code_simp
    have "\<not> bit (2 ^ k :: 64 word) 0" using Suc by (simp add: bit_0)
    with odd show ?thesis by metis
  next
    case 0
    have "(2 ^ 34 - 3 :: 64 word) \<noteq> 2 ^ 0" by code_simp
    with 0 show ?thesis by (simp only: not_False_eq_True)
  qed
  with r show ?thesis by simp
qed

end
