(* ===== verification/Reader.thy ===== *)
theory Reader
  imports Reader_Round "HOL-Library.Signed_Division"
begin

text \<open>
  \<^verbatim>\<open>ircreader/ircreader.go\<close>: the buffered line reader. The connection is a parameter: a
  function \<open>rd c k\<close> for \<open>conn.Read\<close> on a slice of length \<open>k\<close>, which returns the bytes
  read, the error, and the connection's next state. The bytes of the buffer that are read but not yet
  consumed are the abstraction of a reader (\<open>pending\<close>); the calls are shown to frame the byte stream
  into lines however the connection cuts it into reads. A line that is returned is a value here; in Go
  it is a slice of the buffer, valid until the next call.
\<close>

subsection \<open>The code\<close>

datatype io_error = EOF | ConnError string

datatype read_error = ErrReadQ | IoError io_error

record Reader =
  initialSize :: int
  maxSize :: int
  buf :: string
  start :: nat
  rd_end :: nat
  searchFrom :: nat
  eof :: bool

definition Initialize :: "int \<Rightarrow> int \<Rightarrow> Reader" where
  "Initialize initialSize0 maxSize0 = \<lparr>initialSize = initialSize0, maxSize = maxSize0, buf = [],
    start = 0, rd_end = 0, searchFrom = 0, eof = False\<rparr>"

definition NewIRCReader :: Reader where
  "NewIRCReader = Initialize 512 (8192 + 1024)"

text \<open>Slice expressions \<open>s[a:b]\<close>, which panic out of bounds, \<open>copy\<close> and \<open>make\<close>.\<close>

definition slice :: "string \<Rightarrow> nat \<Rightarrow> nat \<Rightarrow> string go" where
  "slice s a b = (if a \<le> b \<and> b \<le> length s then Some (take (b - a) (drop a s)) else None)"

definition copy_into :: "string \<Rightarrow> string \<Rightarrow> string" where
  "copy_into dst src = take (length dst) src @ drop (length src) dst"

definition make_bytes :: "int \<Rightarrow> string go" where
  "make_bytes n = (if n < 0 then None else Some (replicate (nat n) (CHR 0x00)))"

text \<open>The new buffer of \<open>ReadLine\<close>, or the slide to the front, and the new indices.\<close>

definition newLen :: "Reader \<Rightarrow> int" where
  "newLen cc =
    (let n = sint (roundUpToPowerOfTwo (of_int (int (length (buf cc)) + 1))) in
     if n > maxSize cc then maxSize cc else if n < initialSize cc then initialSize cc else n)"

definition make_room :: "Reader \<Rightarrow> Reader go" where
  "make_room cc = do {
    buf' \<leftarrow>
      (if int (length (buf cc)) < maxSize cc \<and>
          int (length (buf cc)) - (int (rd_end cc) - int (start cc)) < initialSize cc sdiv 2 then do {
         newBuf \<leftarrow> make_bytes (newLen cc);
         data \<leftarrow> slice (buf cc) (start cc) (rd_end cc);
         Some (copy_into newBuf data)
       }
       else if start cc \<noteq> 0 then do {
         data \<leftarrow> slice (buf cc) (start cc) (rd_end cc);
         Some (copy_into (buf cc) data)
       }
       else Some (buf cc));
    Some (cc\<lparr>buf := buf', rd_end := rd_end cc - start cc, start := 0, searchFrom := rd_end cc - start cc\<rparr>)
  }"

text \<open>
  One round of the loop up to the read: either the call returns (\<open>Inl\<close>), or the buffer has room.
\<close>

definition scan :: "Reader \<Rightarrow> ((read_error + string) \<times> Reader + Reader) go" where
  "scan cc = do {
    window \<leftarrow> slice (buf cc) (searchFrom cc) (rd_end cc);
    case IndexByte window (CHR 0x0A) of
      Some nlidx \<Rightarrow> do {
        ln \<leftarrow> slice (buf cc) (start cc) (searchFrom cc + nlidx);
        let next = searchFrom cc + nlidx + 1;
        let ln' = (if 0 < length ln \<and> ln ! (length ln - 1) = CHR 0x0D then take (length ln - 1) ln else ln);
        Some (Inl (Inr ln', cc\<lparr>start := next, searchFrom := next\<rparr>))
      }
    | None \<Rightarrow>
        if start cc = 0 \<and> rd_end cc = length (buf cc) \<and> int (length (buf cc)) = maxSize cc then
          Some (Inl (Inl ErrReadQ, cc))
        else if eof cc then Some (Inl (Inl (IoError EOF), cc))
        else do { cc' \<leftarrow> make_room cc; Some (Inr cc') }
  }"

text \<open>The bytes that \<open>Read\<close> puts at the front of the slice it is given.\<close>

definition store :: "Reader \<Rightarrow> string \<Rightarrow> Reader" where
  "store cc bytes = cc\<lparr>buf := take (rd_end cc) (buf cc) @ bytes @ drop (rd_end cc + length bytes) (buf cc),
    rd_end := rd_end cc + length bytes\<rparr>"

type_synonym 'c conn_read = "'c \<Rightarrow> nat \<Rightarrow> (string \<times> io_error option) \<times> 'c"

text \<open>\<open>None\<close>: the call panics or never returns.\<close>

partial_function (option) ReadLine ::
    "'c conn_read \<Rightarrow> Reader \<Rightarrow> 'c \<Rightarrow> ((read_error + string) \<times> Reader \<times> 'c) option" where
  "ReadLine rd cc c = do {
    s \<leftarrow> scan cc;
    case s of
      Inl (res, cc1) \<Rightarrow> Some (res, cc1, c)
    | Inr cc1 \<Rightarrow> do {
        space \<leftarrow> slice (buf cc1) (rd_end cc1) (length (buf cc1));
        let ((bytes, err), c1) = rd c (length space);
        let cc2 = store cc1 bytes;
        if bytes \<noteq> [] \<and> err = Some EOF then ReadLine rd (cc2\<lparr>eof := True\<rparr>) c1
        else (case err of
                Some e \<Rightarrow> Some (Inl (IoError e), cc2, c1)
              | None \<Rightarrow> ReadLine rd cc2 c1)
      }
  }"

declare ReadLine.simps [go_eval]

subsection \<open>The invariant\<close>

definition config_ok :: "Reader \<Rightarrow> bool" where
  "config_ok cc \<longleftrightarrow> 2 \<le> initialSize cc \<and> initialSize cc \<le> maxSize cc \<and> maxSize cc \<le> 2 ^ 62"

definition pending :: "Reader \<Rightarrow> string" where
  "pending cc = take (rd_end cc - start cc) (drop (start cc) (buf cc))"

definition reader_inv :: "Reader \<Rightarrow> bool" where
  "reader_inv cc \<longleftrightarrow> config_ok cc \<and> start cc \<le> searchFrom cc \<and> searchFrom cc \<le> rd_end cc \<and>
    rd_end cc \<le> length (buf cc) \<and> int (length (buf cc)) \<le> maxSize cc \<and>
    CHR 0x0A \<notin> set (take (searchFrom cc - start cc) (pending cc))"

definition chomp :: "string \<Rightarrow> string" where
  "chomp s = TrimSuffix s [CHR 0x0D]"

lemma reader_inv_Initialize:
  "2 \<le> i \<Longrightarrow> i \<le> m \<Longrightarrow> m \<le> 2 ^ 62 \<Longrightarrow> reader_inv (Initialize i m) \<and> pending (Initialize i m) = []"
  by (simp add: reader_inv_def config_ok_def Initialize_def pending_def)

lemma length_pending: "reader_inv cc \<Longrightarrow> length (pending cc) = rd_end cc - start cc"
  unfolding pending_def reader_inv_def length_take length_drop by linarith

lemma newLen_bounds:
  assumes "reader_inv cc" "int (length (buf cc)) < maxSize cc"
  shows "int (length (buf cc)) < newLen cc" "newLen cc \<le> maxSize cc"
proof -
  let ?n = "length (buf cc) + 1"
  have c: "2 \<le> initialSize cc" "initialSize cc \<le> maxSize cc" "maxSize cc \<le> 2 ^ 62"
    using assms(1) by (simp_all add: reader_inv_def config_ok_def)
  have "int ?n \<le> int (2 ^ 62)" using assms(2) c(3) by simp
  then have "?n \<le> 2 ^ 62" by (simp only: of_nat_le_iff)
  from roundUp_int(1) [OF _ this]
  have "int ?n \<le> sint (roundUpToPowerOfTwo (of_int (int (length (buf cc)) + 1)))" by (simp add: add.commute)
  then show "int (length (buf cc)) < newLen cc" "newLen cc \<le> maxSize cc"
    using assms(2) c unfolding newLen_def Let_def by auto
qed

subsection \<open>One round of the loop\<close>

definition same_config :: "Reader \<Rightarrow> Reader \<Rightarrow> bool" where
  "same_config a b \<longleftrightarrow> initialSize a = initialSize b \<and> maxSize a = maxSize b"

lemma same_config_refl [simp]: "same_config a a"
  by (simp add: same_config_def)

lemma same_config_trans: "same_config a b \<Longrightarrow> same_config b c \<Longrightarrow> same_config a c"
  by (simp add: same_config_def)

lemma slice_pending:
  "reader_inv cc \<Longrightarrow> slice (buf cc) (start cc) (rd_end cc) = Some (pending cc)"
  by (simp add: slice_def pending_def reader_inv_def)

lemma slice_window:
  "reader_inv cc \<Longrightarrow>
   slice (buf cc) (searchFrom cc) (rd_end cc) = Some (drop (searchFrom cc - start cc) (pending cc))"
  by (simp add: slice_def pending_def reader_inv_def drop_take)

lemma slice_line:
  assumes "reader_inv cc" "searchFrom cc + i \<le> rd_end cc"
  shows "slice (buf cc) (start cc) (searchFrom cc + i) = Some (take (searchFrom cc - start cc + i) (pending cc))"
  using assms by (auto simp: slice_def pending_def reader_inv_def min_def)

lemma chomp_code:
  "(if 0 < length s \<and> s ! (length s - 1) = CHR 0x0D then take (length s - 1) s else s) = chomp s"
  by (cases s rule: rev_cases) (auto simp: chomp_def TrimSuffix_def HasSuffix_single)

lemma scan_line:
  assumes "reader_inv cc" "CHR 0x0A \<in> set (pending cc)"
  obtains raw cc' where "pending cc = raw @ CHR 0x0A # pending cc'" "CHR 0x0A \<notin> set raw"
    "scan cc = Some (Inl (Inr (chomp raw), cc'))" "reader_inv cc'" "same_config cc cc'" "eof cc' = eof cc"
proof -
  let ?k = "searchFrom cc - start cc" and ?P = "pending cc"
  have split: "?P = take ?k ?P @ drop ?k ?P" and a: "CHR 0x0A \<notin> set (take ?k ?P)"
    using assms(1) by (simp_all add: reader_inv_def)
  have "CHR 0x0A \<in> set (drop ?k ?P)"
    using assms(2) a by (subst (asm) split) (simp only: set_append Un_iff, blast)
  then obtain i where i: "IndexByte (drop ?k ?P) (CHR 0x0A) = Some i"
    by (metis IndexByte_found)
  note D = IndexByte_Some_split [OF i]
  have ilen: "?k + i < length ?P" using IndexByte_less [OF i] by simp
  define raw where "raw = take (?k + i) ?P"
  define cc' where "cc' = cc\<lparr>start := searchFrom cc + i + 1, searchFrom := searchFrom cc + i + 1\<rparr>"
  have b: "start cc \<le> searchFrom cc" "searchFrom cc \<le> rd_end cc" "rd_end cc \<le> length (buf cc)"
    "searchFrom cc + i < rd_end cc"
    using assms(1) ilen by (auto simp: reader_inv_def length_pending)
  have raw: "raw = take ?k ?P @ take i (drop ?k ?P)" by (simp add: raw_def take_add)
  have P': "pending cc' = drop (?k + i + 1) ?P"
    using b by (simp add: pending_def cc'_def drop_take algebra_simps)
  have "?P = raw @ CHR 0x0A # pending cc'"
    using split D(1) unfolding raw P' by (simp add: algebra_simps)
  moreover have "CHR 0x0A \<notin> set raw" using a D(2) by (simp add: raw)
  moreover have "scan cc = Some (Inl (Inr (chomp raw), cc'))"
    using i slice_line [OF assms(1), of i] b(4)
    by (simp add: scan_def slice_window [OF assms(1)] cc'_def Let_def flip: chomp_code raw_def)
  moreover have "reader_inv cc'" using assms(1) b by (simp add: reader_inv_def cc'_def config_ok_def)
  ultimately show thesis by (rule that) (simp_all add: cc'_def same_config_def)
qed

lemma make_room_spec:
  assumes "reader_inv cc" "CHR 0x0A \<notin> set (pending cc)"
    "\<not> (start cc = 0 \<and> rd_end cc = length (buf cc) \<and> int (length (buf cc)) = maxSize cc)"
  obtains cc' where "make_room cc = Some cc'" "reader_inv cc'" "pending cc' = pending cc"
    "start cc' = 0" "searchFrom cc' = rd_end cc'" "rd_end cc' < length (buf cc')"
    "same_config cc cc'" "eof cc' = eof cc"
proof -
  let ?P = "pending cc"
  have b: "start cc \<le> rd_end cc" "rd_end cc \<le> length (buf cc)" "int (length (buf cc)) \<le> maxSize cc"
    "2 \<le> initialSize cc"
    using assms(1) by (auto simp: reader_inv_def config_ok_def)
  have lP: "length ?P = rd_end cc - start cc" using assms(1) by (rule length_pending)
  note result = that
  have main: thesis
    if B: "make_room cc = Some (cc\<lparr>buf := B, rd_end := rd_end cc - start cc, start := 0,
        searchFrom := rd_end cc - start cc\<rparr>)"
      and "take (length ?P) B = ?P" "length ?P < length B" "int (length B) \<le> maxSize cc" for B
    using that assms(1,2) lP
    by (intro result [OF B]) (simp_all add: reader_inv_def config_ok_def pending_def same_config_def)
  show thesis
  proof (cases "int (length (buf cc)) < maxSize cc \<and>
      int (length (buf cc)) - (int (rd_end cc) - int (start cc)) < initialSize cc sdiv 2")
    case True
    note nl = newLen_bounds [OF assms(1) conjunct1 [OF True]]
    let ?B = "copy_into (replicate (nat (newLen cc)) (CHR 0x00)) ?P"
    have m: "make_bytes (newLen cc) = Some (replicate (nat (newLen cc)) (CHR 0x00))"
      using nl(1) by (simp add: make_bytes_def)
    have lt: "length ?P < nat (newLen cc)" using nl(1) lP b by linarith
    show thesis
      by (rule main [of ?B]) (use True m lt nl lP in \<open>simp_all add: make_room_def slice_pending [OF assms(1)] copy_into_def\<close>)
  next
    case False
    have roomy: "length ?P < length (buf cc)"
    proof (cases "int (length (buf cc)) < maxSize cc")
      case True
      have "1 \<le> initialSize cc sdiv 2" using b(4) by (simp add: signed_divide_int_def)
      with True False have "1 \<le> int (length (buf cc)) - (int (rd_end cc) - int (start cc))" by linarith
      with lP b show ?thesis by linarith
    next
      case False
      with assms(3) lP b show ?thesis by linarith
    qed
    show thesis
    proof (cases "start cc = 0")
      case True
      then have "take (length ?P) (buf cc) = ?P" using lP by (simp add: pending_def)
      with True False roomy b(3) show thesis
        by (intro main [of "buf cc"]) (auto simp: make_room_def)
    next
      case S: False
      have "make_room cc = Some (cc\<lparr>buf := copy_into (buf cc) ?P, rd_end := rd_end cc - start cc,
          start := 0, searchFrom := rd_end cc - start cc\<rparr>)"
        using False S by (auto simp: make_room_def slice_pending [OF assms(1)])
      then show thesis
        by (rule main) (use roomy b in \<open>simp_all add: copy_into_def\<close>)
    qed
  qed
qed

lemma scan_no_line:
  assumes "reader_inv cc" "CHR 0x0A \<notin> set (pending cc)"
  shows "scan cc =
    (if start cc = 0 \<and> rd_end cc = length (buf cc) \<and> int (length (buf cc)) = maxSize cc
     then Some (Inl (Inl ErrReadQ, cc))
     else if eof cc then Some (Inl (Inl (IoError EOF), cc))
     else map_option Inr (make_room cc))"
proof -
  have "CHR 0x0A \<notin> set (drop (searchFrom cc - start cc) (pending cc))"
    using assms(2) by (meson in_set_dropD)
  then show ?thesis
    by (simp add: scan_def slice_window [OF assms(1)] map_conv_bind_option comp_def)
qed

lemma full_iff:
  assumes "reader_inv cc"
  shows "start cc = 0 \<and> rd_end cc = length (buf cc) \<and> int (length (buf cc)) = maxSize cc
    \<longleftrightarrow> int (length (pending cc)) = maxSize cc"
proof -
  have "int (rd_end cc) \<le> maxSize cc" "start cc \<le> rd_end cc" "rd_end cc \<le> length (buf cc)" "0 < maxSize cc"
    "int (length (buf cc)) \<le> maxSize cc"
    using assms by (auto simp: reader_inv_def config_ok_def)
  then show ?thesis unfolding length_pending [OF assms] by linarith
qed

lemma store_spec:
  assumes "reader_inv cc" "CHR 0x0A \<notin> set (pending cc)" "searchFrom cc = rd_end cc"
    "length b \<le> length (buf cc) - rd_end cc"
  shows "reader_inv (store cc b)" "pending (store cc b) = pending cc @ b"
    "same_config cc (store cc b)" "eof (store cc b) = eof cc"
proof -
  have b: "start cc \<le> rd_end cc" "rd_end cc \<le> length (buf cc)" "rd_end cc + length b \<le> length (buf cc)"
    using assms(1,4) by (auto simp: reader_inv_def)
  show p: "pending (store cc b) = pending cc @ b"
  proof -
    let ?x = "drop (start cc) (take (rd_end cc) (buf cc))"
    let ?D = "drop (rd_end cc + length b) (buf cc)"
    have "drop (start cc) (take (rd_end cc) (buf cc) @ b @ ?D) = ?x @ b @ ?D" using b by simp
    moreover have "rd_end cc + length b - start cc = length (?x @ b)" using b by simp
    ultimately have "pending (store cc b) = take (length (?x @ b)) ((?x @ b) @ ?D)"
      unfolding pending_def store_def by simp
    also have "\<dots> = ?x @ b" by (rule append_eq_conv_conj [THEN iffD1, OF refl, THEN conjunct1, symmetric])
    also have "?x = pending cc" by (simp add: pending_def drop_take)
    finally show ?thesis .
  qed
  have "take (rd_end cc - start cc) (pending cc @ b) = pending cc"
    using length_pending [OF assms(1)] by simp
  then show "reader_inv (store cc b)"
    using assms b unfolding reader_inv_def p by (simp add: store_def config_ok_def)
qed (simp_all add: store_def same_config_def)

lemma eof_update [simp]:
  "reader_inv (cc\<lparr>eof := x\<rparr>) = reader_inv cc" "pending (cc\<lparr>eof := x\<rparr>) = pending cc"
  "same_config a (cc\<lparr>eof := x\<rparr>) = same_config a cc"
  "same_config (cc\<lparr>eof := x\<rparr>) a = same_config cc a"
  by (simp_all add: reader_inv_def config_ok_def pending_def same_config_def)

subsection \<open>The byte stream\<close>

text \<open>
  What \<open>ReadLine\<close> relies on (the contract of \<open>io.Reader\<close>): a read into a non-empty slice returns at
  most its length and either bytes or an error; the reads deliver the connection's bytes in order; an
  error comes when all are delivered, and one other than \<open>EOF\<close> comes without bytes.
\<close>

definition io_stream :: "'c conn_read \<Rightarrow> ('c \<Rightarrow> string) \<Rightarrow> bool" where
  "io_stream rd remaining \<longleftrightarrow>
    (\<forall>c k b e c'. 0 < k \<longrightarrow> rd c k = ((b, e), c') \<longrightarrow>
      length b \<le> k \<and> remaining c = b @ remaining c' \<and> (b \<noteq> [] \<or> e \<noteq> None) \<and>
      (e \<noteq> None \<longrightarrow> remaining c' = [] \<and> (b = [] \<or> e = Some EOF)))"

text \<open>The abstract reader: it takes the next line off the stream of unconsumed bytes.\<close>

datatype line_result = NextLine string string | TooLong | Unterminated

definition next_line :: "int \<Rightarrow> string \<Rightarrow> line_result" where
  "next_line limit s =
    (case IndexByte s (CHR 0x0A) of
       Some i \<Rightarrow> if int i < limit then NextLine (take i s) (drop (i + 1) s) else TooLong
     | None \<Rightarrow> if limit \<le> int (length s) then TooLong else Unterminated)"

lemma next_line_append:
  "CHR 0x0A \<notin> set raw \<Longrightarrow> next_line limit (raw @ CHR 0x0A # rest) =
    (if int (length raw) < limit then NextLine raw rest else TooLong)"
  by (simp add: next_line_def IndexByte_append)

lemma next_line_full:
  assumes "CHR 0x0A \<notin> set p" "int (length p) = limit"
  shows "next_line limit (p @ r) = TooLong"
proof (cases "IndexByte (p @ r) (CHR 0x0A)")
  case (Some i)
  have "\<not> i < length p"
  proof
    assume "i < length p"
    with IndexByte_SomeD [OF Some] assms(1) show False by (metis nth_append nth_mem)
  qed
  with Some assms(2) show ?thesis by (simp add: next_line_def)
qed (use assms(2) in \<open>simp add: next_line_def\<close>)

lemma next_line_end:
  "CHR 0x0A \<notin> set p \<Longrightarrow> int (length p) < limit \<Longrightarrow> next_line limit p = Unterminated"
  by (simp add: next_line_def)

definition refines :: "(read_error + string) \<Rightarrow> Reader \<Rightarrow> string \<Rightarrow> string \<Rightarrow> line_result \<Rightarrow> bool" where
  "refines res cc' rem' stream r \<longleftrightarrow>
    (case r of
       NextLine raw rest \<Rightarrow> res = Inr (chomp raw) \<and> pending cc' @ rem' = rest
     | TooLong \<Rightarrow> res = Inl ErrReadQ \<and> pending cc' @ rem' = stream
     | Unterminated \<Rightarrow> (\<exists>e. res = Inl (IoError e)) \<and> pending cc' = stream \<and> rem' = [])"

lemma ReadLine_spec:
  assumes "io_stream rd remaining" "reader_inv cc" "eof cc \<longrightarrow> remaining c = []"
  shows "\<exists>res cc' c'. ReadLine rd cc c = Some (res, cc', c') \<and> reader_inv cc' \<and> same_config cc cc' \<and>
    (eof cc' \<longrightarrow> remaining c' = []) \<and>
    refines res cc' (remaining c') (pending cc @ remaining c) (next_line (maxSize cc) (pending cc @ remaining c))"
  using assms(2,3)
proof (induction "length (remaining c)" arbitrary: cc c rule: less_induct)
  case less
  show ?case
  proof (cases "CHR 0x0A \<in> set (pending cc)")
    case True
    obtain raw cc' where s: "pending cc = raw @ CHR 0x0A # pending cc'" "CHR 0x0A \<notin> set raw"
      "scan cc = Some (Inl (Inr (chomp raw), cc'))" "reader_inv cc'" "same_config cc cc'" "eof cc' = eof cc"
      by (rule scan_line [OF less.prems(1) True])
    have "int (length (pending cc)) \<le> maxSize cc"
      using less.prems(1) unfolding length_pending [OF less.prems(1)] reader_inv_def by linarith
    then have "int (length raw) < maxSize cc" using s(1) by simp
    with s less.prems(2) show ?thesis
      by (subst ReadLine.simps) (simp add: next_line_append refines_def)
  next
    case no: False
    note scan = scan_no_line [OF less.prems(1) no] full_iff [OF less.prems(1)]
    consider "int (length (pending cc)) = maxSize cc"
      | "int (length (pending cc)) \<noteq> maxSize cc" "eof cc"
      | "int (length (pending cc)) \<noteq> maxSize cc" "\<not> eof cc" by blast
    then show ?thesis
    proof cases
      case 1
      with scan have "scan cc = Some (Inl (Inl ErrReadQ, cc))" by simp
      with 1 no less.prems show ?thesis
        by (subst ReadLine.simps) (simp add: next_line_full refines_def)
    next
      case 2
      with scan have "scan cc = Some (Inl (Inl (IoError EOF), cc))" by simp
      moreover have "int (length (pending cc)) < maxSize cc"
        using 2(1) less.prems(1) unfolding length_pending [OF less.prems(1)] reader_inv_def by linarith
      ultimately show ?thesis using 2 no less.prems
        by (subst ReadLine.simps) (simp add: next_line_end refines_def)
    next
      case 3
      then have "\<not> (start cc = 0 \<and> rd_end cc = length (buf cc) \<and> int (length (buf cc)) = maxSize cc)"
        using scan(2) by blast
      then obtain c1 where m: "make_room cc = Some c1" "reader_inv c1" "pending c1 = pending cc"
        "searchFrom c1 = rd_end c1" "rd_end c1 < length (buf c1)" "same_config cc c1" "eof c1 = eof cc"
        using make_room_spec [OF less.prems(1) no] by metis
      have sc: "scan cc = Some (Inr c1)" using scan(1) m(1) 3 scan(2) by auto
      let ?k = "length (buf c1) - rd_end c1"
      obtain b e d where rd: "rd c ?k = ((b, e), d)" by (metis prod.exhaust)
      have io: "length b \<le> ?k" "remaining c = b @ remaining d" "b \<noteq> [] \<or> e \<noteq> None"
        "e \<noteq> None \<longrightarrow> remaining d = [] \<and> (b = [] \<or> e = Some EOF)"
        using assms(1) rd m(5) unfolding io_stream_def by (metis zero_less_diff)+
      note st = store_spec [OF m(2) no [folded m(3)] m(4) io(1)]
      have space: "slice (buf c1) (rd_end c1) (length (buf c1)) = Some (drop (rd_end c1) (buf c1))"
        using m(5) by (simp add: slice_def)
      have eq: "ReadLine rd cc c =
          (if b \<noteq> [] \<and> e = Some EOF then ReadLine rd (store c1 b\<lparr>eof := True\<rparr>) d
           else case e of Some e \<Rightarrow> Some (Inl (IoError e), store c1 b, d) | None \<Rightarrow> ReadLine rd (store c1 b) d)"
        using rd space by (subst ReadLine.simps) (simp add: sc Let_def)
      have shorter: "b \<noteq> [] \<Longrightarrow> length (remaining d) < length (remaining c)" using io(2) by simp
      have mx: "maxSize (store c1 b) = maxSize cc"
        using m(6) st(3) by (simp add: same_config_def)
      have stream: "pending (store c1 b) @ remaining d = pending cc @ remaining c"
        using st(2) m(3) io(2) by simp
      consider "b \<noteq> []" "e = Some EOF" | x where "b = []" "e = Some x" | "b \<noteq> []" "e = None"
        using io(3,4) by (cases e) auto
      then show ?thesis
      proof cases
        case 1
        have eof: "reader_inv (store c1 b\<lparr>eof := True\<rparr>)" "pending (store c1 b\<lparr>eof := True\<rparr>) = pending (store c1 b)"
          "same_config cc (store c1 b\<lparr>eof := True\<rparr>)" "maxSize (store c1 b\<lparr>eof := True\<rparr>) = maxSize cc"
          using st mx same_config_trans [OF m(6)] by simp_all
        from less.hyps [OF shorter [OF 1(1)] eof(1)] io(4) 1 eof(3) show ?thesis
          unfolding eq eof(2,4) stream by (auto intro: same_config_trans)
      next
        case 2
        then have "remaining c = []" "remaining d = []" "int (length (pending cc)) < maxSize cc"
          using io less.prems(1) 3(1) unfolding length_pending [OF less.prems(1)] reader_inv_def
          by auto
        with 2 st m(3,6) no show ?thesis
          by (simp add: eq next_line_end refines_def same_config_trans [OF m(6)])
      next
        case 3
        from less.hyps [OF shorter [OF 3(1)] st(1)] st(4) m(7) \<open>\<not> eof cc\<close> 3(2) show ?thesis
          unfolding eq mx stream by (auto intro: same_config_trans [OF m(6) same_config_trans [OF st(3)]])
      qed
    qed
  qed
qed

text \<open>A reader and a connection whose state is as the calls leave it.\<close>

definition stream_ok :: "('c \<Rightarrow> string) \<Rightarrow> Reader \<Rightarrow> 'c \<Rightarrow> bool" where
  "stream_ok remaining cc c \<longleftrightarrow> reader_inv cc \<and> (eof cc \<longrightarrow> remaining c = [])"

text \<open>Calling \<open>ReadLine\<close> for \<open>n\<close> lines, as \<^verbatim>\<open>readLoop\<close> of \<^verbatim>\<open>ircevent\<close> does until an error.\<close>

fun read_lines :: "'c conn_read \<Rightarrow> nat \<Rightarrow> Reader \<Rightarrow> 'c \<Rightarrow> (string list \<times> Reader \<times> 'c) option" where
  "read_lines rd 0 cc c = Some ([], cc, c)"
| "read_lines rd (Suc n) cc c = do {
    (res, cc1, c1) \<leftarrow> ReadLine rd cc c;
    case res of
      Inl e \<Rightarrow> None
    | Inr ln \<Rightarrow> do { (lns, cc2, c2) \<leftarrow> read_lines rd n cc1 c1; Some (ln # lns, cc2, c2) }
  }"

lemma read_lines_stream:
  assumes "io_stream rd remaining"
  shows "stream_ok remaining cc c \<Longrightarrow> list_all (\<lambda>l. CHR 0x0A \<notin> set l \<and> int (length l) < maxSize cc) raws \<Longrightarrow>
    pending cc @ remaining c = concat (map (\<lambda>l. l @ [CHR 0x0A]) raws) @ rest \<Longrightarrow>
    \<exists>cc' c'. read_lines rd (length raws) cc c = Some (map chomp raws, cc', c') \<and>
      stream_ok remaining cc' c' \<and> pending cc' @ remaining c' = rest"
proof (induction raws arbitrary: cc c)
  case (Cons raw raws)
  from ReadLine_spec [OF assms, of cc c] Cons.prems(1) obtain res cc1 c1 where
    r: "ReadLine rd cc c = Some (res, cc1, c1)" "stream_ok remaining cc1 c1" "same_config cc cc1"
    "refines res cc1 (remaining c1) (pending cc @ remaining c)
       (next_line (maxSize cc) (pending cc @ remaining c))"
    unfolding stream_ok_def by blast
  have "next_line (maxSize cc) (pending cc @ remaining c)
      = NextLine raw (concat (map (\<lambda>l. l @ [CHR 0x0A]) raws) @ rest)"
    using Cons.prems(2,3) by (simp add: next_line_append)
  with r(4) have l: "res = Inr (chomp raw)"
    "pending cc1 @ remaining c1 = concat (map (\<lambda>l. l @ [CHR 0x0A]) raws) @ rest"
    by (simp_all add: refines_def)
  have "maxSize cc1 = maxSize cc" using r(3) by (simp add: same_config_def)
  with Cons.IH [OF r(2) _ l(2)] Cons.prems(2) r(1) l(1) show ?case by auto
qed simp

text \<open>A connection that replays a list of network reads and then reports \<open>EOF\<close>.\<close>

fun replay :: "string list conn_read" where
  "replay [] k = (([], Some EOF), [])"
| "replay (s # ss) k =
    (if s = [] then replay ss k
     else if length s \<le> k then ((s, None), ss) else ((take k s, None), drop k s # ss))"

lemma io_stream_replay: "io_stream replay concat"
proof -
  have key: "0 < k \<Longrightarrow> replay ss k = ((b, e), ss') \<Longrightarrow>
    length b \<le> k \<and> concat ss = b @ concat ss' \<and> (b \<noteq> [] \<or> e \<noteq> None) \<and> (e \<noteq> None \<longrightarrow> concat ss' = [] \<and> b = [])"
    for ss k b e ss'
  proof (induction ss k arbitrary: b e ss' rule: replay.induct)
    case (2 s ss k)
    consider "s = []" | "s \<noteq> []" "length s \<le> k" | "s \<noteq> []" "\<not> length s \<le> k" by blast
    then show ?case
    proof cases
      case 3
      then have "b = take k s" "ss' = drop k s # ss" "e = None" using "2.prems"(2) by simp_all
      moreover have "concat (s # ss) = take k s @ concat (drop k s # ss)"
        unfolding concat.simps append_assoc [symmetric] append_take_drop_id ..
      ultimately show ?thesis using "2.prems"(1) 3 by (simp del: concat.simps)
    next
      case 1
      with "2.prems"(2) have "replay ss k = ((b, e), ss')" by simp
      note IH = "2.IH" [OF 1 "2.prems"(1) this]
      have "concat (s # ss) = concat ss" using 1 by simp
      with IH show ?thesis by metis
    next
      case 2
      with "2.prems"(2) have "b = s" "ss' = ss" "e = None" by simp_all
      with 2 show ?thesis by simp
    qed
  qed simp
  show ?thesis unfolding io_stream_def
  proof (intro allI impI)
    fix c c' k b e assume "0 < k" "replay c k = ((b, e), c')"
    from key [OF this] show "length b \<le> k \<and> concat c = b @ concat c' \<and> (b \<noteq> [] \<or> e \<noteq> None) \<and>
      (e \<noteq> None \<longrightarrow> concat c' = [] \<and> (b = [] \<or> e = Some EOF))" by blast
  qed
qed

lemma stream_ok_New: "stream_ok remaining NewIRCReader c"
  using reader_inv_Initialize [of 512 9216] by (simp add: stream_ok_def NewIRCReader_def Initialize_def)

subsection \<open>Properties\<close>





end
