(* ===== verification/Go_Base64.thy ===== *)
theory Go_Base64
  imports Irc_Prelude
begin

text \<open>
  \<^verbatim>\<open>encoding/base64\<close>, as far as \<^verbatim>\<open>ircutils/sasl.go\<close> uses it: \<open>StdEncoding\<close> with its
  \<open>EncodeToString\<close>, \<open>DecodedLen\<close> and \<open>Decode\<close>. A decoder's result is the bytes written and whether
  the input was accepted; Go's position in the error is left out.
\<close>

definition alphabet :: string where
  "alphabet = ''ABCDEFGHIJKLMNOPQRSTUVWXYZabcdefghijklmnopqrstuvwxyz0123456789+/''"

definition enc6 :: "nat \<Rightarrow> char" where
  "enc6 n = alphabet ! n"

definition dec6 :: "char \<Rightarrow> nat option" where
  "dec6 c = IndexByte alphabet c"

fun EncodeToString :: "string \<Rightarrow> string" where
  "EncodeToString [] = []"
| "EncodeToString [a] = [enc6 (byte a div 4), enc6 (byte a mod 4 * 16), CHR ''='', CHR ''='']"
| "EncodeToString [a, b] =
    [enc6 (byte a div 4), enc6 (byte a mod 4 * 16 + byte b div 16), enc6 (byte b mod 16 * 4), CHR ''='']"
| "EncodeToString (a # b # c # s) =
    enc6 (byte a div 4) # enc6 (byte a mod 4 * 16 + byte b div 16)
    # enc6 (byte b mod 16 * 4 + byte c div 64) # enc6 (byte c mod 64) # EncodeToString s"

definition DecodedLen :: "nat \<Rightarrow> nat" where
  "DecodedLen n = n div 4 * 3"

text \<open>Four 6-bit values make three bytes; a shorter final group makes one or two.\<close>

definition byte1 :: "nat \<Rightarrow> nat \<Rightarrow> char" where
  "byte1 x y = char_of (x * 4 + y div 16)"

definition byte2 :: "nat \<Rightarrow> nat \<Rightarrow> char" where
  "byte2 y z = char_of (y mod 16 * 16 + z div 4)"

definition byte3 :: "nat \<Rightarrow> nat \<Rightarrow> char" where
  "byte3 z w = char_of (z mod 4 * 64 + w)"

text \<open>The groups of \<open>decodeQuantum\<close>, once its skipped line breaks are gone.\<close>

fun decode_groups :: "string \<Rightarrow> string \<times> bool" where
  "decode_groups [] = ([], True)"
| "decode_groups (a # b # c # d # s) =
    (case (dec6 a, dec6 b) of
       (Some x, Some y) \<Rightarrow>
         (case dec6 c of
            Some z \<Rightarrow>
              (case dec6 d of
                 Some w \<Rightarrow> (let (out, good) = decode_groups s in (byte1 x y # byte2 y z # byte3 z w # out, good))
               | None \<Rightarrow> if d = CHR ''='' then ([byte1 x y, byte2 y z], s = []) else ([], False))
          | None \<Rightarrow> if c = CHR ''='' \<and> d = CHR ''='' then ([byte1 x y], s = []) else ([], False))
     | _ \<Rightarrow> ([], False))"
| "decode_groups _ = ([], False)"

definition Decode :: "string \<Rightarrow> string \<times> bool" where
  "Decode src = decode_groups (filter (\<lambda>c. c \<noteq> CHR 0x0A \<and> c \<noteq> CHR 0x0D) src)"

subsection \<open>Round trip\<close>

lemma length_alphabet [simp]: "length alphabet = 64"
  by (simp add: alphabet_def)

lemma distinct_alphabet: "distinct alphabet"
  by (simp add: alphabet_def)

lemma IndexByte_nth: "distinct s \<Longrightarrow> n < length s \<Longrightarrow> IndexByte s (s ! n) = Some n"
proof -
  assume d: "distinct s" and n: "n < length s"
  then obtain i where i: "IndexByte s (s ! n) = Some i"
    using IndexByte_found [of s "s ! n"] nth_mem by blast
  have "i = n" using IndexByte_SomeD [OF i] d n nth_eq_iff_index_eq [OF d, of i n] by blast
  with i show ?thesis by simp
qed

lemma dec6_enc6 [simp]: "n < 64 \<Longrightarrow> dec6 (enc6 n) = Some n"
  by (simp add: dec6_def enc6_def IndexByte_nth distinct_alphabet)

lemma dec6_pad [simp]: "dec6 (CHR ''='') = None"
  by (simp add: dec6_def alphabet_def)

lemma sextets:
  fixes a b c :: nat
  assumes "a < 256" "b < 256" "c < 256"
  shows "a div 4 < 64" "a mod 4 * 16 + b div 16 < 64" "b mod 16 * 4 + c div 64 < 64" "c mod 64 < 64"
    "a mod 4 * 16 < 64" "b mod 16 * 4 < 64"
proof -
  have "a mod 4 < 4" "b div 16 < 16" "b mod 16 < 16" "c div 64 < 4" using assms by auto
  then show "a mod 4 * 16 + b div 16 < 64" "b mod 16 * 4 + c div 64 < 64" "a mod 4 * 16 < 64"
    "b mod 16 * 4 < 64" by linarith+
qed (use assms in auto)

lemma byte1_back: "b < 256 \<Longrightarrow> byte1 (byte a div 4) (byte a mod 4 * 16 + b div 16) = a"
proof (rule char_eqI)
  assume "b < 256"
  then have "(byte a mod 4 * 16 + b div 16) div 16 = byte a mod 4" by simp
  then show "byte (byte1 (byte a div 4) (byte a mod 4 * 16 + b div 16)) = byte a"
    by (simp add: byte1_def)
qed

lemma byte2_back: "c < 256 \<Longrightarrow> byte2 (x * 16 + byte b div 16) (byte b mod 16 * 4 + c div 64) = b"
proof (rule char_eqI)
  assume c: "c < 256"
  have "byte b div 16 < 16" using byte_less_256 [of b] by linarith
  then have "(x * 16 + byte b div 16) mod 16 = byte b div 16" by simp
  moreover have "(byte b mod 16 * 4 + c div 64) div 4 = byte b mod 16" using c by simp
  moreover have "byte b div 16 * 16 + byte b mod 16 = byte b" by simp
  ultimately show "byte (byte2 (x * 16 + byte b div 16) (byte b mod 16 * 4 + c div 64)) = byte b"
    by (simp add: byte2_def del: of_char_mod_256)
qed

lemma byte3_back: "byte3 (x * 4 + byte c div 64) (byte c mod 64) = c"
proof (rule char_eqI)
  have "byte c div 64 < 4" using byte_less_256 [of c] by linarith
  then have "(x * 4 + byte c div 64) mod 4 = byte c div 64" by simp
  moreover have "byte c div 64 * 64 + byte c mod 64 = byte c" by simp
  ultimately show "byte (byte3 (x * 4 + byte c div 64) (byte c mod 64)) = byte c"
    by (simp add: byte3_def)
qed

lemma decode_groups_Encode: "decode_groups (EncodeToString s) = (s, True)"
proof (induction s rule: EncodeToString.induct)
  case (2 a)
  then show ?case using sextets [of "byte a" 0 0] byte1_back [of 0 a] by simp
next
  case (3 a b)
  then show ?case
    using sextets [of "byte a" "byte b" 0] byte1_back [of "byte b" a] byte2_back [of 0 "byte a mod 4" b] by simp
next
  case (4 a b c s)
  then show ?case
    using sextets [of "byte a" "byte b" "byte c"] byte1_back [of "byte b" a]
      byte2_back [of "byte c" "byte a mod 4" b] byte3_back [of "byte b mod 16" c] by simp
qed simp

lemma enc6_in: "n < 64 \<Longrightarrow> enc6 n \<in> set alphabet"
  by (simp add: enc6_def)

lemma set_Encode: "set (EncodeToString s) \<subseteq> insert (CHR ''='') (set alphabet)"
proof (induction s rule: EncodeToString.induct)
  case (2 a)
  then show ?case using sextets [of "byte a" 0 0] by (simp add: enc6_in)
next
  case (3 a b)
  then show ?case using sextets [of "byte a" "byte b" 0] by (simp add: enc6_in)
next
  case (4 a b c s)
  then show ?case using sextets [of "byte a" "byte b" "byte c"] by (simp add: enc6_in)
qed simp

lemma Encode_no_break: "filter (\<lambda>c. c \<noteq> CHR 0x0A \<and> c \<noteq> CHR 0x0D) (EncodeToString s) = EncodeToString s"
proof -
  have "CHR 0x0A \<notin> insert (CHR ''='') (set alphabet)" "CHR 0x0D \<notin> insert (CHR ''='') (set alphabet)"
    by (simp_all add: alphabet_def)
  with set_Encode [of s] show ?thesis by (intro filter_True) blast
qed

lemma Decode_Encode: "Decode (EncodeToString s) = (s, True)"
  by (simp add: Decode_def Encode_no_break decode_groups_Encode)

interpretation base64: codec EncodeToString "\<lambda>s. fst (Decode s)" "\<lambda>_. True"
  by unfold_locales (simp add: Decode_Encode)

lemma length_Encode: "length (EncodeToString s) = (length s + 2) div 3 * 4"
proof (induction s rule: EncodeToString.induct)
  case (4 a b c s)
  have "(length (a # b # c # s) + 2) div 3 = Suc ((length s + 2) div 3)"
    using div_add_self1 [of 3 "length s + 2"] by (simp add: add.commute)
  with 4 show ?case by simp
qed simp_all

lemma Encode_append: "length a mod 3 = 0 \<Longrightarrow> EncodeToString (a @ b) = EncodeToString a @ EncodeToString b"
  by (induction a rule: EncodeToString.induct) simp_all

lemma length_decode_groups: "length (fst (decode_groups s)) \<le> DecodedLen (length s)"
proof (induction s rule: decode_groups.induct)
  case (2 a b c d s)
  have len: "DecodedLen (length (a # b # c # d # s)) = DecodedLen (length s) + 3"
    using div_add_self1 [of 4 "length s"] by (simp add: DecodedLen_def)
  show ?case
  proof (cases "\<exists>x y z w. dec6 a = Some x \<and> dec6 b = Some y \<and> dec6 c = Some z \<and> dec6 d = Some w")
    case True
    then show ?thesis using "2.IH" len by (auto split: prod.splits)
  next
    case False
    then have "length (fst (decode_groups (a # b # c # d # s))) \<le> 3"
      by (auto split: option.splits)
    with len show ?thesis by linarith
  qed
qed simp_all

lemma DecodedLen_mono: "m \<le> n \<Longrightarrow> DecodedLen m \<le> DecodedLen n"
  by (simp add: DecodedLen_def div_le_mono)

lemma length_Decode: "length (fst (Decode s)) \<le> DecodedLen (length s)"
  unfolding Decode_def by (rule order_trans [OF length_decode_groups DecodedLen_mono]) simp

end
