(* ===== verification/Utils_SASL.thy ===== *)
theory Utils_SASL
  imports Go_Base64
begin

text \<open>
  \<^verbatim>\<open>ircutils/sasl.go\<close>: SASL responses as parameters of successive \<open>AUTHENTICATE\<close> commands
  (\<open>EncodeSASLResponse\<close>), and the buffer that puts them together again (\<open>SASLBuffer\<close>). A \<open>nil\<close>
  slice is the empty list.
\<close>

subsection \<open>The code\<close>

datatype sasl_error = ErrSASLLimitExceeded | ErrSASLTooLong | CorruptInputError

text \<open>The loop that cuts the encoded response; it returns the chunks and \<open>lastLen\<close>.\<close>

function sasl_chunks :: "string \<Rightarrow> string list \<Rightarrow> nat \<Rightarrow> string list \<times> nat" where
  "sasl_chunks response result lastLen =
    (if 0 < length response then
       let lastLen0 = length response;
           lastLen1 = (if lastLen0 > 400 then 400 else lastLen0)
       in sasl_chunks (drop lastLen1 response) (result @ [take lastLen1 response]) lastLen1
     else (result, lastLen))"
  by pat_completeness auto
termination
  by (relation "measure (\<lambda>(response, result, lastLen). length response)") auto

declare sasl_chunks.simps [simp del, go_eval]

definition EncodeSASLResponse :: "string \<Rightarrow> string list" where
  "EncodeSASLResponse raw =
    (if length raw = 0 then [''+'']
     else
       let response = EncodeToString raw;
           (result, lastLen) = sasl_chunks response [] 0
       in if lastLen = 400 then result @ [''+''] else result)"

record SASLBuffer =
  maxLength :: int
  sasl_buf :: string

definition Initialize_SASL :: "SASLBuffer \<Rightarrow> int \<Rightarrow> SASLBuffer" where
  "Initialize_SASL b maxLength0 = b\<lparr>maxLength := maxLength0\<rparr>"

definition NewSASLBuffer :: "int \<Rightarrow> SASLBuffer" where
  "NewSASLBuffer maxLength0 = Initialize_SASL \<lparr>maxLength = 0, sasl_buf = []\<rparr> maxLength0"

definition Clear_SASL :: "SASLBuffer \<Rightarrow> SASLBuffer" where
  "Clear_SASL b = b\<lparr>sasl_buf := []\<rparr>"

text \<open>The results are \<open>done\<close>, \<open>output\<close> and \<open>err\<close>.\<close>

definition Add :: "SASLBuffer \<Rightarrow> string \<Rightarrow> (bool \<times> string \<times> sasl_error option) \<times> SASLBuffer" where
  "Add b val =
    (if val = ''+'' then ((True, sasl_buf b, None), Clear_SASL b)
     else if length val > 400 then ((True, [], Some ErrSASLTooLong), Clear_SASL b)
     else
       let curLen = length (sasl_buf b);
           chunkDecodedLen = DecodedLen (length val)
       in if maxLength b \<noteq> 0 \<and> int (curLen + chunkDecodedLen) > maxLength b then
            ((True, [], Some ErrSASLLimitExceeded), Clear_SASL b)
          else
            let (decoded, good) = Decode val;
                b1 = b\<lparr>sasl_buf := sasl_buf b @ decoded\<rparr>
            in if \<not> good then ((True, [], Some CorruptInputError), Clear_SASL b1)
               else if length val < 400 then ((True, sasl_buf b1, None), Clear_SASL b1)
               else ((False, [], None), b1))"

text \<open>A server that feeds the parameters of successive commands to the buffer until it is done.\<close>

fun feed :: "SASLBuffer \<Rightarrow> string list \<Rightarrow> (string \<times> sasl_error option \<times> string list) option \<times> SASLBuffer" where
  "feed b [] = (None, b)"
| "feed b (v # vs) =
    (case Add b v of
       ((fin, output, err), b1) \<Rightarrow> if fin then (Some (output, err, vs), b1) else feed b1 vs)"

subsection \<open>The chunks\<close>

lemma sasl_chunks_eq:
  "sasl_chunks r acc n =
    (if r = [] then (acc, n)
     else sasl_chunks (drop 400 r) (acc @ [take 400 r]) (min 400 (length r)))"
  by (subst sasl_chunks.simps) (auto simp: Let_def)

lemma thirds:
  fixes n :: nat
  shows "n < 298 \<Longrightarrow> (n + 2) div 3 < 100" and "298 \<le> n \<Longrightarrow> 100 \<le> (n + 2) div 3"
    and "298 \<le> n \<Longrightarrow> (min n 300 + 2) div 3 = 100"
    and "298 \<le> n \<Longrightarrow> (n + 2) div 3 = 100 + (if n \<le> 300 then 0 else (n - 300 + 2) div 3)"
proof -
  show "(n + 2) div 3 < 100" if "n < 298" using that by linarith
  show "100 \<le> (n + 2) div 3" if "298 \<le> n" using that div_le_mono [of 300 "n + 2" 3] by simp
  have small: "(n + 2) div 3 = 100" if "298 \<le> n" "n \<le> 300"
  proof -
    have "n = 298 \<or> n = 299 \<or> n = 300" using that by linarith
    then show ?thesis by auto
  qed
  have large: "(n + 2) div 3 = 100 + (n - 300 + 2) div 3" if "\<not> n \<le> 300"
    using div_mult_self1 [of 3 "n - 300 + 2" 100] that by simp
  show "(min n 300 + 2) div 3 = 100" if "298 \<le> n" using small that by (simp add: min_def)
  show "(n + 2) div 3 = 100 + (if n \<le> 300 then 0 else (n - 300 + 2) div 3)" if "298 \<le> n"
    using small large that by simp
qed

lemma length_Encode_short: "length s < 298 \<Longrightarrow> length (EncodeToString s) < 400"
  using thirds(1) [of "length s"] by (simp add: length_Encode)

lemma length_Encode_300: "298 \<le> length s \<Longrightarrow> length (EncodeToString (take 300 s)) = 400"
  using thirds(3) [of "length s"] by (simp add: length_Encode min.commute)

lemma split_Encode:
  assumes "298 \<le> length s"
  shows "take 400 (EncodeToString s) = EncodeToString (take 300 s)"
    and "drop 400 (EncodeToString s) = EncodeToString (drop 300 s)"
proof -
  have "length (take 300 s) mod 3 = 0 \<or> drop 300 s = []" by (auto simp: min_def)
  then have "EncodeToString s = EncodeToString (take 300 s) @ EncodeToString (drop 300 s)"
    using Encode_append [of "take 300 s" "drop 300 s"] by (cases "drop 300 s = []") auto
  moreover have "length (EncodeToString (take 300 s)) = 400"
    using assms by (rule length_Encode_300)
  ultimately show "take 400 (EncodeToString s) = EncodeToString (take 300 s)"
    "drop 400 (EncodeToString s) = EncodeToString (drop 300 s)" by simp_all
qed

lemma Encode_eq_Nil [simp]: "EncodeToString s = [] \<longleftrightarrow> s = []"
  by (cases s rule: EncodeToString.cases) simp_all

text \<open>
  The chunks of a response, by recursion on the response: 300 bytes make a chunk of 400, and so do a
  last 298 or 299.
\<close>

function chunks_of :: "string \<Rightarrow> string list" where
  "chunks_of s =
    (if length s < 298 then (if s = [] then [''+''] else [EncodeToString s])
     else EncodeToString (take 300 s) # chunks_of (drop 300 s))"
  by pat_completeness auto
termination
  by (relation "measure length") auto

declare chunks_of.simps [simp del]

lemma chunks_of_Nil [simp]: "chunks_of [] = [''+'']"
  by (simp add: chunks_of.simps)

lemma sasl_chunks_of:
  "s \<noteq> [] \<or> n = 400 \<Longrightarrow>
   (let (result, lastLen) = sasl_chunks (EncodeToString s) acc n
    in if lastLen = 400 then result @ [''+''] else result) = acc @ chunks_of s"
proof (induction s arbitrary: acc n rule: chunks_of.induct)
  case (1 s)
  show ?case
  proof (cases "length s < 298")
    case short: True
    show ?thesis
    proof (cases "s = []")
      case True
      then show ?thesis using 1(2) by (simp add: sasl_chunks_eq [of "[]"] chunks_of.simps [of "[]"])
    next
      case False
      have len: "length (EncodeToString s) < 400" using short by (rule length_Encode_short)
      then have "sasl_chunks (EncodeToString s) acc n = (acc @ [EncodeToString s], length (EncodeToString s))"
        using False by (subst sasl_chunks_eq, subst sasl_chunks_eq) simp
      with len short False show ?thesis by (subst chunks_of.simps) auto
    qed
  next
    case False
    then have "400 \<le> length (EncodeToString s)"
      using thirds(2) [of "length s"] by (simp add: length_Encode)
    with False have "sasl_chunks (EncodeToString s) acc n
        = sasl_chunks (EncodeToString (drop 300 s)) (acc @ [EncodeToString (take 300 s)]) 400"
      by (subst sasl_chunks_eq) (auto simp: split_Encode min_def)
    with 1(1) [OF False, of 400] False show ?thesis by (subst chunks_of.simps) simp
  qed
qed

lemma EncodeSASLResponse_eq: "EncodeSASLResponse raw = chunks_of raw"
  using sasl_chunks_of [of raw 0 "[]"]
  by (cases "raw = []") (simp_all add: EncodeSASLResponse_def chunks_of.simps [of "[]"])

lemma chunks_of_chunk: "c \<in> set (chunks_of s) \<Longrightarrow> 0 < length c \<and> length c \<le> 400"
proof (induction s rule: chunks_of.induct)
  case (1 s)
  then show ?case
    using length_Encode_short [of s] length_Encode_300 [of s]
    by (cases "length s < 298"; cases "s = []") (auto simp: chunks_of.simps [of s])
qed

lemma chunks_of_last: "length (last (chunks_of s)) < 400"
proof (induction s rule: chunks_of.induct)
  case (1 s)
  have "chunks_of (drop 300 s) \<noteq> []" by (subst chunks_of.simps) simp
  with 1 length_Encode_short [of s] show ?case by (subst chunks_of.simps) auto
qed

lemma chunks_of_butlast: "c \<in> set (butlast (chunks_of s)) \<Longrightarrow> length c = 400"
proof (induction s rule: chunks_of.induct)
  case (1 s)
  have ne: "chunks_of (drop 300 s) \<noteq> []" by (subst chunks_of.simps) simp
  with 1 length_Encode_300 [of s] show ?case
    by (cases "length s < 298"; cases "s = []") (auto simp: chunks_of.simps [of s])
qed

subsection \<open>The buffer\<close>

text \<open>One chunk of a response: what the buffer does with it while there is room.\<close>

lemma Add_chunk:
  assumes "maxLength b = 0 \<or> int (length (sasl_buf b) + DecodedLen (length (EncodeToString s))) \<le> maxLength b"
    "length (EncodeToString s) \<le> 400" "s \<noteq> []"
  shows "Add b (EncodeToString s) =
    (if length (EncodeToString s) < 400 then ((True, sasl_buf b @ s, None), b\<lparr>sasl_buf := []\<rparr>)
     else ((False, [], None), b\<lparr>sasl_buf := sasl_buf b @ s\<rparr>))"
proof -
  have "4 \<le> length (EncodeToString s)" using assms(3) by (cases s rule: EncodeToString.cases) simp_all
  then have "EncodeToString s \<noteq> ''+''" by auto
  then have "Add b (EncodeToString s) =
    (if \<not> length (EncodeToString s) < 400 then ((False, [], None), b\<lparr>sasl_buf := sasl_buf b @ s\<rparr>)
     else ((True, sasl_buf b @ s, None), b\<lparr>sasl_buf := []\<rparr>))"
    using assms(1,2) unfolding Add_def Let_def Decode_Encode Clear_SASL_def by auto
  then show ?thesis by simp
qed

lemma feed_chunks:
  "maxLength b = 0 \<or> int (length (sasl_buf b)) + int ((length s + 2) div 3 * 3) \<le> maxLength b \<Longrightarrow>
   feed b (chunks_of s @ rest) = (Some (sasl_buf b @ s, None, rest), b\<lparr>sasl_buf := []\<rparr>)"
proof (induction s arbitrary: b rule: chunks_of.induct)
  case (1 s)
  show ?case
  proof (cases "length s < 298")
    case short: True
    have len: "length (EncodeToString s) < 400" using short by (rule length_Encode_short)
    have "DecodedLen (length (EncodeToString s)) = (length s + 2) div 3 * 3"
      by (simp add: length_Encode DecodedLen_def)
    with short len 1(2) Add_chunk [of b s] show ?thesis
      by (subst chunks_of.simps) (auto simp: Add_def Clear_SASL_def)
  next
    case False
    let ?t = "take 300 s" and ?d = "drop 300 s"
    have len: "length (EncodeToString ?t) = 400"
      using length_Encode_300 [of s] False by simp
    have room: "maxLength b = 0 \<or> int (length (sasl_buf b) + DecodedLen (length (EncodeToString ?t))) \<le> maxLength b"
      "maxLength b = 0 \<or> int (length (sasl_buf b @ ?t)) + int ((length ?d + 2) div 3 * 3) \<le> maxLength b"
      using 1(2) thirds(4) [of "length s"] False len by (auto simp: DecodedLen_def min_def split: if_splits)
    have "?t \<noteq> []" using False by auto
    from Add_chunk [OF room(1) _ this] len
    have "Add b (EncodeToString ?t) = ((False, [], None), b\<lparr>sasl_buf := sasl_buf b @ ?t\<rparr>)" by simp
    with 1(1) [OF False, of "b\<lparr>sasl_buf := sasl_buf b @ ?t\<rparr>"] room(2) False show ?thesis
      by (subst chunks_of.simps) simp
  qed
qed

text \<open>The limit: nothing beyond it is buffered or returned.\<close>

definition buffer_inv :: "SASLBuffer \<Rightarrow> bool" where
  "buffer_inv b \<longleftrightarrow> maxLength b \<noteq> 0 \<longrightarrow> int (length (sasl_buf b)) \<le> maxLength b"

lemma Add_spec:
  assumes "Add b val = ((fin, output, err), b')"
  shows "maxLength b' = maxLength b" "fin \<Longrightarrow> sasl_buf b' = []" "\<not> fin \<Longrightarrow> output = [] \<and> err = None"
    "buffer_inv b \<Longrightarrow> maxLength b \<noteq> 0 \<Longrightarrow> int (length (sasl_buf b')) \<le> maxLength b \<or> fin"
    "buffer_inv b \<Longrightarrow> maxLength b \<noteq> 0 \<Longrightarrow> output = [] \<or> int (length output) \<le> maxLength b"
    "err \<noteq> None \<Longrightarrow> fin \<and> output = []"
  using assms length_Decode [of val]
  by (auto simp: Add_def Clear_SASL_def Let_def buffer_inv_def split: if_splits prod.splits)

lemma feed_Encode:
  assumes "maxLength b = 0 \<or> int ((length raw + 2) div 3 * 3) \<le> maxLength b" "sasl_buf b = []"
  shows "feed b (EncodeSASLResponse raw @ rest) = (Some (raw, None, rest), b)"
  using feed_chunks [of b raw rest] assms by (simp add: EncodeSASLResponse_eq)

interpretation sasl: codec EncodeSASLResponse
  "\<lambda>vs. case feed (NewSASLBuffer 0) vs of (Some (output, _), _) \<Rightarrow> output | _ \<Rightarrow> []" "\<lambda>_. True"
proof
  fix raw :: string
  have "feed (NewSASLBuffer 0) (EncodeSASLResponse raw) = (Some (raw, None, []), NewSASLBuffer 0)"
    using feed_Encode [of "NewSASLBuffer 0" raw "[]"] by (simp add: NewSASLBuffer_def Initialize_SASL_def)
  then show "(case feed (NewSASLBuffer 0) (EncodeSASLResponse raw) of
      (Some (output, _), _) \<Rightarrow> output | _ \<Rightarrow> []) = raw" by simp
qed

subsection \<open>Properties\<close>

text \<open>C14. SASL round trip: the parameters of \<open>EncodeSASLResponse\<close>, fed to an empty buffer whose limit
  admits the response rounded up to a multiple of three bytes, are taken until exactly the last one,
  which returns the response without an error and leaves the buffer empty for the next.\<close>

theorem SASL_round_trip:
  assumes "maxLength b = 0 \<or> int ((length raw + 2) div 3 * 3) \<le> maxLength b" "sasl_buf b = []"
  shows "feed b (EncodeSASLResponse raw @ rest) = (Some (raw, None, rest), b)"
  by (rule feed_Encode [OF assms])

lemma SASL_round_trip_witness:
  "feed (NewSASLBuffer 6) (EncodeSASLResponse ''abcd'' @ [''next'']) = (Some (''abcd'', None, [''next'']), NewSASLBuffer 6)"
  by (rule SASL_round_trip) (simp_all add: NewSASLBuffer_def Initialize_SASL_def)

text \<open>Every parameter of \<open>EncodeSASLResponse\<close> has between 1 and 400 bytes, all but the last exactly
  400 and the last fewer, and different responses have different parameters.\<close>

theorem EncodeSASLResponse_chunks:
  "list_all (\<lambda>c. length c = 400) (butlast (EncodeSASLResponse raw)) \<and>
    0 < length (last (EncodeSASLResponse raw)) \<and> length (last (EncodeSASLResponse raw)) < 400 \<and>
    (EncodeSASLResponse raw = EncodeSASLResponse raw' \<longleftrightarrow> raw = raw')"
proof -
  have "chunks_of raw \<noteq> []" by (subst chunks_of.simps) simp
  then have "0 < length (last (chunks_of raw))" using chunks_of_chunk [of "last (chunks_of raw)" raw] by simp
  then show ?thesis
    using chunks_of_last [of raw] chunks_of_butlast [of _ raw] sasl.enc_inj [of raw raw']
    by (simp add: EncodeSASLResponse_eq list_all_iff)
qed

text \<open>The limit holds for any input: the buffer never holds, and a call never returns, more than
  \<open>maxLength\<close> bytes; when a call is done, or fails, the buffer is empty, and a failure returns nothing.\<close>

lemma Add_within_limit:
  assumes "Add b val = ((fin, output, err), b')" "buffer_inv b"
  shows "buffer_inv b' \<and> maxLength b' = maxLength b \<and>
    (maxLength b \<noteq> 0 \<longrightarrow> output = [] \<or> int (length output) \<le> maxLength b) \<and>
    (fin \<longrightarrow> sasl_buf b' = []) \<and> (\<not> fin \<longrightarrow> output = [] \<and> err = None) \<and>
    (err \<noteq> None \<longrightarrow> fin \<and> output = [])"
proof -
  note A = Add_spec [OF assms(1)]
  have "0 \<le> maxLength b" if "maxLength b \<noteq> 0" using that assms(2) by (simp add: buffer_inv_def)
  with A assms(2) show ?thesis by (auto simp: buffer_inv_def)
qed

lemma Add_within_limit_witness:
  "Add (NewSASLBuffer 2) ''YWJj'' = ((True, [], Some ErrSASLLimitExceeded), NewSASLBuffer 2) \<and>
    buffer_inv (NewSASLBuffer 2)"
proof -
  have add: "Add (NewSASLBuffer 2) ''YWJj'' = ((True, [], Some ErrSASLLimitExceeded), NewSASLBuffer 2)"
    by (simp add: Add_def NewSASLBuffer_def Initialize_SASL_def Clear_SASL_def DecodedLen_def)
  have "buffer_inv (NewSASLBuffer 2)" by (simp add: buffer_inv_def NewSASLBuffer_def Initialize_SASL_def)
  from Add_within_limit [OF add this] add show ?thesis by blast
qed

end
