(* ===== verification/Go_Strings.thy ===== *)
theory Go_Strings
  imports Go_Utf8
begin

text \<open>
  More of Go's \<^verbatim>\<open>strings\<close> package, as the packages call it: \<open>Contains\<close>, \<open>Split\<close> with a separator of one
  byte and with the empty separator, \<open>TrimSpace\<close>, and \<open>ToLower\<close>, whose Unicode case table is an
  argument. \<open>IsSpace\<close> is the \<open>White_Space\<close> property as \<^verbatim>\<open>unicode.IsSpace\<close> documents it.
\<close>

subsection \<open>The functions\<close>

definition Contains :: "string \<Rightarrow> string \<Rightarrow> bool" where
  "Contains s sub \<longleftrightarrow> list_ex (\<lambda>i. HasPrefix (drop i s) sub) [0..<Suc (length s)]"

fun strings_Split :: "string \<Rightarrow> char \<Rightarrow> string list" where
  "strings_Split [] sep = [[]]"
| "strings_Split (c # s) sep =
    (if c = sep then [] # strings_Split s sep
     else case strings_Split s sep of [] \<Rightarrow> [[c]] | w # ws \<Rightarrow> (c # w) # ws)"

fun strings_Join :: "string list \<Rightarrow> char \<Rightarrow> string" where
  "strings_Join [] sep = []"
| "strings_Join [w] sep = w"
| "strings_Join (w # ws) sep = w @ sep # strings_Join ws sep"

text \<open>\<open>Split(s, "")\<close>: the UTF-8 sequences of \<open>s\<close>.\<close>

function explode :: "string \<Rightarrow> string list" where
  "explode s =
    (if s = [] then []
     else take (snd (DecodeRune s)) s # explode (drop (snd (DecodeRune s)) s))"
  by pat_completeness auto
termination
  by (relation "measure length") (use DecodeRune_size in \<open>force simp: Suc_le_eq\<close>)+

declare explode.simps [simp del, go_eval]

text \<open>\<open>lower\<close> is \<open>unicode.ToLower\<close> on the runes beyond ASCII.\<close>

definition ToLower :: "(nat \<Rightarrow> nat) \<Rightarrow> string \<Rightarrow> string" where
  "ToLower lower s =
    (if list_all (\<lambda>c. byte c < 128) s then map lower_byte s
     else string_of_runes (map (\<lambda>r. if r < 128 then byte (lower_byte (char_of r)) else lower r) (runes s)))"

text \<open>\<open>upper\<close> is \<open>unicode.ToUpper\<close> on the runes beyond ASCII.\<close>

definition ToUpper :: "(nat \<Rightarrow> nat) \<Rightarrow> string \<Rightarrow> string" where
  "ToUpper upper s =
    (if list_all (\<lambda>c. byte c < 128) s then ToUpperASCII s
     else string_of_runes (map (\<lambda>r. if r < 128 then byte (upper_byte (char_of r)) else upper r) (runes s)))"

definition IsSpace :: "nat \<Rightarrow> bool" where
  "IsSpace r \<longleftrightarrow> (9 \<le> r \<and> r \<le> 13) \<or> r = 32 \<or> r = 133 \<or> r = 160 \<or> r = 5760 \<or>
    (8192 \<le> r \<and> r \<le> 8202) \<or> r = 8232 \<or> r = 8233 \<or> r = 8239 \<or> r = 8287 \<or> r = 12288"

definition TrimSpace :: "string \<Rightarrow> string" where
  "TrimSpace s =
    (let space = (\<lambda>u. IsSpace (fst (DecodeRune u)))
     in concat (rev (dropWhile space (rev (dropWhile space (explode s))))))"

text \<open>\<open>strings.Fields\<close>: the maximal runs of other characters between white space.\<close>

fun fields_loop :: "string list \<Rightarrow> string \<Rightarrow> string list" where
  "fields_loop [] w = (if w = [] then [] else [w])"
| "fields_loop (u # us) w =
    (if IsSpace (fst (DecodeRune u)) then (if w = [] then fields_loop us [] else w # fields_loop us [])
     else fields_loop us (w @ u))"

definition Fields :: "string \<Rightarrow> string list" where
  "Fields s = fields_loop (explode s) []"

subsection \<open>Splitting and joining\<close>

lemma Split_not_Nil [simp]: "strings_Split s sep \<noteq> []"
  by (cases s) (auto split: list.splits)

lemma Split_append: "sep \<notin> set w \<Longrightarrow> strings_Split (w @ sep # s) sep = w # strings_Split s sep"
  by (induction w) auto

lemma Split_absent: "sep \<notin> set w \<Longrightarrow> strings_Split w sep = [w]"
  by (induction w) auto

lemma Join_Cons: "ws \<noteq> [] \<Longrightarrow> strings_Join (w # ws) sep = w @ sep # strings_Join ws sep"
  by (cases ws) auto

lemma Join_Split: "strings_Join (strings_Split s sep) sep = s"
proof (induction s)
  case (Cons c s)
  obtain w ws where "strings_Split s sep = w # ws" by (cases "strings_Split s sep") auto
  with Cons show ?case by (cases ws) auto
qed simp

lemma Split_parts: "w \<in> set (strings_Split s sep) \<Longrightarrow> sep \<notin> set w \<and> set w \<subseteq> set s"
proof (induction s arbitrary: w)
  case (Cons c s)
  obtain w0 ws where s: "strings_Split s sep = w0 # ws" by (cases "strings_Split s sep") auto
  with Cons.IH have "sep \<notin> set w0 \<and> set w0 \<subseteq> set s" "\<forall>w\<in>set ws. sep \<notin> set w \<and> set w \<subseteq> set s" by auto
  with s Cons.prems show ?case by (auto split: if_splits)
qed simp

lemma Split_Join: "ws \<noteq> [] \<Longrightarrow> \<forall>w\<in>set ws. sep \<notin> set w \<Longrightarrow> strings_Split (strings_Join ws sep) sep = ws"
  by (induction ws sep rule: strings_Join.induct) (simp_all add: Split_append Split_absent)

lemma length_Split: "length (strings_Split s sep) = Suc (count_list s sep)"
proof (induction s)
  case (Cons c s)
  obtain w0 ws where "strings_Split s sep = w0 # ws" by (cases "strings_Split s sep") auto
  with Cons show ?case by auto
qed simp

lemma set_Join: "set (strings_Join ws sep) = \<Union> (set ` set ws) \<union> (if length ws \<le> 1 then {} else {sep})"
  by (induction ws sep rule: strings_Join.induct) auto

lemma Contains_single: "Contains s [c] \<longleftrightarrow> c \<in> set s"
proof
  assume "Contains s [c]"
  then obtain i where "HasPrefix (drop i s) [c]" unfolding Contains_def list_ex_iff by blast
  then obtain r where "drop i s = [c] @ r" by (rule HasPrefixE)
  then have "c \<in> set (drop i s)" by simp
  then show "c \<in> set s" by (rule in_set_dropD)
next
  assume "c \<in> set s"
  then obtain i where i: "i < length s" "s ! i = c" by (metis in_set_conv_nth)
  then have "HasPrefix (drop i s) [c]" by (simp add: HasPrefix_def take_1_nth)
  with i show "Contains s [c]" unfolding Contains_def list_ex_iff by force
qed

lemma explode_ascii: "list_all (\<lambda>c. byte c < 128) s \<Longrightarrow> explode s = map (\<lambda>c. [c]) s"
proof (induction s)
  case Nil
  then show ?case by (subst explode.simps) simp
next
  case (Cons c s)
  then have "DecodeRune (c # s) = (byte c, 1)" by (simp add: DecodeRune.simps)
  with Cons show ?case by (subst explode.simps) simp
qed

lemma lower_byte_ascii: "byte c < 128 \<Longrightarrow> byte (lower_byte c) < 128"
  by (auto simp: lower_byte_def)

lemma ToLower_ascii:
  "list_all (\<lambda>c. byte c < 128) s \<Longrightarrow> ToLower lower s = map lower_byte s \<and>
    list_all (\<lambda>c. byte c < 128) (ToLower lower s)"
  by (auto simp: ToLower_def list_all_iff lower_byte_ascii)

lemma ToUpper_ascii: "list_all (\<lambda>c. byte c < 128) s \<Longrightarrow> ToUpper upper s = ToUpperASCII s"
  by (simp add: ToUpper_def)

end
