(* ===== verification/Utils_Sanitize.thy ===== *)
theory Utils_Sanitize
  imports Go_Strings
begin

text \<open>
  \<^verbatim>\<open>ircutils/unicode.go\<close>: \<open>SanitizeText\<close>, which makes human-readable text safe for one IRC line. Go's
  \<open>for _, r := range message\<close> is a recursion over \<open>runes message\<close>.
\<close>

subsection \<open>The code\<close>

fun sanitize_loop :: "nat list \<Rightarrow> int \<Rightarrow> string \<Rightarrow> string" where
  "sanitize_loop [] byteLimit buf = buf"
| "sanitize_loop (r # rest) byteLimit buf =
    (if r = 0 \<or> r = 13 then sanitize_loop rest byteLimit buf
     else if r = 10 then
       (if int (length buf) + 2 \<le> byteLimit then sanitize_loop rest byteLimit (buf @ ''  '') else buf)
     else if IsSpace r then
       (if int (length buf) + 1 \<le> byteLimit then sanitize_loop rest byteLimit (buf @ '' '') else buf)
     else
       let rLen = RuneLen r in
       if int (length buf) + rLen \<le> byteLimit then sanitize_loop rest byteLimit (buf @ EncodeRune r)
       else buf)"

definition SanitizeText :: "string \<Rightarrow> int \<Rightarrow> string" where
  "SanitizeText message byteLimit = sanitize_loop (runes message) byteLimit []"

subsection \<open>What is written for a rune\<close>

definition clean_runes :: "nat \<Rightarrow> nat list" where
  "clean_runes r =
    (if r = 0 \<or> r = 13 then [] else if r = 10 then [32, 32] else if IsSpace r then [32] else [r])"

definition clean_rune :: "nat \<Rightarrow> bool" where
  "clean_rune r \<longleftrightarrow> valid_rune r \<and> r \<noteq> 0 \<and> r \<noteq> 13 \<and> r \<noteq> 10 \<and> (IsSpace r \<longrightarrow> r = 32)"

definition piece :: "nat \<Rightarrow> string" where
  "piece r = string_of_runes (clean_runes r)"

lemma EncodeRune_space: "EncodeRune 32 = '' ''"
  by (simp add: EncodeRune_1 char_eval)

lemma sanitize_step:
  assumes "valid_rune r"
  shows "sanitize_loop (r # rest) n buf =
    (if piece r = [] \<or> int (length (buf @ piece r)) \<le> n then sanitize_loop rest n (buf @ piece r) else buf)"
proof -
  have "RuneLen r = int (length (EncodeRune r))" by (rule RuneLen_EncodeRune [OF assms])
  moreover have "EncodeRune r \<noteq> []" using utf8_seq_EncodeRune [of r] utf8_seq_not_Nil by blast
  ultimately show ?thesis
    by (simp add: piece_def clean_runes_def EncodeRune_space Let_def)
qed

lemma clean_runes_clean: "valid_rune r \<Longrightarrow> \<forall>x\<in>set (clean_runes r). clean_rune x"
  by (auto simp: clean_runes_def clean_rune_def valid_rune_def)

text \<open>The loop writes the pieces of the runes as long as they fit.\<close>

lemma sanitize_loop_spec:
  assumes "\<forall>r\<in>set rs. valid_rune r" "int (length buf) \<le> n \<or> buf = []"
  shows "\<exists>k. sanitize_loop rs n buf = buf @ concat (map piece (take k rs)) \<and>
    (k < length rs \<longrightarrow> n < int (length (buf @ concat (map piece (take (Suc k) rs))))) \<and>
    int (length (sanitize_loop rs n buf)) \<le> max 0 n"
  using assms
proof (induction rs arbitrary: buf)
  case Nil
  then show ?case by auto
next
  case (Cons r rs)
  have v: "valid_rune r" using Cons.prems(1) by simp
  show ?case
  proof (cases "piece r = [] \<or> int (length (buf @ piece r)) \<le> n")
    case True
    then have "int (length (buf @ piece r)) \<le> n \<or> buf @ piece r = []" using Cons.prems(2) by auto
    moreover have "\<forall>x\<in>set rs. valid_rune x" using Cons.prems(1) by simp
    ultimately obtain k where
      k: "sanitize_loop rs n (buf @ piece r) = (buf @ piece r) @ concat (map piece (take k rs))"
      "k < length rs \<longrightarrow> n < int (length ((buf @ piece r) @ concat (map piece (take (Suc k) rs))))"
      "int (length (sanitize_loop rs n (buf @ piece r))) \<le> max 0 n"
      using Cons.IH by blast
    then show ?thesis
      unfolding sanitize_step [OF v] if_P [OF True] by (intro exI [of _ "Suc k"]) simp
  next
    case False
    then show ?thesis
      unfolding sanitize_step [OF v] if_not_P [OF False] using Cons.prems(2)
      by (intro exI [of _ 0]) auto
  qed
qed

lemma concat_pieces: "concat (map piece rs) = string_of_runes (concat (map clean_runes rs))"
  by (induction rs) (simp_all add: piece_def)

lemma SanitizeText_runes:
  obtains rs where "SanitizeText m n = string_of_runes rs" "\<forall>r\<in>set rs. clean_rune r"
    "int (length (SanitizeText m n)) \<le> max 0 n"
proof -
  obtain k where "SanitizeText m n = concat (map piece (take k (runes m)))"
    "int (length (SanitizeText m n)) \<le> max 0 n"
    using sanitize_loop_spec [OF runes_valid_rune, of "[]" n m] unfolding SanitizeText_def append_Nil by blast
  moreover have "\<forall>r\<in>set (concat (map clean_runes (take k (runes m)))). clean_rune r"
    using clean_runes_clean runes_valid_rune [of m] by (auto dest!: in_set_takeD)
  ultimately show ?thesis using that unfolding concat_pieces by blast
qed

lemma clean_bytes:
  assumes "\<forall>r\<in>set rs. clean_rune r" "byte c < 32" "byte c \<in> {0, 10, 13}"
  shows "c \<notin> set (string_of_runes rs)"
proof -
  have "c \<notin> set (EncodeRune r)" if "clean_rune r" for r
  proof (cases "r < 128")
    case True
    with that assms(3) show ?thesis by (auto simp: EncodeRune_1 clean_rune_def)
  next
    case False
    with EncodeRune_high [of r c] assms(2) show ?thesis by auto
  qed
  with assms(1) show ?thesis by (auto simp: string_of_runes_def)
qed

lemma sanitize_clean:
  "\<forall>r\<in>set rs. clean_rune r \<Longrightarrow> int (length (buf @ string_of_runes rs)) \<le> n \<Longrightarrow>
   sanitize_loop rs n buf = buf @ string_of_runes rs"
proof (induction rs arbitrary: buf)
  case (Cons r rs)
  then have "valid_rune r" "clean_runes r = [r]" by (auto simp: clean_rune_def clean_runes_def)
  with Cons show ?case by (simp only: sanitize_step) (simp add: piece_def)
qed simp

subsection \<open>Properties\<close>

text \<open>Sanitized text fits the limit, is valid UTF-8, has no NUL, CR or LF, and sanitizing it again
  changes nothing.\<close>

theorem SanitizeText_safe:
  "int (length (SanitizeText m n)) \<le> max 0 n \<and> ValidString (SanitizeText m n) \<and>
    {CHR 0x00, CHR 0x0A, CHR 0x0D} \<inter> set (SanitizeText m n) = {} \<and>
    SanitizeText (SanitizeText m n) n = SanitizeText m n"
proof -
  obtain rs where rs: "SanitizeText m n = string_of_runes rs" "\<forall>r\<in>set rs. clean_rune r"
    "int (length (SanitizeText m n)) \<le> max 0 n" by (rule SanitizeText_runes)
  have "runes (string_of_runes rs) = rs"
    using rs(2) by (intro runes_string_of_runes) (auto simp: clean_rune_def)
  then have "SanitizeText (string_of_runes rs) n = string_of_runes rs"
    using sanitize_clean [OF rs(2), of "[]" n] rs by (cases "rs = []") (auto simp: SanitizeText_def max_def
        split: if_splits)
  with rs clean_bytes [OF rs(2)] show ?thesis by (auto simp: ValidString_string_of_runes)
qed



end
