(* ===== verification/Utils_Hostnames.thy ===== *)
theory Utils_Hostnames
  imports Go_Strings
begin

text \<open>
  \<^verbatim>\<open>ircutils/hostnames.go\<close>: \<open>HostnameIsValid\<close>. \<open>lower\<close> is \<open>unicode.ToLower\<close> beyond ASCII.
\<close>

subsection \<open>The code\<close>

definition allowedHostnameChars :: string where
  "allowedHostnameChars = ''abcdefghijklmnopqrstuvwxyz1234567890-.''"

definition HostnameIsValid :: "(nat \<Rightarrow> nat) \<Rightarrow> string \<Rightarrow> bool" where
  "HostnameIsValid lower hostname =
    (if \<not> Contains hostname ''.'' \<or> length hostname < 1 \<or> length hostname > 200 then False
     else if list_ex (\<lambda>part. length part < 1 \<or> length part > 63 \<or> HasPrefix part ''-'' \<or> HasSuffix part ''-'')
          (strings_Split hostname (CHR ''.'')) then False
     else if list_ex (\<lambda>ch. \<not> Contains allowedHostnameChars ch) (explode (ToLower lower hostname)) then False
     else True)"

subsection \<open>The syntax of host names\<close>

definition host_char :: "char \<Rightarrow> bool" where
  "host_char c \<longleftrightarrow> (97 \<le> byte c \<and> byte c \<le> 122) \<or> (65 \<le> byte c \<and> byte c \<le> 90)
    \<or> (48 \<le> byte c \<and> byte c \<le> 57) \<or> c = CHR ''-''"

definition host_label :: "string \<Rightarrow> bool" where
  "host_label l \<longleftrightarrow> l \<noteq> [] \<and> length l \<le> 63 \<and> hd l \<noteq> CHR ''-'' \<and> last l \<noteq> CHR ''-'' \<and> (\<forall>c\<in>set l. host_char c)"

inductive hostname_syntax :: "string \<Rightarrow> bool" where
  labels: "2 \<le> length ls \<Longrightarrow> \<forall>l\<in>set ls. host_label l \<Longrightarrow> length (strings_Join ls (CHR ''.'')) \<le> 200 \<Longrightarrow>
    hostname_syntax (strings_Join ls (CHR ''.''))"

lemma HasPrefix_single: "HasPrefix s [c] \<longleftrightarrow> s \<noteq> [] \<and> hd s = c"
  by (cases s) (auto simp: HasPrefix_def)

lemma allowed_bytes: "map byte allowedHostnameChars = [97..<123] @ [49..<58] @ [48, 45, 46]"
  by code_simp

lemma allowed_ascii: "lower_byte c \<in> set allowedHostnameChars \<longleftrightarrow> host_char c \<or> c = CHR ''.''"
proof -
  have inj: "d \<in> set allowedHostnameChars \<longleftrightarrow> byte d \<in> set (map byte allowedHostnameChars)" for d
    by (auto simp: image_iff)
  have dash: "c = CHR ''-'' \<longleftrightarrow> byte c = 45" and dot: "c = CHR ''.'' \<longleftrightarrow> byte c = 46"
    using char_eqI [of c "CHR ''-''"] char_eqI [of c "CHR ''.''"] by auto
  have "byte (lower_byte c) = (if 65 \<le> byte c \<and> byte c \<le> 90 then byte c + 32 else byte c)"
    by (simp add: lower_byte_def)
  then show ?thesis
    unfolding inj allowed_bytes host_char_def dash dot set_append set_upt by (auto split: if_splits)
qed

lemma label_cond:
  "\<not> (length l < 1 \<or> length l > 63 \<or> HasPrefix l ''-'' \<or> HasSuffix l ''-'') \<longleftrightarrow>
    l \<noteq> [] \<and> length l \<le> 63 \<and> hd l \<noteq> CHR ''-'' \<and> last l \<noteq> CHR ''-''"
  by (cases l) (auto simp: HasPrefix_single HasSuffix_single)

lemma HostnameIsValid_ascii:
  assumes "list_all (\<lambda>c. byte c < 128) h"
  shows "HostnameIsValid lower h \<longleftrightarrow>
    CHR ''.'' \<in> set h \<and> length h \<le> 200 \<and> (\<forall>l\<in>set (strings_Split h (CHR ''.'')). host_label l)"
proof -
  note T = ToLower_ascii [OF assms, of lower]
  have ex: "explode (ToLower lower h) = map (\<lambda>c. [lower_byte c]) h"
    using explode_ascii [OF conjunct2 [OF T]] conjunct1 [OF T] by simp
  have "list_ex (\<lambda>ch. \<not> Contains allowedHostnameChars ch) (explode (ToLower lower h)) \<longleftrightarrow>
      (\<exists>c\<in>set h. \<not> (host_char c \<or> c = CHR ''.''))"
    unfolding list_ex_iff ex set_map by (simp add: Contains_single allowed_ascii)
  moreover have "(\<forall>c\<in>set h. host_char c \<or> c = CHR ''.'') \<longleftrightarrow>
      (\<forall>l\<in>set (strings_Split h (CHR ''.'')). \<forall>c\<in>set l. host_char c)"
  proof -
    have sh: "set h = \<Union> (set ` set (strings_Split h (CHR ''.''))) \<union> (if CHR ''.'' \<notin> set h then {} else {CHR ''.''})"
    proof -
      have len: "length (strings_Split h (CHR ''.'')) \<le> 1 \<longleftrightarrow> CHR ''.'' \<notin> set h"
        using count_list_0_iff [of h "CHR ''.''"] unfolding length_Split by linarith
      show ?thesis
        using set_Join [of "strings_Split h (CHR ''.'')" "CHR ''.''"] unfolding Join_Split len .
    qed
    show ?thesis
    proof (intro iffI ballI)
      fix l c assume "\<forall>c\<in>set h. host_char c \<or> c = CHR ''.''" "l \<in> set (strings_Split h (CHR ''.''))" "c \<in> set l"
      with Split_parts [of l h "CHR ''.''"] show "host_char c" by blast
    next
      fix c assume "\<forall>l\<in>set (strings_Split h (CHR ''.'')). \<forall>c\<in>set l. host_char c" "c \<in> set h"
      moreover have "c \<in> set h \<Longrightarrow> c = CHR ''.'' \<or> (\<exists>l\<in>set (strings_Split h (CHR ''.'')). c \<in> set l)"
        by (subst (asm) sh) (auto split: if_splits)
      ultimately show "host_char c \<or> c = CHR ''.''" by blast
    qed
  qed
  moreover have "list_ex (\<lambda>part. length part < 1 \<or> length part > 63 \<or> HasPrefix part ''-'' \<or> HasSuffix part ''-'')
      (strings_Split h (CHR ''.'')) \<longleftrightarrow>
      \<not> (\<forall>l\<in>set (strings_Split h (CHR ''.'')). l \<noteq> [] \<and> length l \<le> 63 \<and> hd l \<noteq> CHR ''-'' \<and> last l \<noteq> CHR ''-'')"
    unfolding list_ex_iff label_cond [symmetric] by blast
  ultimately show ?thesis
    unfolding HostnameIsValid_def Contains_single host_label_def by (cases h) auto
qed

subsection \<open>Properties\<close>

text \<open>C16. On ASCII input, \<open>HostnameIsValid\<close> accepts exactly the host names of at most 200 bytes with at
  least two labels, each of 1 to 63 letters, digits and hyphens, with no hyphen at either end.\<close>

theorem HostnameIsValid_syntax:
  assumes "list_all (\<lambda>c. byte c < 128) h"
  shows "HostnameIsValid lower h \<longleftrightarrow> hostname_syntax h"
proof
  assume "HostnameIsValid lower h"
  with assms have v: "CHR ''.'' \<in> set h" "length h \<le> 200" "\<forall>l\<in>set (strings_Split h (CHR ''.'')). host_label l"
    by (simp_all add: HostnameIsValid_ascii)
  have "2 \<le> length (strings_Split h (CHR ''.''))"
    using v(1) count_list_0_iff [of h "CHR ''.''"] by (simp add: length_Split)
  from labels [OF this v(3)] v(2) show "hostname_syntax h" by (simp add: Join_Split)
next
  assume "hostname_syntax h"
  then show "HostnameIsValid lower h"
  proof cases
    case (labels ls)
    have dot: "\<not> host_char (CHR ''.'')" by (simp add: host_char_def)
    have "strings_Split h (CHR ''.'') = ls"
      unfolding labels(1) by (rule Split_Join) (use dot labels in \<open>auto simp: host_label_def\<close>)
    moreover have "CHR ''.'' \<in> set h" unfolding labels(1) set_Join using labels(2) by simp
    ultimately show ?thesis
      using labels HostnameIsValid_ascii [OF assms, of lower] by simp
  qed
qed

lemma HostnameIsValid_syntax_witness:
  "HostnameIsValid id ''irc.example-1.com'' \<longleftrightarrow> hostname_syntax ''irc.example-1.com''"
  by (rule HostnameIsValid_syntax) simp

text \<open>Beyond ASCII the check can be passed: the lower case of the Kelvin sign (U+212A) is the letter
  \<open>k\<close>, so a name with this rune, which is not a host name, is accepted.\<close>

lemma HostnameIsValid_Kelvin:
  assumes "lower 8490 = 107"
  shows "HostnameIsValid lower (EncodeRune 8490 @ ''.a'') \<and>
    \<not> list_all (\<lambda>c. byte c < 128) (EncodeRune 8490 @ ''.a'')"
proof -
  have r: "runes (EncodeRune 8490 @ ''.a'') = [8490, 46, 97]"
    using DecodeRune_EncodeRune [of 8490] by (simp add: valid_rune_def)
  have e: "EncodeRune 8490 = [CHR 0xE2, CHR 0x84, CHR 0xAA]"
    by (simp add: EncodeRune_def valid_rune_def go_eval)
  have "ToLower lower (EncodeRune 8490 @ ''.a'') = ''k.a''"
    unfolding ToLower_def r using assms by (simp add: e EncodeRune_1 lower_byte_def go_eval)
  then show ?thesis
    by (simp add: HostnameIsValid_def e Contains_single HasPrefix_single HasSuffix_single explode_ascii
        allowedHostnameChars_def)
qed

lemma HostnameIsValid_Kelvin_witness:
  "HostnameIsValid (\<lambda>r. if r = 8490 then 107 else r) (EncodeRune 8490 @ ''.a'')"
  using HostnameIsValid_Kelvin [of "\<lambda>r. if r = 8490 then 107 else r"] by simp

end
