(* ===== verification/Fmt_Split.thy ===== *)
theory Fmt_Split
  imports Irc_Prelude "HOL-Library.Word" "HOL-Library.Sublist"
begin

text \<open>
  \<^verbatim>\<open>ircfmt/ircfmt.go\<close>, first part: formatting codes, \<open>ParseColor\<close>, \<open>Split\<close> and \<open>Strip\<close>. The
  specification of \<open>Split\<close> is \<open>render\<close>, which reads the message byte by byte and gives every byte of text
  the formatting in force.
\<close>

subsection \<open>The code\<close>

abbreviation "bold \<equiv> CHR 0x02"
abbreviation "colour \<equiv> CHR 0x03"
abbreviation "monospace \<equiv> CHR 0x11"
abbreviation "reverseColour \<equiv> CHR 0x16"
abbreviation "italic \<equiv> CHR 0x1D"
abbreviation "strikethrough \<equiv> CHR 0x1E"
abbreviation "underline \<equiv> CHR 0x1F"
abbreviation "reset \<equiv> CHR 0x0F"

definition metacharacters :: string where
  "metacharacters = [bold, colour, monospace, reverseColour, italic, strikethrough, underline, reset]"

record ColorCode =
  IsSet :: bool
  Value :: "8 word"

definition no_color :: ColorCode where
  "no_color = \<lparr>IsSet = False, Value = 0\<rparr>"

definition is_digit :: "char \<Rightarrow> bool" where
  "is_digit c \<longleftrightarrow> 48 \<le> byte c \<and> byte c \<le> 57"

text \<open>\<open>strconv.ParseUint(str, 10, 8)\<close>.\<close>

definition digits_value :: "string \<Rightarrow> nat" where
  "digits_value s = foldl (\<lambda>n c. n * 10 + (byte c - 48)) 0 s"

definition ParseUint8 :: "string \<Rightarrow> nat option" where
  "ParseUint8 s =
    (if s \<noteq> [] \<and> list_all is_digit s \<and> digits_value s \<le> 255 then Some (digits_value s) else None)"

definition ParseColor :: "string \<Rightarrow> ColorCode" where
  "ParseColor str =
    (case ParseUint8 str of
       Some code \<Rightarrow> if code < 99 then \<lparr>IsSet = True, Value = of_nat code\<rparr> else no_color
     | None \<Rightarrow> no_color)"

record FormattedSubstring =
  Content :: string
  ForegroundColor :: ColorCode
  BackgroundColor :: ColorCode
  Bold :: bool
  Monospace :: bool
  Strikethrough :: bool
  Underline :: bool
  Italic :: bool
  ReverseColor :: bool

definition zero_chunk :: FormattedSubstring where
  "zero_chunk = \<lparr>Content = [], ForegroundColor = no_color, BackgroundColor = no_color, Bold = False,
    Monospace = False, Strikethrough = False, Underline = False, Italic = False, ReverseColor = False\<rparr>"

definition IsFormatted :: "FormattedSubstring \<Rightarrow> bool" where
  "IsFormatted f = (f\<lparr>Content := []\<rparr> \<noteq> zero_chunk)"

text \<open>
  The two regular expressions, anchored and greedy: at most two digits, and then a comma and at most
  two digits. The results are the groups and the text behind the match.
\<close>

definition colorForeRe :: "string \<Rightarrow> (string \<times> string) option" where
  "colorForeRe s =
    (let ds = takeWhile is_digit (take 2 s) in if ds = [] then None else Some (ds, drop (length ds) s))"

definition colorForeBackRe :: "string \<Rightarrow> (string \<times> string \<times> string) option" where
  "colorForeBackRe s =
    (case colorForeRe s of
       Some (fore, CHR '','' # rest) \<Rightarrow>
         (case colorForeRe rest of Some (back, rest') \<Rightarrow> Some (fore, back, rest') | None \<Rightarrow> None)
     | _ \<Rightarrow> None)"

text \<open>The \<open>switch\<close> on the metacharacter: the new formatting and the rest of the text.\<close>

definition apply_meta :: "char \<Rightarrow> FormattedSubstring \<Rightarrow> string \<Rightarrow> FormattedSubstring \<times> string" where
  "apply_meta m chunk raw =
    (if m = bold then (chunk\<lparr>Bold := \<not> Bold chunk\<rparr>, raw)
     else if m = monospace then (chunk\<lparr>Monospace := \<not> Monospace chunk\<rparr>, raw)
     else if m = strikethrough then (chunk\<lparr>Strikethrough := \<not> Strikethrough chunk\<rparr>, raw)
     else if m = underline then (chunk\<lparr>Underline := \<not> Underline chunk\<rparr>, raw)
     else if m = italic then (chunk\<lparr>Italic := \<not> Italic chunk\<rparr>, raw)
     else if m = reverseColour then (chunk\<lparr>ReverseColor := \<not> ReverseColor chunk\<rparr>, raw)
     else if m = reset then (zero_chunk, raw)
     else if m = colour then
       (case colorForeBackRe raw of
          Some (fore, back, rest) \<Rightarrow>
            (chunk\<lparr>ForegroundColor := ParseColor fore, BackgroundColor := ParseColor back\<rparr>, rest)
        | None \<Rightarrow>
            (case colorForeRe raw of
               Some (fore, rest) \<Rightarrow> (chunk\<lparr>ForegroundColor := ParseColor fore\<rparr>, rest)
             | None \<Rightarrow> (chunk\<lparr>ForegroundColor := no_color, BackgroundColor := no_color\<rparr>, raw)))
     else (chunk, raw))"

definition is_meta :: "char \<Rightarrow> bool" where
  "is_meta c \<longleftrightarrow> c \<in> set metacharacters"

text \<open>One round of the loop: the text up to the next metacharacter, and the metacharacter.\<close>

lemma colorForeRe_length: "colorForeRe s = Some (f, r) \<Longrightarrow> length r < length s"
  by (cases s) (auto simp: colorForeRe_def Let_def split: if_splits)

lemma colorForeBackRe_length: "colorForeBackRe s = Some (f, b, r) \<Longrightarrow> length r < length s"
  by (auto simp: colorForeBackRe_def split: option.splits list.splits char.splits bool.splits
      dest!: colorForeRe_length)

lemma apply_meta_length: "apply_meta m chunk raw = (c, r) \<Longrightarrow> length r \<le> length raw"
  by (auto simp: apply_meta_def split: if_splits option.splits
      dest!: colorForeRe_length colorForeBackRe_length)

lemma drop_Cons_length: "drop i s = m # r \<Longrightarrow> length r < length s"
  using length_drop [of i s] by simp

function split_loop :: "FormattedSubstring \<Rightarrow> string \<Rightarrow> FormattedSubstring list \<Rightarrow> FormattedSubstring list" where
  "split_loop chunk raw result =
    (let idx = length (takeWhile (\<lambda>c. \<not> is_meta c) raw);
         chunk1 = (if idx \<noteq> 0 \<or> raw = [] then chunk\<lparr>Content := take idx raw\<rparr> else chunk);
         result1 = (if (idx \<noteq> 0 \<or> raw = []) \<and> length (Content chunk1) \<noteq> 0 then result @ [chunk1] else result)
     in case drop idx raw of
          [] \<Rightarrow> result1
        | m # raw1 \<Rightarrow>
            (case apply_meta m chunk1 raw1 of (chunk2, raw2) \<Rightarrow> split_loop chunk2 raw2 result1))"
  by pat_completeness auto
termination
  by (relation "measure (\<lambda>(chunk, raw, result). length raw)")
    (auto simp del: split_paired_Ex dest!: drop_Cons_length apply_meta_length [OF sym])

declare split_loop.simps [simp del, go_eval]

definition Split :: "string \<Rightarrow> FormattedSubstring list" where
  "Split raw = split_loop zero_chunk raw []"

definition Strip :: "string \<Rightarrow> string" where
  "Strip in0 =
    (case Split in0 of [] \<Rightarrow> [] | [chunk] \<Rightarrow> Content chunk | chunks \<Rightarrow> concat (map Content chunks))"

subsection \<open>Specification\<close>

text \<open>Every byte of the text with the formatting in force, in order.\<close>

abbreviation norm_chunk :: "FormattedSubstring \<Rightarrow> FormattedSubstring" where
  "norm_chunk f \<equiv> f\<lparr>Content := []\<rparr>"

function render :: "FormattedSubstring \<Rightarrow> string \<Rightarrow> (char \<times> FormattedSubstring) list" where
  "render fmt [] = []"
| "render fmt (c # s) =
    (if is_meta c then (case apply_meta c fmt s of (fmt', s') \<Rightarrow> render fmt' s')
     else (c, fmt) # render fmt s)"
  by pat_completeness auto
termination
  by (relation "measure (\<lambda>(fmt, s). length s)") (auto simp: less_Suc_eq_le dest: apply_meta_length split: prod.split)

definition flatten :: "FormattedSubstring list \<Rightarrow> (char \<times> FormattedSubstring) list" where
  "flatten chunks = concat (map (\<lambda>f. map (\<lambda>c. (c, norm_chunk f)) (Content f)) chunks)"

lemma flatten_simps [simp]:
  "flatten [] = []"
  "flatten (a @ b) = flatten a @ flatten b"
  "flatten (f # fs) = map (\<lambda>c. (c, norm_chunk f)) (Content f) @ flatten fs"
  by (simp_all add: flatten_def)

lemma apply_meta_norm:
  "apply_meta m chunk raw = (c, r) \<Longrightarrow> apply_meta m (norm_chunk chunk) raw = (norm_chunk c, r)"
  by (cases chunk)
    (auto simp: apply_meta_def zero_chunk_def split: if_splits option.splits)

lemma render_plain: "\<forall>c\<in>set t. \<not> is_meta c \<Longrightarrow> render fmt (t @ s) = map (\<lambda>c. (c, fmt)) t @ render fmt s"
  by (induction t) auto

text \<open>The text in front of the next metacharacter, and the rest.\<close>

lemma text_split:
  obtains t r where "raw = t @ r" "\<forall>c\<in>set t. \<not> is_meta c" "r = [] \<or> is_meta (hd r)"
    "length (takeWhile (\<lambda>c. \<not> is_meta c) raw) = length t"
proof (rule that)
  show "raw = takeWhile (\<lambda>c. \<not> is_meta c) raw @ dropWhile (\<lambda>c. \<not> is_meta c) raw" by simp
  show "dropWhile (\<lambda>c. \<not> is_meta c) raw = [] \<or> is_meta (hd (dropWhile (\<lambda>c. \<not> is_meta c) raw))"
    using hd_dropWhile [of "\<lambda>c. \<not> is_meta c" raw] by blast
qed (auto dest: set_takeWhileD)

lemma split_loop_step:
  assumes "raw = t @ r" "\<forall>c\<in>set t. \<not> is_meta c" "r = [] \<or> is_meta (hd r)"
  obtains chunk1 where "norm_chunk chunk1 = norm_chunk chunk"
    "split_loop chunk raw result =
      (let result1 = (if t = [] then result else result @ [chunk\<lparr>Content := t\<rparr>])
       in case r of [] \<Rightarrow> result1
          | m # raw1 \<Rightarrow> (case apply_meta m chunk1 raw1 of (chunk2, raw2) \<Rightarrow> split_loop chunk2 raw2 result1))"
proof -
  have tw: "takeWhile (\<lambda>c. \<not> is_meta c) raw = t"
    using assms by (cases r) (auto simp: takeWhile_append2)
  have tk: "take (length t) raw = t" "drop (length t) raw = r" using assms(1) by simp_all
  let ?c = "if t = [] \<and> raw \<noteq> [] then chunk else chunk\<lparr>Content := t\<rparr>"
  have "split_loop chunk raw result =
      (let result1 = (if t = [] then result else result @ [chunk\<lparr>Content := t\<rparr>])
       in case r of [] \<Rightarrow> result1
          | m # raw1 \<Rightarrow> (case apply_meta m ?c raw1 of (chunk2, raw2) \<Rightarrow> split_loop chunk2 raw2 result1))"
    unfolding split_loop.simps [of chunk raw] tw tk Let_def using assms(1) by (cases t) auto
  then show thesis by (intro that [of ?c]) simp_all
qed

definition plain_chunk :: "FormattedSubstring \<Rightarrow> bool" where
  "plain_chunk f \<longleftrightarrow> Content f \<noteq> [] \<and> list_all (\<lambda>c. \<not> is_meta c) (Content f)"

lemma split_loop_render:
  "flatten (split_loop chunk raw result) = flatten result @ render (norm_chunk chunk) raw \<and>
   (list_all plain_chunk result \<longrightarrow> list_all plain_chunk (split_loop chunk raw result))"
proof (induction "length raw" arbitrary: chunk raw result rule: less_induct)
  case less
  obtain t r where t: "raw = t @ r" "\<forall>c\<in>set t. \<not> is_meta c" "r = [] \<or> is_meta (hd r)"
    using text_split by metis
  let ?result1 = "if t = [] then result else result @ [chunk\<lparr>Content := t\<rparr>]"
  obtain chunk1 where s: "norm_chunk chunk1 = norm_chunk chunk"
    "split_loop chunk raw result = (case r of [] \<Rightarrow> ?result1
      | m # raw1 \<Rightarrow> (case apply_meta m chunk1 raw1 of (chunk2, raw2) \<Rightarrow> split_loop chunk2 raw2 ?result1))"
    using split_loop_step [OF t, of chunk result] unfolding Let_def by metis
  have fl: "flatten ?result1 = flatten result @ map (\<lambda>c. (c, norm_chunk chunk)) t" by simp
  have ok: "list_all plain_chunk result \<Longrightarrow> list_all plain_chunk ?result1"
    using t(2) by (simp add: plain_chunk_def list_all_iff)
  show ?case
  proof (cases r)
    case Nil
    then have "split_loop chunk raw result = ?result1" "raw = t" using s(2) t(1) by simp_all
    then show ?thesis
      using fl ok render_plain [OF t(2), of "norm_chunk chunk" "[]"] by simp
  next
    case (Cons m raw1)
    obtain chunk2 raw2 where a: "apply_meta m chunk1 raw1 = (chunk2, raw2)" by (metis prod.exhaust)
    have lt: "length raw2 < length raw" using apply_meta_length [OF a] t(1) Cons by simp
    have eq: "split_loop chunk raw result = split_loop chunk2 raw2 ?result1" using s(2) Cons a by simp
    have rend: "render (norm_chunk chunk) raw = map (\<lambda>c. (c, norm_chunk chunk)) t @ render (norm_chunk chunk2) raw2"
      using t Cons apply_meta_norm [OF a] s(1) by (simp add: render_plain)
    show ?thesis
      using less.hyps [OF lt, of chunk2 ?result1] ok unfolding eq rend fl append_assoc by blast
  qed
qed

lemma Split_flatten: "flatten (Split s) = render zero_chunk s"
  using split_loop_render [of zero_chunk s "[]"] by (simp add: Split_def zero_chunk_def)

lemma Strip_render: "Strip s = map fst (render zero_chunk s)"
proof -
  have "Strip s = concat (map Content (Split s))"
    by (auto simp: Strip_def split: list.splits)
  also have "\<dots> = map fst (flatten (Split s))"
    by (simp add: flatten_def map_concat comp_def)
  finally show ?thesis by (simp add: Split_flatten)
qed

lemma render_text: "list_all (\<lambda>c. \<not> is_meta c) (map fst (render fmt s))"
  by (induction fmt s rule: render.induct) (auto split: prod.splits)

lemma colorForeRe_suffix: "colorForeRe s = Some (f, r) \<Longrightarrow> suffix r s"
  by (auto simp: colorForeRe_def Let_def suffix_drop split: if_splits)

lemma apply_meta_suffix: "apply_meta m chunk raw = (c, r) \<Longrightarrow> suffix r raw"
proof -
  have "suffix r s" if "colorForeBackRe s = Some (f, b, r)" for s f b r
  proof -
    from that obtain rest where "colorForeRe s = Some (f, CHR '','' # rest)" "colorForeRe rest = Some (b, r)"
      by (auto simp: colorForeBackRe_def split: option.splits list.splits char.splits bool.splits)
    then have "suffix (CHR '','' # rest) s" "suffix r rest" by (auto dest: colorForeRe_suffix)
    then show ?thesis by (meson suffix_Cons suffix_order.trans)
  qed
  moreover assume "apply_meta m chunk raw = (c, r)"
  ultimately show ?thesis
    by (auto simp: apply_meta_def split: if_splits option.splits dest: colorForeRe_suffix)
qed

lemma render_subseq: "subseq (map fst (render fmt s)) s"
proof (induction fmt s rule: render.induct)
  case (2 fmt c s)
  show ?case
  proof (cases "is_meta c")
    case True
    obtain fmt' s' where a: "apply_meta c fmt s = (fmt', s')" by (metis prod.exhaust)
    have "subseq s' s" using apply_meta_suffix [OF a] by (auto simp: suffix_def)
    moreover have "subseq (map fst (render fmt' s')) s'" using "2.IH"(1) [OF True a [symmetric]] by simp
    ultimately have "subseq (map fst (render fmt' s')) s" by (metis subseq_order.trans)
    with True a show ?thesis by (simp add: list_emb_Cons)
  qed (use 2 in auto)
qed simp

lemma Strip_plain: "list_all (\<lambda>c. \<not> is_meta c) s \<Longrightarrow> Strip s = s"
  using render_plain [of s zero_chunk "[]"] by (simp add: Strip_render list_all_iff comp_def)

subsection \<open>Properties\<close>


text \<open>\<open>Strip\<close> returns the text of the substrings, a subsequence of the message without formatting
  codes, leaves unformatted text as it is, and so is idempotent.\<close>

lemma Strip_removes_codes:
  "Strip s = map fst (render zero_chunk s) \<and> subseq (Strip s) s \<and>
    list_all (\<lambda>c. \<not> is_meta c) (Strip s) \<and> Strip (Strip s) = Strip s"
  using render_subseq [of zero_chunk s] render_text [of zero_chunk s] Strip_plain
  by (simp add: Strip_render)

end
