(* ===== verification/Fmt_Escape.thy ===== *)
theory Fmt_Escape
  imports Fmt_Split Go_Strings
begin

text \<open>
  \<^verbatim>\<open>ircfmt/ircfmt.go\<close>, second part: \<open>Escape\<close> and \<open>Unescape\<close>, the translation of formatting codes to
  and from the \<open>$\<close> notation. \<open>Escape\<close> works on runes and may panic on an index out of range
  (\<open>None\<close>). \<open>lower\<close> is \<open>unicode.ToLower\<close> beyond ASCII.
\<close>

subsection \<open>The code of Escape\<close>

definition fmt_valtoescape :: "char \<Rightarrow> string" where
  "fmt_valtoescape c =
    (if c = CHR ''$'' then ''$$'' else if c = colour then ''$c'' else if c = reverseColour then ''$v''
     else if c = bold then ''$b'' else if c = italic then ''$i'' else if c = strikethrough then ''$s''
     else if c = underline then ''$u'' else if c = monospace then ''$m'' else if c = reset then ''$r''
     else [c])"

definition numtocolour :: "string \<rightharpoonup> string" where
  "numtocolour = map_of
    [(''99'', ''default''), (''15'', ''light grey''), (''14'', ''grey''), (''13'', ''pink''),
     (''12'', ''light blue''), (''11'', ''light cyan''), (''10'', ''cyan''), (''09'', ''light green''),
     (''08'', ''yellow''), (''07'', ''orange''), (''06'', ''magenta''), (''05'', ''brown''), (''04'', ''red''),
     (''03'', ''green''), (''02'', ''blue''), (''01'', ''black''), (''00'', ''white''), (''9'', ''light green''),
     (''8'', ''yellow''), (''7'', ''orange''), (''6'', ''magenta''), (''5'', ''brown''), (''4'', ''red''),
     (''3'', ''green''), (''2'', ''blue''), (''1'', ''black''), (''0'', ''white'')]"

definition isDigit :: "nat \<Rightarrow> bool" where
  "isDigit r \<longleftrightarrow> 48 \<le> r \<and> r \<le> 57"

text \<open>
  The optional background behind a foreground. The code tests \<open>inRunes[1]\<close> where it means the next
  rune, \<open>inRunes[0]\<close>; with one rune left this is out of range.
\<close>

definition escape_back :: "nat list \<Rightarrow> (string \<times> nat list) go" where
  "escape_back rs =
    (if 1 < length rs \<and> rs ! 0 = 44 \<and> isDigit (rs ! 1) then
       let back = EncodeRune (rs ! 1); rs1 = drop 2 rs in
       if 0 < length rs1 then
         (if length rs1 < 2 then None
          else if isDigit (rs1 ! 1) then Some (back @ EncodeRune (rs1 ! 0), drop 1 rs1)
          else Some (back, rs1))
       else Some (back, rs1)
     else Some ([], rs))"

definition colour_name :: "string \<Rightarrow> string" where
  "colour_name buffer = (case numtocolour buffer of Some name \<Rightarrow> name | None \<Rightarrow> buffer)"

text \<open>What is written for the colour code behind \<open>$c\<close>, and the runes behind the code.\<close>

definition escape_fore :: "nat list \<Rightarrow> string \<times> nat list" where
  "escape_fore rs =
    (let foreBuffer = EncodeRune (rs ! 0); rs1 = drop 1 rs
     in if 0 < length rs1 \<and> isDigit (rs1 ! 0) then (foreBuffer @ EncodeRune (rs1 ! 0), drop 1 rs1)
        else (foreBuffer, rs1))"

definition escape_colour :: "nat list \<Rightarrow> (string \<times> nat list) go" where
  "escape_colour rs =
    (if length rs < 1 \<or> \<not> isDigit (rs ! 0) then Some (''[]'', rs)
     else
       let (fore, rs2) = escape_fore rs in do {
         (back, rs3) \<leftarrow> escape_back rs2;
         let foreName = colour_name fore;
         let backName = colour_name back;
         Some (''['' @ foreName @ (if backName \<noteq> [] then '','' @ backName else []) @ '']'', rs3)
       })"

lemma escape_back_length: "escape_back rs = Some (b, rs') \<Longrightarrow> length rs' \<le> length rs"
  by (auto simp: escape_back_def Let_def split: if_splits)

lemma escape_colour_length: "escape_colour rs = Some (t, rs') \<Longrightarrow> length rs' \<le> length rs"
  by (auto simp: escape_colour_def escape_fore_def Let_def split: if_splits bind_splits dest!: escape_back_length)

function escape_loop :: "nat list \<Rightarrow> string \<Rightarrow> string go" where
  "escape_loop rs out =
    (if \<not> 0 < length rs then Some out
     else if 1 < length rs \<and> rs ! 0 = 36 \<and> rs ! 1 = 99 then
       (case escape_colour (drop 2 rs) of
          None \<Rightarrow> None
        | Some (text, rs') \<Rightarrow> escape_loop rs' (out @ ''$c'' @ text))
     else if length rs > 2 \<and> rs ! 0 = 36 \<and> rs ! 1 = 36 \<and> rs ! 2 = 99 then
       escape_loop (drop 3 rs) (out @ EncodeRune (rs ! 0) @ EncodeRune (rs ! 1) @ EncodeRune (rs ! 2))
     else escape_loop (drop 1 rs) (out @ EncodeRune (rs ! 0)))"
  by pat_completeness auto
termination
  by (relation "measure (\<lambda>(rs, out). length rs)") (auto dest!: escape_colour_length)

declare escape_loop.simps [simp del, go_eval]

definition Escape :: "string \<Rightarrow> string go" where
  "Escape in0 = escape_loop (runes (concat (map fmt_valtoescape in0))) []"

subsection \<open>The code of Unescape\<close>

definition escapetoval :: "char \<rightharpoonup> string" where
  "escapetoval = map_of
    [(CHR ''$'', ''$''), (CHR ''b'', [bold]), (CHR ''i'', [italic]), (CHR ''v'', [reverseColour]),
     (CHR ''s'', [strikethrough]), (CHR ''u'', [underline]), (CHR ''m'', [monospace]), (CHR ''r'', [reset])]"

definition colourcodesTruncated :: "string \<rightharpoonup> string" where
  "colourcodesTruncated = map_of
    [(''white'', ''0''), (''black'', ''1''), (''blue'', ''2''), (''green'', ''3''), (''red'', ''4''),
     (''brown'', ''5''), (''magenta'', ''6''), (''orange'', ''7''), (''yellow'', ''8''), (''light green'', ''9''),
     (''cyan'', ''10''), (''light cyan'', ''11''), (''light blue'', ''12''), (''pink'', ''13''), (''grey'', ''14''),
     (''gray'', ''14''), (''light grey'', ''15''), (''light gray'', ''15''), (''default'', ''99'')]"

text \<open>\<^verbatim>\<open>^\[.*?\]\<close>: the dot does not match a line feed.\<close>

definition bracketedExpr :: "string \<Rightarrow> string" where
  "bracketedExpr s =
    (case s of
       CHR ''['' # r \<Rightarrow>
         (case IndexByte r (CHR '']'') of
            Some i \<Rightarrow> if CHR 0x0A \<in> set (take i r) then [] else take (i + 2) s
          | None \<Rightarrow> [])
     | _ \<Rightarrow> [])"

definition colourDigits :: "string \<Rightarrow> bool" where
  "colourDigits s \<longleftrightarrow> 1 \<le> length s \<and> length s \<le> 2 \<and> list_all is_digit s"

definition resolveToColourCode :: "(nat \<Rightarrow> nat) \<Rightarrow> string \<Rightarrow> string" where
  "resolveToColourCode lower str0 =
    (let str = ToLower lower (TrimSpace str0) in
     if colourDigits str then str
     else case colourcodesTruncated str of Some code \<Rightarrow> code | None \<Rightarrow> [])"

definition resolveToColourCodes :: "(nat \<Rightarrow> nat) \<Rightarrow> string \<Rightarrow> string \<times> string" where
  "resolveToColourCodes lower namedColors0 =
    (let namedColors = TrimSuffix (TrimPrefix namedColors0 ''['') '']'';
         (foregroundStr, backgroundStr) =
           (case IndexByte namedColors (CHR '','') of
              Some commaIdx \<Rightarrow> (take commaIdx namedColors, drop (commaIdx + 1) namedColors)
            | None \<Rightarrow> (namedColors, []))
     in (resolveToColourCode lower foregroundStr, resolveToColourCode lower backgroundStr))"

text \<open>The code written for a bracketed colour, in front of \<open>remaining\<close>.\<close>

definition colour_code :: "(nat \<Rightarrow> nat) \<Rightarrow> string \<Rightarrow> string \<Rightarrow> string" where
  "colour_code lower namedColors remaining =
    (let followedByDigit = (length remaining \<noteq> 0 \<and> is_digit (remaining ! 0));
         (foreground, background) = resolveToColourCodes lower namedColors
     in if foreground \<noteq> [] then
          (if length foreground = 1 \<and> background = [] \<and> followedByDigit then ''0'' else [])
          @ foreground
          @ (if background \<noteq> [] then
               '','' @ (if length background = 1 \<and> followedByDigit then ''0'' else []) @ background
             else [])
        else [])"

lemma length_bracketedExpr: "length (bracketedExpr s) \<le> length s"
  by (auto simp: bracketedExpr_def split: list.splits char.splits bool.splits option.splits)

function unescape_fmt_loop :: "(nat \<Rightarrow> nat) \<Rightarrow> string \<Rightarrow> string \<Rightarrow> string" where
  "unescape_fmt_loop lower remaining out =
    (case remaining of
       [] \<Rightarrow> out
     | c # rest \<Rightarrow>
         if c \<noteq> CHR ''$'' \<or> rest = [] then unescape_fmt_loop lower rest (out @ [c])
         else
           let c2 = hd rest; rest2 = tl rest in
           if c2 = CHR ''c'' then
             (let namedColors = bracketedExpr rest2 in
              if namedColors = [] then unescape_fmt_loop lower rest2 (out @ [colour])
              else
                let rest3 = drop (length namedColors) rest2
                in unescape_fmt_loop lower rest3 (out @ [colour] @ colour_code lower namedColors rest3))
           else
             (case escapetoval c2 of
                Some val \<Rightarrow> unescape_fmt_loop lower rest2 (out @ val)
              | None \<Rightarrow> unescape_fmt_loop lower rest2 (out @ [c2])))"
  by pat_completeness auto
termination
  by (relation "measure (\<lambda>(lower, remaining, out). length remaining)") (auto simp: less_Suc_eq_le)

declare unescape_fmt_loop.simps [simp del, go_eval]

definition Unescape :: "(nat \<Rightarrow> nat) \<Rightarrow> string \<Rightarrow> string" where
  "Unescape lower in0 = unescape_fmt_loop lower in0 []"

subsection \<open>Escaped text has no formatting codes\<close>

abbreviation meta_free :: "string \<Rightarrow> bool" where
  "meta_free s \<equiv> list_all (\<lambda>c. \<not> is_meta c) s"

lemma is_meta_byte: "is_meta c \<longleftrightarrow> byte c \<in> {2, 3, 17, 22, 29, 30, 31, 15}"
proof -
  have "map byte metacharacters = [2, 3, 17, 22, 29, 30, 31, 15]" by code_simp
  moreover have "c \<in> set metacharacters \<longleftrightarrow> byte c \<in> set (map byte metacharacters)"
    by (auto simp: image_iff)
  ultimately show ?thesis unfolding is_meta_def by (simp only: set_simps)
qed

definition meta_rune :: "nat \<Rightarrow> bool" where
  "meta_rune r \<longleftrightarrow> r \<in> {2, 3, 17, 22, 29, 30, 31, 15}"

lemma meta_free_EncodeRune: "\<not> meta_rune r \<Longrightarrow> meta_free (EncodeRune r)"
proof (cases "r < 128")
  case True
  then show "\<not> meta_rune r \<Longrightarrow> ?thesis" by (simp add: EncodeRune_1 is_meta_byte meta_rune_def)
next
  case False
  then show ?thesis
    using EncodeRune_high [of r] unfolding list_all_iff is_meta_byte by fastforce
qed

lemma is_digit_not_meta: "is_digit c \<Longrightarrow> \<not> is_meta c"
  by (auto simp: is_digit_def is_meta_byte)

lemma numtocolour_meta_free: "list_all (\<lambda>(k, v). meta_free v)
  [(''99'', ''default''), (''15'', ''light grey''), (''14'', ''grey''), (''13'', ''pink''),
     (''12'', ''light blue''), (''11'', ''light cyan''), (''10'', ''cyan''), (''09'', ''light green''),
     (''08'', ''yellow''), (''07'', ''orange''), (''06'', ''magenta''), (''05'', ''brown''), (''04'', ''red''),
     (''03'', ''green''), (''02'', ''blue''), (''01'', ''black''), (''00'', ''white''), (''9'', ''light green''),
     (''8'', ''yellow''), (''7'', ''orange''), (''6'', ''magenta''), (''5'', ''brown''), (''4'', ''red''),
     (''3'', ''green''), (''2'', ''blue''), (''1'', ''black''), (''0'', ''white'')]"
  by (simp add: is_meta_byte)

lemma colour_name_meta_free: "meta_free b \<Longrightarrow> meta_free (colour_name b)"
  using numtocolour_meta_free unfolding colour_name_def numtocolour_def
  by (auto split: option.splits dest!: map_of_SomeD simp: list_all_iff)

lemma escape_back_meta_free:
  assumes "escape_back rs = Some (b, rs')" "list_all (\<lambda>r. \<not> meta_rune r) rs"
  shows "meta_free b \<and> list_all (\<lambda>r. \<not> meta_rune r) rs'"
proof -
  have d: "list_all (\<lambda>r. \<not> meta_rune r) (drop n rs)" for n
    using assms(2) by (auto simp: list_all_iff dest: in_set_dropD)
  have n: "n < length rs \<Longrightarrow> meta_free (EncodeRune (rs ! n))" for n
    using assms(2) by (intro meta_free_EncodeRune) (simp add: list_all_length)
  from assms(1) show ?thesis
    using d d [of 0] n [of 1] n [of 2] by (auto simp: escape_back_def Let_def split: if_splits)
qed

lemma escape_colour_meta_free:
  assumes "escape_colour rs = Some (t, rs')" "list_all (\<lambda>r. \<not> meta_rune r) rs"
  shows "meta_free t \<and> list_all (\<lambda>r. \<not> meta_rune r) rs'"
proof (cases "length rs < 1 \<or> \<not> isDigit (rs ! 0)")
  case True
  with assms show ?thesis by (auto simp: escape_colour_def is_meta_byte)
next
  case False
  have d: "list_all (\<lambda>r. \<not> meta_rune r) (drop n rs)" for n
    using assms(2) by (auto simp: list_all_iff dest: in_set_dropD)
  have n: "n < length rs \<Longrightarrow> meta_free (EncodeRune (rs ! n))" for n
    using assms(2) by (intro meta_free_EncodeRune) (simp add: list_all_length)
  obtain fore rs2 where f: "escape_fore rs = (fore, rs2)" by (metis prod.exhaust)
  then have fore: "meta_free fore" "list_all (\<lambda>r. \<not> meta_rune r) rs2"
    using False d [of 1] d [of "Suc (Suc 0)"] n [of 0] n [of 1] by (auto simp: escape_fore_def Let_def split: if_splits)
  from assms(1) False f obtain bk where b: "escape_back rs2 = Some (bk, rs')"
    "t = ''['' @ colour_name fore @ (if colour_name bk \<noteq> [] then '','' @ colour_name bk else []) @ '']''"
    unfolding escape_colour_def by (auto simp: Let_def split: bind_splits)
  with escape_back_meta_free [OF b(1) fore(2)] colour_name_meta_free [OF fore(1)]
    colour_name_meta_free [of bk] show ?thesis by (simp add: is_meta_byte)
qed

lemma escape_loop_meta_free:
  "escape_loop rs out = Some t \<Longrightarrow> list_all (\<lambda>r. \<not> meta_rune r) rs \<Longrightarrow> meta_free out \<Longrightarrow> meta_free t"
proof (induction rs out rule: escape_loop.induct)
  case (1 rs out)
  have d: "list_all (\<lambda>r. \<not> meta_rune r) (drop n rs)" for n
    using "1.prems"(2) by (auto simp: list_all_iff dest: in_set_dropD)
  have n: "n < length rs \<Longrightarrow> meta_free (EncodeRune (rs ! n))" for n
    using "1.prems"(2) by (intro meta_free_EncodeRune) (simp add: list_all_length)
  consider "rs = []" | "rs \<noteq> []" "1 < length rs \<and> rs ! 0 = 36 \<and> rs ! 1 = 99"
    | "rs \<noteq> []" "\<not> (1 < length rs \<and> rs ! 0 = 36 \<and> rs ! 1 = 99)"
      "length rs > 2 \<and> rs ! 0 = 36 \<and> rs ! 1 = 36 \<and> rs ! 2 = 99"
    | "rs \<noteq> []" "\<not> (1 < length rs \<and> rs ! 0 = 36 \<and> rs ! 1 = 99)"
      "\<not> (length rs > 2 \<and> rs ! 0 = 36 \<and> rs ! 1 = 36 \<and> rs ! 2 = 99)"
    by blast
  then show ?case
  proof cases
    case 1
    with "1.prems" show ?thesis by (simp add: escape_loop.simps)
  next
    case 2
    with "1.prems"(1) obtain w rs' where c: "escape_colour (drop 2 rs) = Some (w, rs')"
      "escape_loop rs' (out @ ''$c'' @ w) = Some t"
      by (subst (asm) escape_loop.simps) (auto split: option.splits)
    with escape_colour_meta_free [OF c(1) d] "1.prems"(3) "1.IH"(1) [OF _ 2(2) c(1) refl c(2)] 2
    show ?thesis by (simp add: is_meta_byte)
  next
    case 3
    then have "escape_loop (drop 3 rs) (out @ EncodeRune (rs ! 0) @ EncodeRune (rs ! 1) @ EncodeRune (rs ! 2)) = Some t"
      using "1.prems"(1) by (subst (asm) escape_loop.simps) (simp only: if_False, simp)
    with "1.prems" "1.IH"(2) [OF _ 3(2,3)] d n [of 0] n [of 1] n [of 2] 3 show ?thesis by simp
  next
    case 4
    then have "escape_loop (drop 1 rs) (out @ EncodeRune (rs ! 0)) = Some t"
      using "1.prems"(1) by (subst (asm) escape_loop.simps) (simp only: if_False, simp)
    with "1.prems" "1.IH"(3) [OF _ 4(2,3)] d n [of 0] 4(1) show ?thesis by simp
  qed
qed

lemma runes_ascii: "r \<in> set (runes s) \<Longrightarrow> r < 128 \<Longrightarrow> char_of r \<in> set s"
proof (induction s rule: runes.induct)
  case (1 s)
  show ?case
  proof (cases "s = []")
    case False
    have "fst (DecodeRune s) < 128 \<Longrightarrow> char_of (fst (DecodeRune s)) \<in> set s"
      using False
    proof (cases rule: DecodeRune_cases [where s = s])
      case (seq u t)
      assume small: "fst (DecodeRune s) < 128"
      then have "u = [char_of (fst (DecodeRune u))]"
        using EncodeRune_DecodeRune [OF seq(2)] seq by (simp add: EncodeRune_1)
      with seq show ?thesis by (metis in_set_conv_decomp append_Cons append_Nil fst_conv)
    qed (simp add: RuneError_def)
    moreover have "char_of r \<in> set s" if "r \<in> set (runes (drop (snd (DecodeRune s)) s))"
      using "1.IH" [OF False that "1.prems"(2)] by (rule in_set_dropD)
    ultimately show ?thesis using "1.prems" False by (subst (asm) runes.simps) auto
  qed (use 1 in simp)
qed

lemma fmt_valtoescape_cases:
  obtains (plain) "fmt_valtoescape c = [c]" "c \<noteq> CHR ''$''" "\<not> is_meta c"
  | (colour) "c = colour" "fmt_valtoescape c = ''$c''"
  | (dollar) "c = CHR ''$''" "fmt_valtoescape c = ''$$''"
  | (code) x where "is_meta c" "c \<noteq> colour" "fmt_valtoescape c = [CHR ''$'', x]" "x \<noteq> CHR ''$''"
      "x \<noteq> CHR ''c''" "byte x < 128" "\<not> is_meta x" "escapetoval x = Some [c]"
proof -
  have pick: thesis if "is_meta c" "c \<noteq> colour" "fmt_valtoescape c = [CHR ''$'', x] \<and> x \<noteq> CHR ''$'' \<and>
      x \<noteq> CHR ''c'' \<and> byte x < 128 \<and> \<not> is_meta x \<and> escapetoval x = Some [c]" for x
    using code that by blast
  consider "c \<notin> set metacharacters" "c \<noteq> CHR ''$''" | "c = CHR ''$''" | "c = colour" | "c = bold"
    | "c = monospace" | "c = reverseColour" | "c = italic" | "c = strikethrough" | "c = underline" | "c = reset"
    by (auto simp: metacharacters_def)
  then show thesis
  proof cases
    case 1
    then show thesis by (intro plain) (simp_all add: fmt_valtoescape_def metacharacters_def is_meta_def)
  next
    case 2
    then show thesis by (intro dollar) (simp_all add: fmt_valtoescape_def)
  next
    case 3
    then show thesis by (intro colour) (simp_all add: fmt_valtoescape_def)
  next
    case 4
    show thesis
      by (rule pick [of "CHR ''b''"]) (simp_all add: 4 fmt_valtoescape_def escapetoval_def is_meta_def metacharacters_def)
  next
    case 5
    show thesis
      by (rule pick [of "CHR ''m''"]) (simp_all add: 5 fmt_valtoescape_def escapetoval_def is_meta_def metacharacters_def)
  next
    case 6
    show thesis
      by (rule pick [of "CHR ''v''"]) (simp_all add: 6 fmt_valtoescape_def escapetoval_def is_meta_def metacharacters_def)
  next
    case 7
    show thesis
      by (rule pick [of "CHR ''i''"]) (simp_all add: 7 fmt_valtoescape_def escapetoval_def is_meta_def metacharacters_def)
  next
    case 8
    show thesis
      by (rule pick [of "CHR ''s''"]) (simp_all add: 8 fmt_valtoescape_def escapetoval_def is_meta_def metacharacters_def)
  next
    case 9
    show thesis
      by (rule pick [of "CHR ''u''"]) (simp_all add: 9 fmt_valtoescape_def escapetoval_def is_meta_def metacharacters_def)
  next
    case 10
    show thesis
      by (rule pick [of "CHR ''r''"]) (simp_all add: 10 fmt_valtoescape_def escapetoval_def is_meta_def metacharacters_def)
  qed
qed

lemma fmt_valtoescape_meta_free: "x \<in> set (fmt_valtoescape c) \<Longrightarrow> \<not> is_meta x"
  by (cases c rule: fmt_valtoescape_cases) (auto simp: is_meta_def metacharacters_def)

lemma Escape_meta_free: "Escape s = Some t \<Longrightarrow> meta_free t"
proof -
  let ?e = "concat (map fmt_valtoescape s)"
  have free: "meta_free ?e" using fmt_valtoescape_meta_free unfolding list_all_iff by auto
  have "\<not> meta_rune r" if "r \<in> set (runes ?e)" for r
  proof
    assume m: "meta_rune r"
    then have "r < 128" by (auto simp: meta_rune_def)
    with that have "char_of r \<in> set ?e" by (rule runes_ascii)
    with free have "\<not> is_meta (char_of r)" unfolding list_all_iff by blast
    with m \<open>r < 128\<close> show False by (auto simp: is_meta_byte meta_rune_def)
  qed
  moreover assume "Escape s = Some t"
  ultimately show ?thesis using escape_loop_meta_free [of "runes ?e" "[]" t] by (simp add: Escape_def list_all_iff)
qed

subsection \<open>Round trip of text without colours\<close>

definition esc_rune :: "nat \<Rightarrow> nat list" where
  "esc_rune r = (if r < 128 then map byte (fmt_valtoescape (char_of r)) else [r])"

lemma fmt_valtoescape_ascii: "byte c < 128 \<Longrightarrow> \<forall>x\<in>set (fmt_valtoescape c). byte x < 128"
  by (cases c rule: fmt_valtoescape_cases) auto

lemma fmt_valtoescape_high1: "128 \<le> byte c \<Longrightarrow> fmt_valtoescape c = [c]"
  by (cases c rule: fmt_valtoescape_cases) (simp_all add: is_meta_byte)

lemma fmt_valtoescape_high: "\<forall>x\<in>set u. 128 \<le> byte x \<Longrightarrow> concat (map fmt_valtoescape u) = u"
  by (induction u) (simp_all add: fmt_valtoescape_high1)

lemma runes_ascii_append: "\<forall>x\<in>set a. byte x < 128 \<Longrightarrow> runes (a @ t) = map byte a @ runes t"
  by (induction a) auto

lemma DecodeRune_high:
  assumes "utf8_seq u" "\<forall>x\<in>set u. 128 \<le> byte x" shows "128 \<le> fst (DecodeRune u)"
proof (rule ccontr)
  assume "\<not> ?thesis"
  then have "\<exists>r :: nat. u = [char_of r] \<and> r < 128"
    using EncodeRune_DecodeRune [OF assms(1)] EncodeRune_1 [of "fst (DecodeRune u)"]
    by (intro exI [of _ "fst (DecodeRune u)"]) simp
  with assms(2) show False by auto
qed

lemma runes_escaped:
  "ValidString s \<Longrightarrow> runes (concat (map fmt_valtoescape s)) = concat (map esc_rune (runes s)) \<and>
    ValidString (concat (map fmt_valtoescape s))"
proof (induction s rule: ValidString_induct)
  case (seq u t)
  have "(\<exists>c. u = [c] \<and> byte c < 128) \<or> (\<forall>x\<in>set u. 128 \<le> byte x)"
    using seq(1) by (cases rule: utf8_seq_cases) auto
  then show ?case
  proof
    assume "\<exists>c. u = [c] \<and> byte c < 128"
    then obtain c where c: "u = [c]" "byte c < 128" by blast
    have a: "\<forall>x\<in>set (fmt_valtoescape c). byte x < 128" by (rule fmt_valtoescape_ascii) (rule c)
    with c seq show ?thesis by (simp add: runes_ascii_append esc_rune_def ValidString_ascii)
  next
    assume h: "\<forall>x\<in>set u. 128 \<le> byte x"
    with seq DecodeRune_high [OF seq(1) h] ValidString_seq [OF seq(1)] show ?thesis
      by (simp add: fmt_valtoescape_high esc_rune_def)
  qed
qed simp

lemma esc_rune_cases:
  assumes "r \<noteq> 3"
  obtains (plain) "r \<noteq> 36" "esc_rune r = [r]" | (dollar) "r = 36" "esc_rune r = [36, 36]"
    | (code) x where "esc_rune r = [36, x]" "x < 128" "x \<noteq> 36" "x \<noteq> 99"
proof (cases "r < 128")
  case True
  let ?c = "char_of r"
  have b: "byte ?c = r" using True by simp
  have d: "char_of (36 :: nat) = CHR ''$''" by (rule char_eqI) simp
  show thesis
  proof (cases ?c rule: fmt_valtoescape_cases)
    case plain
    then show thesis using True b d by (intro that(1)) (auto simp: esc_rune_def)
  next
    case dollar
    then show thesis using True b by (intro that(2)) (auto simp: esc_rune_def)
  next
    case colour
    then show thesis using b assms by simp
  next
    case (code x)
    then have "byte x \<noteq> 36" "byte x \<noteq> 99"
      using char_eqI [of x "CHR ''$''"] char_eqI [of x "CHR ''c''"] by auto
    with code True show thesis by (intro that(3) [of "byte x"]) (simp_all add: esc_rune_def)
  qed
qed (intro plain, simp_all add: esc_rune_def)

lemma escape_loop_dollar:
  assumes "e = [] \<or> (e ! 0 \<noteq> 99 \<and> (e ! 0 = 36 \<longrightarrow> 1 < length e \<and> e ! 1 \<noteq> 99))"
  shows "escape_loop (36 # 36 # e) out = escape_loop e (out @ EncodeRune 36 @ EncodeRune 36)"
proof -
  have "escape_loop (36 # 36 # e) out = escape_loop (36 # e) (out @ EncodeRune 36)"
    by (subst escape_loop.simps) (use assms in \<open>cases e; auto\<close>)
  also have "\<dots> = escape_loop e (out @ EncodeRune 36 @ EncodeRune 36)"
    by (subst escape_loop.simps) (use assms in \<open>cases e; auto\<close>)
  finally show ?thesis .
qed

lemma escape_loop_colour_free:
  "3 \<notin> set rs \<Longrightarrow> escape_loop (concat (map esc_rune rs)) out = Some (out @ string_of_runes (concat (map esc_rune rs)))"
proof (induction "length rs" arbitrary: rs out rule: less_induct)
  case less
  show ?case
  proof (cases rs)
    case Nil
    then show ?thesis by (simp add: escape_loop.simps)
  next
    case (Cons r rs')
    let ?e = "concat (map esc_rune rs')"
    have IH: "escape_loop ?e out = Some (out @ string_of_runes ?e)" for out
      using less Cons by simp
    from less.prems Cons have "r \<noteq> 3" by simp
    then show ?thesis
    proof (cases rule: esc_rune_cases)
      case plain
      then have "escape_loop (r # ?e) out = escape_loop ?e (out @ EncodeRune r)"
        by (subst escape_loop.simps) simp
      with IH plain Cons show ?thesis by simp
    next
      case (code x)
      then have "escape_loop (36 # x # ?e) out = escape_loop (x # ?e) (out @ EncodeRune 36)"
        by (subst escape_loop.simps) simp
      also have "\<dots> = escape_loop ?e (out @ EncodeRune 36 @ EncodeRune x)"
        using code by (subst escape_loop.simps) simp
      finally show ?thesis using IH code Cons by simp
    next
      case dollar
      show ?thesis
      proof (cases "rs' \<noteq> [] \<and> hd rs' = 99")
        case True
        then obtain q where q: "rs' = 99 # q" by (cases rs') auto
        have c: "esc_rune 99 = [99]" by (simp add: esc_rune_def fmt_valtoescape_def go_eval)
        have "escape_loop (36 # 36 # 99 # concat (map esc_rune q)) out
            = escape_loop (concat (map esc_rune q)) (out @ EncodeRune 36 @ EncodeRune 36 @ EncodeRune 99)"
          by (subst escape_loop.simps) simp
        moreover have "escape_loop (concat (map esc_rune q)) out = Some (out @ string_of_runes (concat (map esc_rune q)))" for out
          using less Cons q by simp
        ultimately show ?thesis using Cons q c dollar by simp
      next
        case False
        have e0: "?e = [] \<or> (?e ! 0 \<noteq> 99 \<and> (?e ! 0 = 36 \<longrightarrow> 1 < length ?e \<and> ?e ! 1 \<noteq> 99))"
        proof (cases rs')
          case (Cons r2 q)
          with less.prems \<open>rs = r # rs'\<close> have "r2 \<noteq> 3" by simp
          then show ?thesis using Cons False by (cases rule: esc_rune_cases) auto
        qed simp
        then have "escape_loop (36 # 36 # ?e) out = escape_loop ?e (out @ EncodeRune 36 @ EncodeRune 36)"
          by (rule escape_loop_dollar)
        then show ?thesis using IH Cons dollar by simp
      qed
    qed
  qed
qed

lemma Escape_colour_free:
  assumes "ValidString s" "colour \<notin> set s"
  shows "Escape s = Some (concat (map fmt_valtoescape s))"
proof -
  have "char_of (3 :: nat) = colour" by (rule char_eqI) simp
  then have "3 \<notin> set (runes s)" using runes_ascii [of 3 s] assms(2) by auto
  then show ?thesis
    using runes_escaped [OF assms(1)] escape_loop_colour_free [of "runes s" "[]"]
      string_of_runes_runes [of "concat (map fmt_valtoescape s)"] by (simp add: Escape_def)
qed

lemma unescape_escaped:
  "colour \<notin> set s \<Longrightarrow> unescape_fmt_loop lower (concat (map fmt_valtoescape s)) out = out @ s"
proof (induction s arbitrary: out)
  case Nil
  then show ?case by (simp add: unescape_fmt_loop.simps)
next
  case (Cons c s)
  let ?e = "concat (map fmt_valtoescape s)"
  show ?case
  proof (cases c rule: fmt_valtoescape_cases)
    case plain
    with Cons show ?thesis by (subst unescape_fmt_loop.simps) simp
  next
    case dollar
    then have "escapetoval (CHR ''$'') = Some [c]" by (simp add: escapetoval_def)
    with dollar Cons show ?thesis by (subst unescape_fmt_loop.simps) simp
  next
    case (code x)
    with Cons show ?thesis by (subst unescape_fmt_loop.simps) simp
  qed (use Cons in simp)
qed

interpretation fmt_escape: codec "\<lambda>s. concat (map fmt_valtoescape s)" "Unescape lower"
  "\<lambda>s. colour \<notin> set s" for lower
  by unfold_locales (simp add: Unescape_def unescape_escaped)

subsection \<open>Properties\<close>

text \<open>C40. Valid UTF-8 without colour codes survives escaping and unescaping.\<close>

theorem Escape_Unescape:
  assumes "ValidString s" "colour \<notin> set s"
  shows "\<exists>t. Escape s = Some t \<and> Unescape lower t = s"
  using Escape_colour_free [OF assms] fmt_escape.dec_enc [OF assms(2)] by blast

lemma Escape_Unescape_witness:
  "\<exists>t. Escape (''a$c'' @ [bold, reset]) = Some t \<and> Unescape id t = ''a$c'' @ [bold, reset]"
  by (rule Escape_Unescape) (simp_all add: ValidString_ascii)

text \<open>Whatever the input, the escaped text has no formatting codes left.\<close>

lemma Escape_no_codes:
  assumes "Escape s = Some t" shows "list_all (\<lambda>c. \<not> is_meta c) t"
  by (rule Escape_meta_free [OF assms])

lemma Escape_no_codes_witness: "list_all (\<lambda>c. \<not> is_meta c) ''$ba''"
proof (rule Escape_no_codes [of "[bold] @ ''a''"])
  have "Escape ([bold] @ ''a'') = Some (concat (map fmt_valtoescape ([bold] @ ''a'')))"
    by (rule Escape_colour_free) (simp_all add: ValidString_ascii)
  then show "Escape ([bold] @ ''a'') = Some ''$ba''" by (simp add: fmt_valtoescape_def)
qed

text \<open>Escaping of two raw messages with a background colour, computed from the definitions.\<close>

lemma runes_codes:
  "runes (concat (map fmt_valtoescape (colour # ''4,2x''))) = [36, 99, 52, 44, 50, 120]"
  "runes (concat (map fmt_valtoescape (colour # ''4,12x''))) = [36, 99, 52, 44, 49, 50, 120]"
  by (simp_all add: fmt_valtoescape_def)

lemma escape_12: "Escape (colour # ''4,12x'') = Some ''$c[red,black]2x''"
proof -
  have b: "escape_back [44, 49, 50, 120] = Some (''1'', [50, 120])"
    by (simp add: escape_back_def isDigit_def EncodeRune_1 char_eval)
  have "escape_colour [52, 44, 49, 50, 120] = Some (''[red,black]'', [50, 120])"
    by (simp add: escape_colour_def escape_fore_def b isDigit_def EncodeRune_1 char_eval colour_name_def
        numtocolour_def)
  then show ?thesis
    unfolding Escape_def runes_codes by (simp add: escape_loop.simps EncodeRune_1 char_eval)
qed

text \<open>\<open>Escape\<close> panics on a background colour followed by exactly one more character: it looks at the
  second rune of what is left, not the first.\<close>

lemma Escape_panics: "Escape (colour # ''4,2x'') = None"
proof -
  have "escape_back [44, 50, 120] = None" by (simp add: escape_back_def isDigit_def)
  then have "escape_colour [52, 44, 50, 120] = None"
    by (simp add: escape_colour_def escape_fore_def isDigit_def)
  then show ?thesis unfolding Escape_def runes_codes by (simp add: escape_loop.simps)
qed

text \<open>For the same reason \<open>Escape\<close> loses the second digit of a background colour into the text: the
  colour changes from 12 to 1, and the text shown from \<open>x\<close> to \<open>2x\<close>.\<close>

lemma Escape_wrong_background:
  "Escape (colour # ''4,12x'') = Some ''$c[red,black]2x'' \<and>
    map BackgroundColor (Split (colour # ''4,12x'')) = [\<lparr>IsSet = True, Value = 12\<rparr>] \<and>
    Strip (colour # ''4,12x'') = ''x'' \<and>
    colour_code lower ''[red,black]'' ''2x'' = ''4,01'' \<and> Strip (colour # ''4,012x'') = ''2x''"
proof -
  have r1: "colorForeBackRe ''4,12x'' = Some (''4'', ''12'', ''x'')"
    "colorForeBackRe ''4,012x'' = Some (''4'', ''01'', ''2x'')"
    by (simp_all add: colorForeBackRe_def colorForeRe_def is_digit_def)
  have m: "is_meta colour" "\<not> is_meta (CHR ''x'')" "\<not> is_meta (CHR ''2'')"
    by (simp_all add: is_meta_byte)
  have s: "Split (colour # ''4,12x'') = [zero_chunk\<lparr>ForegroundColor := ParseColor ''4'',
      BackgroundColor := ParseColor ''12'', Content := ''x''\<rparr>]"
    by (simp add: Split_def split_loop.simps m r1 apply_meta_def)
  have l: "resolveToColourCodes lower ''[red,black]'' = (''4'', ''1'')"
    by (simp add: resolveToColourCodes_def resolveToColourCode_def TrimPrefix_def HasPrefix_def
        TrimSuffix_def HasSuffix_def TrimSpace_def explode_ascii ToLower_def lower_byte_def colourDigits_def
        is_digit_def colourcodesTruncated_def IsSpace_def DecodeRune.simps)
  have "colour_code lower ''[red,black]'' ''2x'' = ''4,01''"
    by (simp add: colour_code_def l is_digit_def)
  moreover have "ParseColor ''12'' = \<lparr>IsSet = True, Value = 12\<rparr>"
    by (simp add: ParseColor_def ParseUint8_def digits_value_def is_digit_def)
  ultimately show ?thesis
    using escape_12 s by (simp add: Strip_render m r1 apply_meta_def)
qed

text \<open>The pair is no inverse when a dollar sign stands in front of a colour code: the escaped form is
  ambiguous, and \<open>Unescape\<close> reads the bracketed text behind it as a colour.\<close>

lemma Escape_ambiguous:
  "Escape (''$'' @ colour # ''[red]'') = Some ''$$$c[red]'' \<and>
    Unescape lower ''$$$c[red]'' = ''$'' @ colour # ''4''"
proof -
  have r: "runes (concat (map fmt_valtoescape (''$'' @ colour # ''[red]''))) =
      [36, 36, 36, 99, 91, 114, 101, 100, 93]"
    by (simp add: fmt_valtoescape_def)
  have l: "resolveToColourCodes lower ''[red]'' = (''4'', [])"
    by (simp add: resolveToColourCodes_def resolveToColourCode_def TrimPrefix_def HasPrefix_def
        TrimSuffix_def HasSuffix_def TrimSpace_def explode_ascii ToLower_def lower_byte_def colourDigits_def
        is_digit_def colourcodesTruncated_def IsSpace_def DecodeRune.simps)
  have "colour_code lower ''[red]'' [] = ''4''" by (simp add: colour_code_def l is_digit_def)
  moreover have "bracketedExpr ''[red]'' = ''[red]''" by (simp add: bracketedExpr_def)
  ultimately have "Unescape lower ''$$$c[red]'' = ''$'' @ colour # ''4''"
    by (simp add: Unescape_def unescape_fmt_loop.simps escapetoval_def)
  then show ?thesis unfolding Escape_def r by (simp add: escape_loop.simps EncodeRune_1 char_eval)
qed

end
