(* ===== verification/Go_Strconv.thy ===== *)
theory Go_Strconv
  imports Go_Strings
begin

text \<open>
  \<^verbatim>\<open>strconv.FormatInt\<close> and \<^verbatim>\<open>strconv.ParseInt\<close> with an explicit base, and their round trip. A result \<open>None\<close>
  of \<open>ParseInt\<close> is a non-nil error (a syntax error or a value outside the \<open>bits\<close>-bit range).
\<close>

subsection \<open>The functions\<close>

definition digit_char :: "nat \<Rightarrow> char" where
  "digit_char d = (if d < 10 then char_of (48 + d) else char_of (87 + d))"

definition digit_val :: "char \<Rightarrow> nat option" where
  "digit_val c =
    (let b = byte c in
     if 48 \<le> b \<and> b \<le> 57 then Some (b - 48)
     else if 97 \<le> b \<and> b \<le> 122 then Some (b - 87)
     else if 65 \<le> b \<and> b \<le> 90 then Some (b - 55)
     else None)"

function FormatUint :: "nat \<Rightarrow> nat \<Rightarrow> string" where
  "FormatUint n base =
    (if n < base \<or> base < 2 then [digit_char n]
     else FormatUint (n div base) base @ [digit_char (n mod base)])"
  by pat_completeness auto
termination
  by (relation "measure fst") auto

declare FormatUint.simps [simp del, go_eval]

definition FormatInt :: "int \<Rightarrow> nat \<Rightarrow> string" where
  "FormatInt i base =
    (if i < 0 then CHR ''-'' # FormatUint (nat (- i)) base else FormatUint (nat i) base)"

fun parse_digits :: "nat \<Rightarrow> string \<Rightarrow> nat \<Rightarrow> nat option" where
  "parse_digits base [] n = Some n"
| "parse_digits base (c # s) n =
    (case digit_val c of
       None \<Rightarrow> None
     | Some d \<Rightarrow> if base \<le> d then None else parse_digits base s (n * base + d))"

definition ParseUint :: "string \<Rightarrow> nat \<Rightarrow> nat \<Rightarrow> nat option" where
  "ParseUint s base bits =
    (if s = [] then None
     else case parse_digits base s 0 of
            None \<Rightarrow> None
          | Some n \<Rightarrow> if n < 2 ^ bits then Some n else None)"

definition ParseInt :: "string \<Rightarrow> nat \<Rightarrow> nat \<Rightarrow> int option" where
  "ParseInt s base bits =
    (if s = [] then None
     else
       let neg = (s ! 0 = CHR ''-'');
           u = (if s ! 0 = CHR ''+'' \<or> neg then drop 1 s else s)
       in case ParseUint u base bits of
            None \<Rightarrow> None
          | Some un \<Rightarrow>
              if \<not> neg \<and> un \<ge> 2 ^ (bits - 1) then None
              else if neg \<and> un > 2 ^ (bits - 1) then None
              else Some (if neg then - int un else int un))"

subsection \<open>Round trip\<close>

lemma digit_val_char: "d < 36 \<Longrightarrow> digit_val (digit_char d) = Some d"
  by (simp add: digit_val_def digit_char_def)

lemma parse_digits_append:
  "parse_digits base (s @ t) n = (case parse_digits base s n of None \<Rightarrow> None | Some m \<Rightarrow> parse_digits base t m)"
  by (induction s arbitrary: n) (simp_all split: option.split)

lemma parse_FormatUint:
  assumes "2 \<le> base" "base \<le> 36"
  shows "parse_digits base (FormatUint n base) 0 = Some n"
proof (induction n rule: less_induct)
  case (less n)
  show ?case
  proof (cases "n < base")
    case True
    with assms show ?thesis by (subst FormatUint.simps) (simp add: digit_val_char)
  next
    case False
    then have "n div base < n" using assms by simp
    note IH = less.IH [OF this]
    have "n mod base < base" "n mod base < 36"
      using assms mod_less_divisor [of base n] by linarith+
    then have d: "\<not> base \<le> n mod base" "digit_val (digit_char (n mod base)) = Some (n mod base)"
      by (simp_all only: not_le digit_val_char)
    show ?thesis
      using IH False assms by (subst FormatUint.simps) (simp add: parse_digits_append d)
  qed
qed

lemma FormatUint_not_Nil [simp]: "FormatUint n base \<noteq> []"
  by (subst FormatUint.simps) simp

lemma digit_char_alnum: "d < 36 \<Longrightarrow> byte (digit_char d) \<ge> 48 \<and> byte (digit_char d) \<le> 122"
  by (simp add: digit_char_def)

lemma FormatUint_alnum:
  assumes "2 \<le> base" "base \<le> 36" "c \<in> set (FormatUint n base)"
  shows "48 \<le> byte c \<and> byte c \<le> 122"
  using assms(3)
proof (induction n rule: less_induct)
  case (less n)
  show ?case
  proof (cases "n < base")
    case True
    with assms(2) less.prems digit_char_alnum [of n] show ?thesis
      by (subst (asm) FormatUint.simps) simp
  next
    case False
    then have "n div base < n" "n mod base < 36" using assms(1,2) mod_less_divisor [of base n] by (simp, linarith)
    with less.IH [of "n div base"] less.prems False assms(1) digit_char_alnum [of "n mod base"]
    show ?thesis unfolding FormatUint.simps [of n] by (auto simp del: div_less_dividend)
  qed
qed

lemma ParseInt_FormatInt:
  assumes "2 \<le> base" "base \<le> 36" "- (2 ^ (bits - 1)) \<le> i" "i < 2 ^ (bits - 1)" "0 < bits"
  shows "ParseInt (FormatInt i base) base bits = Some i"
proof -
  have pow: "(2 :: nat) ^ (bits - 1) < 2 ^ bits" using assms(5) by simp
  have P: "ParseUint (FormatUint n base) base bits = Some n" if "n \<le> 2 ^ (bits - 1)" for n
    using le_less_trans [OF that pow] by (simp add: ParseUint_def parse_FormatUint [OF assms(1,2)])
  show ?thesis
  proof (cases "i < 0")
    case True
    then have "nat (- i) \<le> 2 ^ (bits - 1)" using assms(3) by (simp add: nat_le_iff)
    from P [OF this] True this show ?thesis by (simp add: FormatInt_def ParseInt_def Let_def)
  next
    case False
    then have n: "nat i < 2 ^ (bits - 1)" using assms(4) by (simp add: nat_less_iff)
    let ?F = "FormatUint (nat i) base"
    have "?F ! 0 \<in> set ?F" by simp
    from FormatUint_alnum [OF assms(1,2) this] have "?F ! 0 \<noteq> CHR ''+''" "?F ! 0 \<noteq> CHR ''-''" by auto
    with P [of "nat i"] n False show ?thesis by (simp add: FormatInt_def ParseInt_def)
  qed
qed

end
