(* ===== verification/Event_Connection.thy ===== *)
theory Event_Connection
  imports Msg_Line Go_Strconv "HOL-Library.Word"
begin

unbundle bit_operations_syntax

text \<open>
  \<^verbatim>\<open>ircevent/irc_struct.go\<close> and the first part of \<^verbatim>\<open>ircevent/irc.go\<close>: the \<open>Connection\<close> with its
  fields in the groups the source has, channels, error state, and the operations that send.

  A method is a function on the \<open>Connection\<close>. A method that may panic half-way is an action
  (type \<open>act\<close>): it returns the state it leaves behind in any case, and no value when it panics, since
  \<open>handleCallbackPanic\<close> keeps what was done before. The bytes handed to the writer goroutine are kept
  in order in \<open>pwrite\<close>; the socket, the log and the blocking of a full queue are left out. A method's
  critical section is one step: the fields are only read and written under \<open>stateMutex\<close>,
  \<open>eventsMutex\<close> or \<open>batchMutex\<close>.
\<close>

subsection \<open>Errors and results\<close>

datatype event_error =
    ClientDisconnected
  | ServerTimedOut
  | ServerDisconnected
  | SASLFailed
  | CapabilityNotNegotiated
  | NoLabeledResponse
  | serverDidNotQuit
  | ClientHasQuit
  | NoServerProvided
  | KeepAliveTooShort
  | UnsupportedMechanism string
  | SASLRefused string
  | MessageError msg_error
  | NetError string

text \<open>
  The package's own handlers, registered by \<open>setupCallbacks\<close>, and the client's: a client function is
  represented by a value of the parameter type \<open>'u\<close>.
\<close>

datatype lib_handler =
    HandlePing
  | HandlePong
  | HandleUnavailableNick
  | HandleRplWelcome
  | HandleISupport
  | HandleNick
  | HandleError
  | HandleCAP
  | HandleAuthenticate
  | HandleSASLRefused
  | HandleSASLAccepted
  | HandleCTCPVersion
  | HandleCTCPUserInfo
  | HandleCTCPClientInfo
  | HandleCTCPTime
  | HandleCTCPPing
  | HandleRegistration
  | HandleStandardReplies

datatype 'u Callback = Lib lib_handler | Client 'u

record 'c callbackPair =
  pair_id :: "64 word"
  pair_callback :: 'c

record CallbackID =
  cid_command :: string
  cid_id :: "64 word"

record saslResult =
  Failed :: bool
  Err :: "event_error option"

record capResult =
  capName :: string
  ack :: bool

subsection \<open>Batches in the store\<close>

text \<open>
  \<open>*Batch\<close> pointers are addresses in a store: the code links a nested batch into its parent while it is
  still open, and appends to it through the pointer later.
\<close>

type_synonym addr = nat

record Batch =
  batch_Message :: Message
  Items :: "addr list"

record batchInProgress =
  bip_createdAt :: int
  bip_label :: "64 word"
  bip_batch :: addr

record 'l pendingLabel =
  pl_createdAt :: int
  pl_callback :: 'l

subsection \<open>The Connection\<close>

datatype chan_state = NilChan | OpenChan | ClosedChan

record Config =
  Server :: string
  irc_Nick :: string
  irc_User :: string
  RealName :: string
  WebIRC :: "string list"
  Password :: string
  RequestCaps :: "string list"
  SASLLogin :: string
  SASLPassword :: string
  SASLMech :: string
  SASLOptional :: bool
  QuitMessage :: string
  Version :: string
  Timeout :: int
  KeepAlive :: int
  ReconnectFreq :: int
  MaxLineLen :: int
  UseSASL :: bool
  EnableCTCP :: bool
  AllowPanic :: bool
  AllowTruncation :: bool

record Networking = Config +
  end_chan :: chan_state
  pwrite :: "string list"
  socket :: bool
  lastError :: "event_error option"
  quitAt :: int
  running :: bool
  quit :: bool
  pingSent :: bool

record Protocol = Networking +
  currentNick :: string
  capsAdvertised :: "tag_map option"
  capsAcked :: tag_map
  isupport :: tag_map
  isupportPartial :: "tag_map option"
  nickCounter :: int
  registered :: bool
  welcomeChan :: nat
  saslChan :: "saslResult list"
  capsChan :: "capResult list"
  capsChanCap :: nat
  capFlags :: "32 word"

record ('u, 'b, 'l) Connection = Protocol +
  events :: "string \<rightharpoonup> 'u Callback callbackPair list"
  callbackCounter :: "64 word"
  batchCallbacks :: "'b callbackPair list"
  hasBaseCallbacks :: bool
  batch_heap :: "Batch list"
  batches :: "string \<rightharpoonup> batchInProgress"
  labelCallbacks :: "64 word \<rightharpoonup> 'l pendingLabel"
  labelCounter :: "64 word"

text \<open>The zero value of the struct, as \<open>&Connection{}\<close> makes it.\<close>

definition zero_Connection :: "('u, 'b, 'l) Connection" where
  "zero_Connection = \<lparr>Server = [], irc_Nick = [], irc_User = [], RealName = [], WebIRC = [], Password = [],
    RequestCaps = [], SASLLogin = [], SASLPassword = [], SASLMech = [], SASLOptional = False,
    QuitMessage = [], Version = [], Timeout = 0, KeepAlive = 0, ReconnectFreq = 0, MaxLineLen = 0,
    UseSASL = False, EnableCTCP = False, AllowPanic = False, AllowTruncation = False,
    end_chan = NilChan, pwrite = [], socket = False, lastError = None, quitAt = 0, running = False,
    quit = False, pingSent = False,
    currentNick = [], capsAdvertised = None, capsAcked = Map.empty, isupport = Map.empty,
    isupportPartial = None, nickCounter = 0, registered = False, welcomeChan = 0, saslChan = [],
    capsChan = [], capsChanCap = 0, capFlags = 0,
    events = Map.empty, callbackCounter = 0, batchCallbacks = [], hasBaseCallbacks = False,
    batch_heap = [], batches = Map.empty, labelCallbacks = Map.empty, labelCounter = 0\<rparr>"

subsection \<open>Actions\<close>

type_synonym ('s, 'a) act = "'s \<Rightarrow> 'a option \<times> 's"

definition act_return :: "'a \<Rightarrow> ('s, 'a) act" where
  "act_return a = (\<lambda>s. (Some a, s))"

definition act_panic :: "('s, 'a) act" where
  "act_panic = (\<lambda>s. (None, s))"

definition act_bind :: "('s, 'a) act \<Rightarrow> ('a \<Rightarrow> ('s, 'b) act) \<Rightarrow> ('s, 'b) act" where
  "act_bind m f = (\<lambda>s. case m s of (None, s1) \<Rightarrow> (None, s1) | (Some a, s1) \<Rightarrow> f a s1)"

definition act_then :: "('s, 'a) act \<Rightarrow> ('s, 'b) act \<Rightarrow> ('s, 'b) act" where
  "act_then m n = act_bind m (\<lambda>_. n)"

definition act_modify :: "('s \<Rightarrow> 's) \<Rightarrow> ('s, unit) act" where
  "act_modify f = (\<lambda>s. (Some (), f s))"

fun act_for :: "'x list \<Rightarrow> ('x \<Rightarrow> ('s, 'a) act) \<Rightarrow> ('s, unit) act" where
  "act_for [] f = act_return ()"
| "act_for (x # xs) f = act_then (f x) (act_for xs f)"

named_theorems act_simps \<open>unfolding of actions\<close>

lemmas act_defs [act_simps] =
  act_return_def act_panic_def act_bind_def act_then_def act_modify_def

subsection \<open>The end channel and the error state\<close>

text \<open>Closing a channel twice panics (\<open>None\<close>).\<close>

definition close_chan :: "chan_state \<Rightarrow> chan_state go" where
  "close_chan c = (if c = OpenChan then Some ClosedChan else None)"

definition closeEndNoMutex :: "('u, 'b, 'l) Connection \<Rightarrow> ('u, 'b, 'l) Connection go" where
  "closeEndNoMutex irc =
    (if running irc then do {
       c \<leftarrow> close_chan (end_chan irc);
       Some (irc\<lparr>running := False, end_chan := c\<rparr>)
     }
     else Some irc)"

definition closeEnd :: "('u, 'b, 'l) Connection \<Rightarrow> ('u, 'b, 'l) Connection go" where
  "closeEnd irc = closeEndNoMutex irc"

definition setError :: "event_error \<Rightarrow> ('u, 'b, 'l) Connection \<Rightarrow> ('u, 'b, 'l) Connection go" where
  "setError err irc =
    (if lastError irc = None then closeEndNoMutex (irc\<lparr>lastError := Some err\<rparr>) else Some irc)"

definition getError :: "('u, 'b, 'l) Connection \<Rightarrow> event_error option" where
  "getError irc = lastError irc"

definition isQuitting :: "('u, 'b, 'l) Connection \<Rightarrow> bool" where
  "isQuitting irc = quit irc"

definition Connected :: "('u, 'b, 'l) Connection \<Rightarrow> bool" where
  "Connected irc = running irc"

subsection \<open>Sending\<close>

definition sendInternal :: "string \<Rightarrow> (('u, 'b, 'l) Connection, event_error option) act" where
  "sendInternal b =
    (\<lambda>irc. if \<not> running irc then (Some (Some ClientDisconnected), irc)
           else (Some None, irc\<lparr>pwrite := pwrite irc @ [b]\<rparr>))"

text \<open>\<open>tord\<close> and \<open>cord\<close> are the iteration orders of the message's two tag maps.\<close>

definition SendIRCMessage :: "Message \<Rightarrow> (string \<times> string) list \<Rightarrow> (string \<times> string) list
    \<Rightarrow> (('u, 'b, 'l) Connection, event_error option) act" where
  "SendIRCMessage msg tord cord =
    (\<lambda>irc. case LineBytesStrict msg tord cord True (MaxLineLen irc) of
             None \<Rightarrow> (None, irc)
           | Some (b, Some err) \<Rightarrow>
               if \<not> (AllowTruncation irc \<and> err = ErrorBodyTooLong) then (Some (Some (MessageError err)), irc)
               else sendInternal b irc
           | Some (b, None) \<Rightarrow> sendInternal b irc)"

definition SendWithTags :: "(string \<times> string) list \<Rightarrow> (string \<times> string) list \<Rightarrow> (string \<times> string) list
    \<Rightarrow> string \<Rightarrow> string list \<Rightarrow> (('u, 'b, 'l) Connection, event_error option) act" where
  "SendWithTags tagList tord cord command params =
    SendIRCMessage (MakeMessage tagList [] command params) tord cord"

definition Send :: "string \<Rightarrow> string list \<Rightarrow> (('u, 'b, 'l) Connection, event_error option) act" where
  "Send command params = SendWithTags [] [] [] command params"

definition SendRaw :: "string \<Rightarrow> (('u, 'b, 'l) Connection, event_error option) act" where
  "SendRaw message = sendInternal (message @ [CHR 0x0D, CHR 0x0A])"

definition Join :: "string \<Rightarrow> (('u, 'b, 'l) Connection, event_error option) act" where
  "Join channel = Send ''JOIN'' [channel]"

definition Part :: "string \<Rightarrow> (('u, 'b, 'l) Connection, event_error option) act" where
  "Part channel = Send ''PART'' [channel]"

definition Notice :: "string \<Rightarrow> string \<Rightarrow> (('u, 'b, 'l) Connection, event_error option) act" where
  "Notice target message = Send ''NOTICE'' [target, message]"

definition Privmsg :: "string \<Rightarrow> string \<Rightarrow> (('u, 'b, 'l) Connection, event_error option) act" where
  "Privmsg target message = Send ''PRIVMSG'' [target, message]"

definition Action :: "string \<Rightarrow> string \<Rightarrow> (('u, 'b, 'l) Connection, event_error option) act" where
  "Action target message = Privmsg target (CHR 0x01 # ''ACTION '' @ message @ [CHR 0x01])"

text \<open>The formatting of a client's values by \<open>fmt.Sprintf\<close> is an argument.\<close>

definition Noticef :: "(string \<Rightarrow> 'a list \<Rightarrow> string) \<Rightarrow> string \<Rightarrow> string \<Rightarrow> 'a list
    \<Rightarrow> (('u, 'b, 'l) Connection, event_error option) act" where
  "Noticef sprintf target format a = Notice target (sprintf format a)"

definition Privmsgf :: "(string \<Rightarrow> 'a list \<Rightarrow> string) \<Rightarrow> string \<Rightarrow> string \<Rightarrow> 'a list
    \<Rightarrow> (('u, 'b, 'l) Connection, event_error option) act" where
  "Privmsgf sprintf target format a = Privmsg target (sprintf format a)"

definition Actionf :: "(string \<Rightarrow> 'a list \<Rightarrow> string) \<Rightarrow> string \<Rightarrow> string \<Rightarrow> 'a list
    \<Rightarrow> (('u, 'b, 'l) Connection, event_error option) act" where
  "Actionf sprintf target format a = Action target (sprintf format a)"

definition SetNick :: "string \<Rightarrow> (('u, 'b, 'l) Connection, unit) act" where
  "SetNick n = act_then (act_modify (\<lambda>irc. irc\<lparr>irc_Nick := n\<rparr>))
    (act_then (Send ''NICK'' [n]) (act_return ()))"

definition CurrentNick :: "('u, 'b, 'l) Connection \<Rightarrow> string" where
  "CurrentNick irc = currentNick irc"

definition PreferredNick :: "('u, 'b, 'l) Connection \<Rightarrow> string" where
  "PreferredNick irc = irc_Nick irc"

definition setCurrentNick :: "string \<Rightarrow> ('u, 'b, 'l) Connection \<Rightarrow> ('u, 'b, 'l) Connection" where
  "setCurrentNick nick irc = irc\<lparr>currentNick := nick\<rparr>"

definition AcknowledgedCaps :: "('u, 'b, 'l) Connection \<Rightarrow> tag_map" where
  "AcknowledgedCaps irc = capsAcked irc"

definition ISupport :: "('u, 'b, 'l) Connection \<Rightarrow> tag_map" where
  "ISupport irc = isupport irc"

definition Quit :: "int \<Rightarrow> (('u, 'b, 'l) Connection, unit) act" where
  "Quit now =
    (\<lambda>irc. let quitMessage = (if QuitMessage irc = [] then Version irc else QuitMessage irc)
           in act_then (act_modify (\<lambda>irc. irc\<lparr>quit := True, quitAt := now\<rparr>))
                (act_then (Send ''QUIT'' [quitMessage]) (act_return ())) irc)"

text \<open>\<open>Reconnect\<close> also interrupts the sleep of \<open>Loop\<close>, which is not part of this state (see \<open>Event_Loop\<close>).\<close>

definition Reconnect :: "('u, 'b, 'l) Connection \<Rightarrow> ('u, 'b, 'l) Connection go" where
  "Reconnect irc = closeEnd irc"

subsection \<open>Negotiated capabilities\<close>

definition capFlagBatch :: "32 word" where
  "capFlagBatch = push_bit 0 1"

definition capFlagMessageTags :: "32 word" where
  "capFlagMessageTags = push_bit 1 1"

definition capFlagLabeledResponse :: "32 word" where
  "capFlagLabeledResponse = push_bit 2 1"

definition capFlagMultiline :: "32 word" where
  "capFlagMultiline = push_bit 3 1"

text \<open>\<open>capsAdvertised\<close> may be nil; reading a missing entry of a map gives the empty string.\<close>

definition advertised_value :: "('u, 'b, 'l) Connection \<Rightarrow> string \<Rightarrow> string" where
  "advertised_value irc c =
    (case capsAdvertised irc of None \<Rightarrow> [] | Some m \<Rightarrow> (case m c of None \<Rightarrow> [] | Some v \<Rightarrow> v))"

definition processAckedCaps :: "string list \<Rightarrow> ('u, 'b, 'l) Connection \<Rightarrow> ('u, 'b, 'l) Connection" where
  "processAckedCaps acknowledgedCaps irc =
    (let hasBatch = (''batch'' \<in> set acknowledgedCaps);
         hasLabel = (''labeled-response'' \<in> set acknowledgedCaps);
         hasTags = (''message-tags'' \<in> set acknowledgedCaps);
         hasMultiline = (''draft/multiline'' \<in> set acknowledgedCaps \<or> ''multiline'' \<in> set acknowledgedCaps);
         f0 = 0;
         f1 = (if hasBatch then f0 OR capFlagBatch else f0);
         f2 = (if hasBatch \<and> hasLabel then f1 OR capFlagLabeledResponse else f1);
         f3 = (if hasTags then f2 OR capFlagMessageTags else f2);
         f4 = (if hasTags \<and> hasBatch \<and> hasMultiline then f3 OR capFlagMultiline else f3)
     in irc\<lparr>capsAcked := fold (\<lambda>c m. m(c \<mapsto> advertised_value irc c)) acknowledgedCaps (capsAcked irc),
          capFlags := f4\<rparr>)"

definition batchNegotiated :: "('u, 'b, 'l) Connection \<Rightarrow> bool" where
  "batchNegotiated irc \<longleftrightarrow> (capFlags irc AND capFlagBatch) \<noteq> 0"

definition labelNegotiated :: "('u, 'b, 'l) Connection \<Rightarrow> bool" where
  "labelNegotiated irc \<longleftrightarrow> (capFlags irc AND capFlagLabeledResponse) \<noteq> 0"

subsection \<open>Reply targets and parameters\<close>

definition GetReplyTarget :: "('u, 'b, 'l) Connection \<Rightarrow> Message \<Rightarrow> string" where
  "GetReplyTarget irc msg =
    (if Command msg \<in> {''PRIVMSG'', ''NOTICE'', ''TAGMSG''} then
       if length (Params msg) = 0 then []
       else
         let target = Params msg ! 0;
             chanTypes0 = (case ISupport irc ''CHANTYPES'' of None \<Rightarrow> [] | Some v \<Rightarrow> v);
             chanTypes = (if chanTypes0 = [] then ''#'' else chanTypes0)
         in if list_ex (\<lambda>c. HasPrefix target [c]) chanTypes then target
            else (case msg_NUH msg of
                    Inr nuh \<Rightarrow> if IndexByte (Name nuh) (CHR ''.'') = None then Name nuh else []
                  | Inl _ \<Rightarrow> [])
     else [])"

definition ExtractNick :: "string \<Rightarrow> string" where
  "ExtractNick source = (case ParseNUH source of Inr nuh \<Rightarrow> Name nuh | Inl _ \<Rightarrow> [])"

definition SplitNUH :: "string \<Rightarrow> string \<times> string \<times> string" where
  "SplitNUH source =
    (case ParseNUH source of Inr nuh \<Rightarrow> (Name nuh, NUH.User nuh, Host nuh) | Inl _ \<Rightarrow> ([], [], []))"

definition lastParam :: "Message \<Rightarrow> string" where
  "lastParam msg = (if 0 < length (Params msg) then Params msg ! (length (Params msg) - 1) else [])"

subsection \<open>Facts about the flags\<close>

lemma flag_values:
  "capFlagBatch = 1" "capFlagMessageTags = 2" "capFlagLabeledResponse = 4" "capFlagMultiline = 8"
  by (simp_all add: capFlagBatch_def capFlagMessageTags_def capFlagLabeledResponse_def capFlagMultiline_def)

lemma flag_bits:
  fixes b l t m :: bool
  defines "f1 \<equiv> if b then 0 OR 1 else (0 :: 32 word)"
  defines "f2 \<equiv> if b \<and> l then f1 OR 4 else f1"
  defines "f3 \<equiv> if t then f2 OR 2 else f2"
  defines "f4 \<equiv> if t \<and> b \<and> m then f3 OR 8 else f3"
  shows "f4 AND 1 \<noteq> 0 \<longleftrightarrow> b" "f4 AND 4 \<noteq> 0 \<longleftrightarrow> b \<and> l"
  by (cases b; cases l; cases t; cases m; simp add: f1_def f2_def f3_def f4_def)+

lemma capFlags_update: "capFlags (irc\<lparr>capsAcked := a, capFlags := f\<rparr>) = f"
  by simp

lemma negotiated_processAckedCaps:
  "batchNegotiated (processAckedCaps cs irc) \<longleftrightarrow> ''batch'' \<in> set cs"
  "labelNegotiated (processAckedCaps cs irc) \<longleftrightarrow> ''batch'' \<in> set cs \<and> ''labeled-response'' \<in> set cs"
  unfolding batchNegotiated_def labelNegotiated_def processAckedCaps_def Let_def flag_values
  by (simp_all only: capFlags_update flag_bits)

lemma capsAcked_fold:
  "fold (\<lambda>c m. m(c \<mapsto> f c)) cs m0 = (\<lambda>c. if c \<in> set cs then Some (f c) else m0 c)"
  by (induction cs arbitrary: m0) (auto simp: fun_eq_iff)

lemma capsAcked_processAckedCaps:
  "capsAcked (processAckedCaps cs irc) c =
    (if c \<in> set cs then Some (advertised_value irc c) else capsAcked irc c)"
  by (simp add: processAckedCaps_def Let_def capsAcked_fold)

subsection \<open>What a send does\<close>

text \<open>Either one line is queued, or an error is returned and nothing has changed.\<close>

lemma sendInternal_cases:
  obtains (queued) "running irc" "sendInternal b irc = (Some None, irc\<lparr>pwrite := pwrite irc @ [b]\<rparr>)"
  | (stopped) "\<not> running irc" "sendInternal b irc = (Some (Some ClientDisconnected), irc)"
  by (cases "running irc") (simp_all add: sendInternal_def)

lemma SendIRCMessage_cases:
  obtains (queued) b e where "running irc" "line msg tord cord MaxlenTagsFromClient 0 0 (MaxLineLen irc) = Some (b, e)"
    "e = None \<or> AllowTruncation irc \<and> e = Some ErrorBodyTooLong"
    "SendIRCMessage msg tord cord irc = (Some None, irc\<lparr>pwrite := pwrite irc @ [b]\<rparr>)"
  | (failed) err where "SendIRCMessage msg tord cord irc = (Some (Some err), irc)"
  | (panic) "SendIRCMessage msg tord cord irc = (None, irc)" "LineBytesStrict msg tord cord True (MaxLineLen irc) = None"
proof (cases "LineBytesStrict msg tord cord True (MaxLineLen irc)")
  case None
  then show thesis by (intro panic) (simp_all add: SendIRCMessage_def)
next
  case (Some r)
  obtain b e where r: "r = (b, e)" by fastforce
  have l: "line msg tord cord MaxlenTagsFromClient 0 0 (MaxLineLen irc) = Some (b, e)"
    using Some by (simp add: r LineBytesStrict_def)
  show thesis
  proof (cases "e = None \<or> AllowTruncation irc \<and> e = Some ErrorBodyTooLong")
    case True
    then have s: "SendIRCMessage msg tord cord irc = sendInternal b irc"
      using Some by (auto simp: r SendIRCMessage_def)
    show thesis
    proof (rule sendInternal_cases [of irc b])
      assume q: "running irc" "sendInternal b irc = (Some None, irc\<lparr>pwrite := pwrite irc @ [b]\<rparr>)"
      show thesis by (rule queued [OF q(1) l True]) (simp only: s q(2))
    next
      assume "sendInternal b irc = (Some (Some ClientDisconnected), irc)"
      then show thesis by (intro failed) (simp only: s)
    qed
  next
    case False
    then obtain err where "e = Some err" "\<not> (AllowTruncation irc \<and> err = ErrorBodyTooLong)" by (cases e) auto
    with Some show thesis by (intro failed [of "MessageError err"]) (simp add: r SendIRCMessage_def)
  qed
qed

lemma Send_running: "running (snd (SendIRCMessage msg tord cord irc)) = running irc"
  by (rule SendIRCMessage_cases [of irc msg tord cord]) auto

lemma SendRaw_eq:
  "running irc \<Longrightarrow> SendRaw m irc = (Some None, irc\<lparr>pwrite := pwrite irc @ [m @ [CHR 0x0D, CHR 0x0A]]\<rparr>)"
  by (simp add: SendRaw_def sendInternal_def)

subsection \<open>Properties\<close>

text \<open>A message is sent whole or not at all: either exactly one line is queued, ended by its only CR LF and
  without NUL, and the connection was running; or an error (or panic) is reported and nothing has changed.\<close>

theorem SendIRCMessage_one_line:
  "case SendIRCMessage msg tord cord irc of
     (Some None, irc') \<Rightarrow> running irc \<and>
       (\<exists>body. irc' = irc\<lparr>pwrite := pwrite irc @ [body @ [CHR 0x0D, CHR 0x0A]]\<rparr> \<and> clean body)
   | (_, irc') \<Rightarrow> irc' = irc"
proof (rule SendIRCMessage_cases [of irc msg tord cord])
  fix b e
  assume q: "running irc" "line msg tord cord MaxlenTagsFromClient 0 0 (MaxLineLen irc) = Some (b, e)"
    "e = None \<or> AllowTruncation irc \<and> e = Some ErrorBodyTooLong"
    "SendIRCMessage msg tord cord irc = (Some None, irc\<lparr>pwrite := pwrite irc @ [b]\<rparr>)"
  have "\<exists>body. b = body @ [CHR 0x0D, CHR 0x0A] \<and> clean body"
    using line_one_line [OF q(2)] q(3) by (auto split: if_splits)
  then show ?thesis using q(1) by (auto simp: q(4))
qed simp_all

text \<open>Capabilities: batches count as negotiated exactly when the server acknowledged \<open>batch\<close>, labels when
  it acknowledged \<open>batch\<close> and \<open>labeled-response\<close>, and each acknowledged capability is recorded with its
  advertised value.\<close>

lemma processAckedCaps_spec:
  "batchNegotiated (processAckedCaps cs irc) = (''batch'' \<in> set cs) \<and>
    labelNegotiated (processAckedCaps cs irc) = (''batch'' \<in> set cs \<and> ''labeled-response'' \<in> set cs) \<and>
    AcknowledgedCaps (processAckedCaps cs irc) c =
      (if c \<in> set cs then Some (advertised_value irc c) else capsAcked irc c)"
  by (simp add: negotiated_processAckedCaps capsAcked_processAckedCaps AcknowledgedCaps_def)

end
