(* ===== verification/Event_Registry.thy ===== *)
theory Event_Registry
  imports Event_Connection
begin

text \<open>
  The first part of \<^verbatim>\<open>ircevent/irc_callback.go\<close>: the tables of callbacks and their operations. \<open>upper\<close> is
  \<open>unicode.ToUpper\<close> beyond ASCII. The interface at the end states what the rest of the library relies on.
\<close>

subsection \<open>The code\<close>

definition registrationEvent :: string where
  "registrationEvent = CHR 0x00 # ''REGISTRATION''"

definition disconnectEvent :: string where
  "disconnectEvent = CHR 0x00 # ''DISCONNECT''"

definition RPL_ENDOFMOTD :: string where
  "RPL_ENDOFMOTD = ''376''"

definition ERR_NOMOTD :: string where
  "ERR_NOMOTD = ''422''"

abbreviation no_id :: CallbackID where
  "no_id \<equiv> \<lparr>cid_command = [], cid_id = 0\<rparr>"

text \<open>\<open>irc.events[code]\<close>, the nil slice when the key is missing.\<close>

definition event_list :: "('u, 'b, 'l) Connection \<Rightarrow> string \<Rightarrow> 'u Callback callbackPair list" where
  "event_list irc code = (case events irc code of None \<Rightarrow> [] | Some ps \<Rightarrow> ps)"

text \<open>The critical section of \<open>addCallback\<close>, with a command in upper case.\<close>

definition insertCallback :: "('u, 'b, 'l) Connection \<Rightarrow> string \<Rightarrow> 'u Callback \<Rightarrow> bool
    \<Rightarrow> 64 word \<Rightarrow> CallbackID \<times> ('u, 'b, 'l) Connection" where
  "insertCallback irc command callback prepend idNum0 =
    (let (idNum, irc1) =
           (if idNum0 = 0 then (callbackCounter irc, irc\<lparr>callbackCounter := callbackCounter irc + 1\<rparr>)
            else (idNum0, irc));
         newPair = \<lparr>pair_id = idNum, pair_callback = callback\<rparr>;
         current = event_list irc1 command;
         newList = (if prepend then newPair # current else current @ [newPair])
     in (\<lparr>cid_command = command, cid_id = idNum\<rparr>, irc1\<lparr>events := (events irc1)(command \<mapsto> newList)\<rparr>))"

definition accepted :: "string \<Rightarrow> bool" where
  "accepted command \<longleftrightarrow> \<not> (command = [] \<or> HasPrefix command ''*'' \<or> command = ''BATCH'')"

definition addCallback :: "(nat \<Rightarrow> nat) \<Rightarrow> ('u, 'b, 'l) Connection \<Rightarrow> string \<Rightarrow> 'u Callback \<Rightarrow> bool
    \<Rightarrow> 64 word \<Rightarrow> CallbackID \<times> ('u, 'b, 'l) Connection" where
  "addCallback upper irc command callback prepend idNum =
    (if accepted (ToUpper upper command)
     then insertCallback irc (ToUpper upper command) callback prepend idNum
     else (no_id, irc))"

definition AddCallback :: "(nat \<Rightarrow> nat) \<Rightarrow> ('u, 'b, 'l) Connection \<Rightarrow> string \<Rightarrow> 'u Callback
    \<Rightarrow> CallbackID \<times> ('u, 'b, 'l) Connection" where
  "AddCallback upper irc command callback = addCallback upper irc command callback False 0"

definition removeCallbackNoMutex :: "('u, 'b, 'l) Connection \<Rightarrow> string \<Rightarrow> 64 word \<Rightarrow> ('u, 'b, 'l) Connection" where
  "removeCallbackNoMutex irc code idn =
    (let current = event_list irc code in
     if length current = 0 then irc
     else irc\<lparr>events := (events irc)(code \<mapsto> filter (\<lambda>p. pair_id p \<noteq> idn) current)\<rparr>)"

definition removeBatchCallbackNoMutex :: "('u, 'b, 'l) Connection \<Rightarrow> 64 word \<Rightarrow> ('u, 'b, 'l) Connection" where
  "removeBatchCallbackNoMutex irc idNum =
    (let current = batchCallbacks irc in
     if length current = 0 then irc
     else irc\<lparr>batchCallbacks := filter (\<lambda>p. pair_id p \<noteq> idNum) current\<rparr>)"

definition RemoveCallback :: "('u, 'b, 'l) Connection \<Rightarrow> CallbackID \<Rightarrow> ('u, 'b, 'l) Connection" where
  "RemoveCallback irc cid =
    (if cid_command cid = registrationEvent then
       removeCallbackNoMutex (removeCallbackNoMutex irc RPL_ENDOFMOTD (cid_id cid)) ERR_NOMOTD (cid_id cid)
     else if cid_command cid = ''BATCH'' then removeBatchCallbackNoMutex irc (cid_id cid)
     else removeCallbackNoMutex irc (cid_command cid) (cid_id cid))"

definition ClearCallback :: "(nat \<Rightarrow> nat) \<Rightarrow> ('u, 'b, 'l) Connection \<Rightarrow> string \<Rightarrow> ('u, 'b, 'l) Connection" where
  "ClearCallback upper irc command = irc\<lparr>events := (events irc)(ToUpper upper command := None)\<rparr>"

fun replace_first :: "64 word \<Rightarrow> 'c \<Rightarrow> 'c callbackPair list \<Rightarrow> 'c callbackPair list option" where
  "replace_first idn callback [] = None"
| "replace_first idn callback (p # ps) =
    (if pair_id p = idn then Some (\<lparr>pair_id = idn, pair_callback = callback\<rparr> # ps)
     else map_option (\<lambda>qs. p # qs) (replace_first idn callback ps))"

definition ReplaceCallback :: "('u, 'b, 'l) Connection \<Rightarrow> CallbackID \<Rightarrow> 'u Callback
    \<Rightarrow> bool \<times> ('u, 'b, 'l) Connection" where
  "ReplaceCallback irc cid callback =
    (case replace_first (cid_id cid) callback (event_list irc (cid_command cid)) of
       Some ps \<Rightarrow> (True, irc\<lparr>events := (events irc)(cid_command cid \<mapsto> ps)\<rparr>)
     | None \<Rightarrow> (False, irc))"

definition AddBatchCallback :: "('u, 'b, 'l) Connection \<Rightarrow> 'b \<Rightarrow> CallbackID \<times> ('u, 'b, 'l) Connection" where
  "AddBatchCallback irc callback =
    (let idNum = callbackCounter irc in
     (\<lparr>cid_command = ''BATCH'', cid_id = idNum\<rparr>,
      irc\<lparr>callbackCounter := idNum + 1,
        batchCallbacks := batchCallbacks irc @ [\<lparr>pair_id = idNum, pair_callback = callback\<rparr>]\<rparr>))"

definition AddConnectCallback :: "(nat \<Rightarrow> nat) \<Rightarrow> ('u, 'b, 'l) Connection \<Rightarrow> 'u Callback
    \<Rightarrow> CallbackID \<times> ('u, 'b, 'l) Connection" where
  "AddConnectCallback upper irc callback =
    (let (id376, irc1) = AddCallback upper irc RPL_ENDOFMOTD callback;
         (id422, irc2) = addCallback upper irc1 ERR_NOMOTD callback False (cid_id id376)
     in (\<lparr>cid_command = registrationEvent, cid_id = cid_id id376\<rparr>, irc2))"

definition AddDisconnectCallback :: "(nat \<Rightarrow> nat) \<Rightarrow> ('u, 'b, 'l) Connection \<Rightarrow> 'u Callback
    \<Rightarrow> CallbackID \<times> ('u, 'b, 'l) Connection" where
  "AddDisconnectCallback upper irc callback = AddCallback upper irc disconnectEvent callback"

definition getCallbacks :: "(nat \<Rightarrow> nat) \<Rightarrow> ('u, 'b, 'l) Connection \<Rightarrow> string \<Rightarrow> 'u Callback callbackPair list" where
  "getCallbacks upper irc code = event_list irc (ToUpper upper code)"

definition getBatchCallbacks :: "('u, 'b, 'l) Connection \<Rightarrow> 'b callbackPair list" where
  "getBatchCallbacks irc = batchCallbacks irc"

subsection \<open>Interface: tables of callbacks\<close>

text \<open>
  Two tables of the connection work alike: the callbacks of a command and the batch callbacks. A client
  relies on fresh numbers, on the order of the list, and on removal by number.
\<close>

locale callback_table =
  fixes ls :: "'s \<Rightarrow> 'k \<Rightarrow> 'c callbackPair list"
    and add :: "'s \<Rightarrow> 'k \<Rightarrow> 'c \<Rightarrow> 64 word \<times> 's"
    and rem :: "'s \<Rightarrow> 'k \<Rightarrow> 64 word \<Rightarrow> 's"
    and ok :: "'s \<Rightarrow> bool"
    and room :: "'s \<Rightarrow> bool"
  assumes ls_add: "add s k c = (i, s') \<Longrightarrow>
      ls s' k' = (if k' = k then ls s k @ [\<lparr>pair_id = i, pair_callback = c\<rparr>] else ls s k')"
    and fresh: "ok s \<Longrightarrow> add s k c = (i, s') \<Longrightarrow> p \<in> set (ls s k') \<Longrightarrow> pair_id p \<noteq> i"
    and ls_rem: "ls (rem s k i) k' = (if k' = k then filter (\<lambda>p. pair_id p \<noteq> i) (ls s k) else ls s k')"
    and ok_add: "ok s \<Longrightarrow> room s \<Longrightarrow> add s k c = (i, s') \<Longrightarrow> ok s'"
    and ok_rem: "ok s \<Longrightarrow> ok (rem s k i)"
begin

lemma filter_fresh:
  assumes "ok s" "add s k c = (i, s')" shows "filter (\<lambda>p. pair_id p \<noteq> i) (ls s k') = ls s k'"
  using fresh [OF assms] by (auto simp: filter_id_conv)

text \<open>Removing by the number returned undoes an addition.\<close>

lemma rem_add: "ok s \<Longrightarrow> add s k c = (i, s') \<Longrightarrow> ls (rem s' k i) k' = ls s k'"
  by (simp add: ls_rem ls_add filter_fresh)

text \<open>It removes exactly that callback when others have been added in between.\<close>

lemma rem_add_add:
  assumes "ok s" "room s" "add s k c = (i, s1)" "add s1 k2 c2 = (j, s2)"
  shows "ls (rem s2 k i) k' =
    (if k' = k2 then ls s k' @ [\<lparr>pair_id = j, pair_callback = c2\<rparr>] else ls s k')"
proof -
  have "i \<noteq> j"
    using fresh [OF ok_add [OF assms(1-3)] assms(4), of "\<lparr>pair_id = i, pair_callback = c\<rparr>" k]
    by (auto simp: ls_add [OF assms(3)])
  then show ?thesis
    by (auto simp: ls_rem ls_add [OF assms(3)] ls_add [OF assms(4)] filter_fresh [OF assms(1,3)])
qed

end

subsection \<open>The invariant\<close>

definition table_ok :: "64 word \<Rightarrow> 'c callbackPair list \<Rightarrow> bool" where
  "table_ok n ps \<longleftrightarrow> distinct (map pair_id ps) \<and> (\<forall>p\<in>set ps. pair_id p < n)"

definition registry_inv :: "('u, 'b, 'l) Connection \<Rightarrow> bool" where
  "registry_inv irc \<longleftrightarrow> (\<forall>k. table_ok (callbackCounter irc) (event_list irc k)) \<and>
    table_ok (callbackCounter irc) (batchCallbacks irc)"

definition has_room :: "('u, 'b, 'l) Connection \<Rightarrow> bool" where
  "has_room irc \<longleftrightarrow> callbackCounter irc + 1 \<noteq> 0"

lemma word_less_Suc: "(n :: 64 word) + 1 \<noteq> 0 \<Longrightarrow> n < n + 1"
  by unat_arith

lemma table_ok_Nil [simp]: "table_ok n []"
  by (simp add: table_ok_def)

lemma table_ok_mono: "table_ok n ps \<Longrightarrow> n \<le> m \<Longrightarrow> table_ok m ps"
  by (auto simp: table_ok_def)

lemma table_ok_filter: "table_ok n ps \<Longrightarrow> table_ok n (filter P ps)"
  by (auto simp: table_ok_def intro: distinct_map_filter)

lemma table_ok_insert:
  "table_ok n ps \<Longrightarrow> n + 1 \<noteq> 0 \<Longrightarrow>
   table_ok (n + 1) (\<lparr>pair_id = n, pair_callback = c\<rparr> # ps) \<and>
   table_ok (n + 1) (ps @ [\<lparr>pair_id = n, pair_callback = c\<rparr>])"
  using word_less_Suc [of n] by (auto simp: table_ok_def)

lemma event_list_update [simp]:
  "event_list (irc\<lparr>events := (events irc)(k \<mapsto> ps)\<rparr>) k' = (if k' = k then ps else event_list irc k')"
  by (simp add: event_list_def)

lemma event_list_counter [simp]:
  "event_list (irc\<lparr>callbackCounter := n\<rparr>) k = event_list irc k"
  "event_list (irc\<lparr>batchCallbacks := bs\<rparr>) k = event_list irc k"
  by (simp_all add: event_list_def)

lemma removeCallback_list:
  "event_list (removeCallbackNoMutex irc code i) k =
    (if k = code then filter (\<lambda>p. pair_id p \<noteq> i) (event_list irc k) else event_list irc k)"
  by (simp add: removeCallbackNoMutex_def Let_def)

lemma removeCallback_frame [simp]:
  "callbackCounter (removeCallbackNoMutex irc code i) = callbackCounter irc"
  "batchCallbacks (removeCallbackNoMutex irc code i) = batchCallbacks irc"
  by (simp_all add: removeCallbackNoMutex_def Let_def)

lemma removeBatchCallback_list:
  "batchCallbacks (removeBatchCallbackNoMutex irc i) = filter (\<lambda>p. pair_id p \<noteq> i) (batchCallbacks irc)"
  by (simp add: removeBatchCallbackNoMutex_def Let_def)

lemma removeBatchCallback_frame [simp]:
  "callbackCounter (removeBatchCallbackNoMutex irc i) = callbackCounter irc"
  "event_list (removeBatchCallbackNoMutex irc i) k = event_list irc k"
  by (simp_all add: removeBatchCallbackNoMutex_def Let_def)

lemma registry_inv_remove [simp]:
  "registry_inv irc \<Longrightarrow> registry_inv (removeCallbackNoMutex irc code i)"
  "registry_inv irc \<Longrightarrow> registry_inv (removeBatchCallbackNoMutex irc i)"
  by (simp_all add: registry_inv_def removeCallback_list removeBatchCallback_list table_ok_filter)

lemma table_fresh: "table_ok n ps \<Longrightarrow> p \<in> set ps \<Longrightarrow> pair_id p \<noteq> n"
  by (auto simp: table_ok_def)

lemma insertCallback_0:
  "insertCallback irc k c pre 0 =
    (\<lparr>cid_command = k, cid_id = callbackCounter irc\<rparr>,
     irc\<lparr>callbackCounter := callbackCounter irc + 1,
       events := (events irc)(k \<mapsto>
         (if pre then \<lparr>pair_id = callbackCounter irc, pair_callback = c\<rparr> # event_list irc k
          else event_list irc k @ [\<lparr>pair_id = callbackCounter irc, pair_callback = c\<rparr>]))\<rparr>)"
  by (simp add: insertCallback_def)

lemma event_list_insert [simp]:
  "event_list (irc\<lparr>callbackCounter := n, events := (events irc)(k \<mapsto> ps)\<rparr>) k' =
    (if k' = k then ps else event_list irc k')"
  by (simp add: event_list_def)

lemma registry_inv_insert:
  assumes "registry_inv irc" "has_room irc"
  shows "registry_inv (snd (insertCallback irc k c pre 0))"
proof -
  have n: "callbackCounter irc + 1 \<noteq> 0" "callbackCounter irc \<le> callbackCounter irc + 1"
    using assms(2) word_less_Suc [of "callbackCounter irc"] by (simp_all add: has_room_def)
  from assms(1) have l: "\<And>k. table_ok (callbackCounter irc) (event_list irc k)"
    "table_ok (callbackCounter irc) (batchCallbacks irc)" by (simp_all add: registry_inv_def)
  have "table_ok (callbackCounter irc + 1) (event_list irc k)" for k by (rule table_ok_mono [OF l(1) n(2)])
  with table_ok_insert [OF l(1) n(1)] table_ok_mono [OF l(2) n(2)] show ?thesis
    by (simp add: registry_inv_def insertCallback_0)
qed

lemma registry_inv_AddBatch:
  assumes "registry_inv irc" "has_room irc"
  shows "registry_inv (snd (AddBatchCallback irc c))"
proof -
  have n: "callbackCounter irc + 1 \<noteq> 0" "callbackCounter irc \<le> callbackCounter irc + 1"
    using assms(2) word_less_Suc [of "callbackCounter irc"] by (simp_all add: has_room_def)
  have l: "\<And>k. table_ok (callbackCounter irc) (event_list irc k)"
    "table_ok (callbackCounter irc) (batchCallbacks irc)" using assms(1) by (simp_all add: registry_inv_def)
  have "table_ok (callbackCounter irc + 1) (event_list irc k)" for k by (rule table_ok_mono [OF l(1) n(2)])
  with table_ok_insert [OF l(2) n(1)] show ?thesis
    by (simp add: registry_inv_def AddBatchCallback_def Let_def event_list_def)
qed

definition add_event :: "bool \<Rightarrow> ('u, 'b, 'l) Connection \<Rightarrow> string \<Rightarrow> 'u Callback \<Rightarrow> 64 word \<times> ('u, 'b, 'l) Connection"
  where "add_event pre irc k c = map_prod cid_id id (insertCallback irc k c pre 0)"

interpretation back_table: callback_table event_list "add_event False" removeCallbackNoMutex registry_inv has_room
proof unfold_locales
  fix s :: "('u, 'b, 'l) Connection" and k c i s'
  assume ok: "registry_inv s" "add_event False s k c = (i, s')"
  show "pair_id p \<noteq> i" if "p \<in> set (event_list s k')" for p k'
    using ok that table_fresh [of "callbackCounter s" "event_list s k'" p]
    by (auto simp: registry_inv_def add_event_def insertCallback_0)
  show "registry_inv s'" if "has_room s"
    using registry_inv_insert [OF ok(1) that, of k c False] ok(2)
    by (cases "insertCallback s k c False 0") (simp add: add_event_def)
qed (auto simp: add_event_def insertCallback_0 removeCallback_list)

interpretation front_table: callback_table "\<lambda>s k. rev (event_list s k)" "add_event True" removeCallbackNoMutex
  registry_inv has_room
proof unfold_locales
  fix s :: "('u, 'b, 'l) Connection" and k c i s'
  assume ok: "registry_inv s" "add_event True s k c = (i, s')"
  show "pair_id p \<noteq> i" if "p \<in> set (rev (event_list s k'))" for p k'
    using ok that table_fresh [of "callbackCounter s" "event_list s k'" p]
    by (auto simp: registry_inv_def add_event_def insertCallback_0)
  show "registry_inv s'" if "has_room s"
    using registry_inv_insert [OF ok(1) that, of k c True] ok(2)
    by (cases "insertCallback s k c True 0") (simp add: add_event_def)
qed (auto simp: add_event_def insertCallback_0 removeCallback_list rev_filter)

interpretation batch_table: callback_table "\<lambda>s (k :: unit). batchCallbacks s"
  "\<lambda>s k c. map_prod cid_id id (AddBatchCallback s c)" "\<lambda>s k i. removeBatchCallbackNoMutex s i"
  registry_inv has_room
proof unfold_locales
  fix s :: "('u, 'b, 'l) Connection" and c i s'
  assume ok: "registry_inv s" "map_prod cid_id id (AddBatchCallback s c) = (i, s')"
  show "pair_id p \<noteq> i" if "p \<in> set (batchCallbacks s)" for p
    using ok that table_fresh [of "callbackCounter s" "batchCallbacks s" p]
    by (auto simp: registry_inv_def AddBatchCallback_def Let_def)
  show "registry_inv s'" if "has_room s"
    using registry_inv_AddBatch [OF ok(1) that, of c] ok(2) by (cases "AddBatchCallback s c") simp
qed (auto simp: AddBatchCallback_def Let_def removeBatchCallback_list)

subsection \<open>The operations through the interface\<close>

lemma AddCallback_table:
  assumes "accepted (ToUpper upper c)"
  obtains i irc' where "AddCallback upper irc c f = (\<lparr>cid_command = ToUpper upper c, cid_id = i\<rparr>, irc')"
    "add_event False irc (ToUpper upper c) f = (i, irc')"
  using assms by (simp add: AddCallback_def addCallback_def add_event_def insertCallback_0)

lemma RemoveCallback_command:
  assumes "k \<noteq> registrationEvent" "accepted k"
  shows "RemoveCallback irc \<lparr>cid_command = k, cid_id = i\<rparr> = removeCallbackNoMutex irc k i"
  using assms by (simp add: RemoveCallback_def accepted_def)

lemma getCallbacks_eqI:
  "(\<And>k. event_list irc k = event_list irc' k) \<Longrightarrow> getCallbacks upper irc code = getCallbacks upper irc' code"
  by (simp add: getCallbacks_def)

lemma connect_accepted [simp]:
  "ToUpper upper RPL_ENDOFMOTD = RPL_ENDOFMOTD" "ToUpper upper ERR_NOMOTD = ERR_NOMOTD"
  "accepted RPL_ENDOFMOTD" "accepted ERR_NOMOTD"
  by (simp_all add: RPL_ENDOFMOTD_def ERR_NOMOTD_def ToUpper_def ToUpperASCII_def upper_byte_def
      accepted_def HasPrefix_def)

lemma connect_distinct [simp]: "ERR_NOMOTD \<noteq> RPL_ENDOFMOTD" "RPL_ENDOFMOTD \<noteq> ERR_NOMOTD"
  by (simp_all add: RPL_ENDOFMOTD_def ERR_NOMOTD_def)

lemma AddConnectCallback_eq:
  "AddConnectCallback upper irc f =
    (let n = callbackCounter irc;
         p = \<lparr>pair_id = n, pair_callback = f\<rparr>;
         (m, q) = (if n = 0 then (n + 2, p\<lparr>pair_id := 1\<rparr>) else (n + 1, p))
     in (\<lparr>cid_command = registrationEvent, cid_id = n\<rparr>,
         irc\<lparr>callbackCounter := m, events := (events irc)(RPL_ENDOFMOTD \<mapsto> event_list irc RPL_ENDOFMOTD @ [p],
           ERR_NOMOTD \<mapsto> event_list irc ERR_NOMOTD @ [q])\<rparr>))"
  by (simp add: AddConnectCallback_def AddCallback_def addCallback_def insertCallback_def Let_def
      RPL_ENDOFMOTD_def ERR_NOMOTD_def event_list_def accepted_def HasPrefix_def ToUpper_def
      ToUpperASCII_def upper_byte_def)

lemma remove_connect:
  "RemoveCallback irc \<lparr>cid_command = registrationEvent, cid_id = i\<rparr> =
    removeCallbackNoMutex (removeCallbackNoMutex irc RPL_ENDOFMOTD i) ERR_NOMOTD i"
  by (simp add: RemoveCallback_def)

lemma replace_absent:
  "i \<notin> pair_id ` set ps \<Longrightarrow> map (\<lambda>p. if pair_id p = i then q else p) ps = ps"
  by (induction ps) auto

lemma replace_first_map:
  "distinct (map pair_id ps) \<Longrightarrow> replace_first i c ps =
    (if i \<in> pair_id ` set ps
     then Some (map (\<lambda>p. if pair_id p = i then \<lparr>pair_id = i, pair_callback = c\<rparr> else p) ps) else None)"
proof (induction ps)
  case (Cons p ps)
  then have "pair_id p = i \<Longrightarrow> i \<notin> pair_id ` set ps" by auto
  with Cons show ?case by (auto simp: replace_absent)
qed simp

lemma ReplaceCallback_lists:
  assumes "registry_inv irc" "ReplaceCallback irc cid f = (found, irc')"
  shows "(found \<longleftrightarrow> cid_id cid \<in> pair_id ` set (event_list irc (cid_command cid))) \<and>
    event_list irc' k =
      (if k = cid_command cid
       then map (\<lambda>p. if pair_id p = cid_id cid then \<lparr>pair_id = cid_id cid, pair_callback = f\<rparr> else p)
              (event_list irc k)
       else event_list irc k)"
proof -
  let ?ps = "event_list irc (cid_command cid)"
  have "distinct (map pair_id ?ps)" using assms(1) by (simp add: registry_inv_def table_ok_def)
  note r = replace_first_map [OF this, of "cid_id cid" f]
  show ?thesis
  proof (cases "cid_id cid \<in> pair_id ` set ?ps")
    case True
    with assms(2) r show ?thesis by (auto simp: ReplaceCallback_def)
  next
    case False
    then have "map (\<lambda>p. if pair_id p = cid_id cid then \<lparr>pair_id = cid_id cid, pair_callback = f\<rparr> else p) ?ps = ?ps"
      by (rule replace_absent)
    with False assms(2) r show ?thesis by (auto simp: ReplaceCallback_def)
  qed
qed

subsection \<open>Reachable registries\<close>

inductive registry_step :: "(nat \<Rightarrow> nat) \<Rightarrow> ('u, 'b, 'l) Connection \<Rightarrow> ('u, 'b, 'l) Connection \<Rightarrow> bool"
  for upper where
  add: "has_room irc \<Longrightarrow> registry_step upper irc (snd (addCallback upper irc c f pre 0))"
| add_batch: "has_room irc \<Longrightarrow> registry_step upper irc (snd (AddBatchCallback irc b))"
| add_connect: "has_room irc \<Longrightarrow> callbackCounter irc + 2 \<noteq> 0 \<Longrightarrow>
    registry_step upper irc (snd (AddConnectCallback upper irc f))"
| remove: "registry_step upper irc (RemoveCallback irc cid)"
| clear: "registry_step upper irc (ClearCallback upper irc c)"
| replace: "registry_step upper irc (snd (ReplaceCallback irc cid f))"

inductive registry_reachable :: "(nat \<Rightarrow> nat) \<Rightarrow> ('u, 'b, 'l) Connection \<Rightarrow> bool" for upper where
  zero: "registry_reachable upper zero_Connection"
| step: "registry_reachable upper irc \<Longrightarrow> registry_step upper irc irc' \<Longrightarrow> registry_reachable upper irc'"

lemma zero_registry [simp]:
  "callbackCounter zero_Connection = 0" "event_list zero_Connection k = []" "batchCallbacks zero_Connection = []"
  by (simp_all add: zero_Connection_def event_list_def)

lemma registry_inv_zero: "registry_inv zero_Connection"
  by (simp add: registry_inv_def)

lemma registry_inv_addCallback:
  "registry_inv irc \<Longrightarrow> has_room irc \<Longrightarrow> registry_inv (snd (addCallback upper irc c f pre 0))"
  by (simp add: addCallback_def registry_inv_insert)

lemma word_add_2: "(n :: 64 word) + 1 \<noteq> 0 \<Longrightarrow> n + 2 \<noteq> 0 \<Longrightarrow> n < n + 1 \<and> n + 1 < n + 2"
  using word_less_Suc [of n] word_less_Suc [of "n + 1"] by (simp add: add.assoc)

lemma registry_inv_connect:
  assumes "registry_inv irc" "has_room irc" "callbackCounter irc + 2 \<noteq> 0"
  shows "registry_inv (snd (AddConnectCallback upper irc f))"
proof -
  let ?n = "callbackCounter irc"
  note w = word_add_2 [OF assms(2) [unfolded has_room_def] assms(3)]
  have l: "table_ok ?n (event_list irc k)" "table_ok ?n (batchCallbacks irc)" for k
    using assms(1) by (simp_all add: registry_inv_def)
  have app: "table_ok m (event_list irc k @ [\<lparr>pair_id = j, pair_callback = f\<rparr>])" if "?n \<le> j" "j < m" for j m k
    using l(1) [of k] that by (fastforce simp: table_ok_def)
  obtain m j where r: "snd (AddConnectCallback upper irc f) = irc\<lparr>callbackCounter := m,
      events := (events irc)(RPL_ENDOFMOTD \<mapsto> event_list irc RPL_ENDOFMOTD @ [\<lparr>pair_id = ?n, pair_callback = f\<rparr>],
        ERR_NOMOTD \<mapsto> event_list irc ERR_NOMOTD @ [\<lparr>pair_id = j, pair_callback = f\<rparr>])\<rparr>"
    and m: "?n \<le> j" "j < m"
  proof (cases "?n = 0")
    case True
    show thesis by (rule that [where m = 2 and j = 1]) (use True in \<open>simp_all add: AddConnectCallback_eq Let_def\<close>)
  next
    case False
    show thesis by (rule that [where m = "?n + 1" and j = ?n]) (use False w in \<open>simp_all add: AddConnectCallback_eq Let_def\<close>)
  qed
  have n: "?n < m" "?n \<le> m" using m by auto
  have "table_ok m (event_list irc k)" "table_ok m (batchCallbacks irc)" for k
    using table_ok_mono [OF l(1) n(2)] table_ok_mono [OF l(2) n(2)] by blast+
  with app [OF m] app [OF order.refl n(1)] show ?thesis
    by (simp add: registry_inv_def r event_list_def)
qed

lemma registry_inv_Remove: "registry_inv irc \<Longrightarrow> registry_inv (RemoveCallback irc cid)"
  by (simp add: RemoveCallback_def)

lemma registry_inv_Clear: "registry_inv irc \<Longrightarrow> registry_inv (ClearCallback upper irc c)"
  by (simp add: registry_inv_def ClearCallback_def event_list_def)

lemma table_ok_replace:
  assumes "table_ok n ps"
  shows "table_ok n (map (\<lambda>p. if pair_id p = i then \<lparr>pair_id = i, pair_callback = f\<rparr> else p) ps)"
proof -
  have "map pair_id (map (\<lambda>p. if pair_id p = i then \<lparr>pair_id = i, pair_callback = f\<rparr> else p) ps) = map pair_id ps"
    by simp
  with assms show ?thesis unfolding table_ok_def by (auto simp del: map_map map_eq_conv)
qed

lemma registry_inv_Replace:
  assumes "registry_inv irc" shows "registry_inv (snd (ReplaceCallback irc cid f))"
proof -
  obtain found irc' where r: "ReplaceCallback irc cid f = (found, irc')" by fastforce
  have "callbackCounter irc' = callbackCounter irc" "batchCallbacks irc' = batchCallbacks irc"
    using r by (auto simp: ReplaceCallback_def split: option.splits)
  with assms show ?thesis
    by (simp add: registry_inv_def r ReplaceCallback_lists [OF assms r] table_ok_replace)
qed

lemma registry_step_inv: "registry_step upper irc irc' \<Longrightarrow> registry_inv irc \<Longrightarrow> registry_inv irc'"
  by (induction rule: registry_step.induct)
    (simp_all add: registry_inv_addCallback registry_inv_AddBatch registry_inv_connect registry_inv_Remove
      registry_inv_Clear registry_inv_Replace)

lemma registry_reachable_inv: "registry_reachable upper irc \<Longrightarrow> registry_inv irc"
  by (induction rule: registry_reachable.induct) (auto intro: registry_inv_zero registry_step_inv)

subsection \<open>Properties\<close>

text \<open>\<open>AddCallback\<close> puts a callback behind those of the same command (in any case) and leaves the other
  commands alone; \<open>RemoveCallback\<close> with the returned ID gives back every list as it was.\<close>

theorem AddCallback_RemoveCallback:
  assumes "registry_inv irc" "accepted (ToUpper upper c)" "ToUpper upper c \<noteq> registrationEvent"
    "AddCallback upper irc c f = (cid, irc')"
  shows "getCallbacks upper irc' code =
      (if ToUpper upper code = ToUpper upper c
       then getCallbacks upper irc code @ [\<lparr>pair_id = cid_id cid, pair_callback = f\<rparr>]
       else getCallbacks upper irc code) \<and>
    getCallbacks upper (RemoveCallback irc' cid) code = getCallbacks upper irc code"
proof -
  from assms(2,4) obtain i where cid: "cid = \<lparr>cid_command = ToUpper upper c, cid_id = i\<rparr>"
    and add: "add_event False irc (ToUpper upper c) f = (i, irc')"
    by (auto elim: AddCallback_table [of upper c irc f])
  have "getCallbacks upper (RemoveCallback irc' cid) code = getCallbacks upper irc code"
    unfolding cid RemoveCallback_command [OF assms(3,2)]
    by (rule getCallbacks_eqI) (rule back_table.rem_add [OF assms(1) add])
  then show ?thesis
    by (simp add: getCallbacks_def back_table.ls_add [OF add] cid)
qed

lemma AddCallback_RemoveCallback_witness:
  "getCallbacks id (RemoveCallback (snd (AddCallback id (zero_Connection :: (bool, bool, bool) Connection) ''join'' (Client True)))
      \<lparr>cid_command = ''JOIN'', cid_id = 0\<rparr>) ''Join'' =
    getCallbacks id (zero_Connection :: (bool, bool, bool) Connection) ''Join''"
proof -
  have up: "ToUpper id ''join'' = ''JOIN''"
    by (simp add: ToUpper_def ToUpperASCII_def upper_byte_def char_eval)
  obtain irc' where a: "AddCallback id (zero_Connection :: (bool, bool, bool) Connection) ''join'' (Client True) =
      (\<lparr>cid_command = ''JOIN'', cid_id = 0\<rparr>, irc')"
    by (simp add: AddCallback_def addCallback_def up accepted_def HasPrefix_def insertCallback_0)
  show ?thesis
    using AddCallback_RemoveCallback [OF registry_inv_zero _ _ a, of "''Join''"]
    by (simp add: a up accepted_def HasPrefix_def registrationEvent_def)
qed

text \<open>\<open>RemoveCallback\<close> undoes \<open>AddConnectCallback\<close>, which enters the callback under two numerics with one
  number, exactly when the callback counter was not zero. The number zero stands for "no number": the
  first callback of a connection is entered under \<open>ERR_NOMOTD\<close> with the number one, and stays there.\<close>

theorem AddConnectCallback_RemoveCallback:
  assumes "registry_inv irc" "AddConnectCallback upper irc f = (cid, irc')"
  shows "(\<forall>code. getCallbacks upper (RemoveCallback irc' cid) code = getCallbacks upper irc code) \<longleftrightarrow>
    callbackCounter irc \<noteq> 0"
proof -
  let ?n = "callbackCounter irc"
  have new: "filter (\<lambda>p. pair_id p \<noteq> ?n) (event_list irc k) = event_list irc k" for k
    using assms(1) table_fresh [of ?n "event_list irc k"] by (auto simp: registry_inv_def filter_id_conv)
  have cid: "cid = \<lparr>cid_command = registrationEvent, cid_id = ?n\<rparr>"
    using assms(2) by (auto simp: AddConnectCallback_eq Let_def split: if_splits)
  have l: "event_list irc' k = (if k = RPL_ENDOFMOTD then event_list irc k @ [\<lparr>pair_id = ?n, pair_callback = f\<rparr>]
      else if k = ERR_NOMOTD
      then event_list irc k @ [\<lparr>pair_id = if ?n = 0 then 1 else ?n, pair_callback = f\<rparr>]
      else event_list irc k)" for k
    using assms(2)
    by (auto simp: AddConnectCallback_eq Let_def event_list_def RPL_ENDOFMOTD_def ERR_NOMOTD_def split: if_splits)
  have r: "event_list (RemoveCallback irc' cid) k =
      (if k = ERR_NOMOTD \<and> ?n = 0 then event_list irc k @ [\<lparr>pair_id = 1, pair_callback = f\<rparr>]
       else event_list irc k)" for k
    using new [of k] by (auto simp: cid remove_connect removeCallback_list l connect_distinct)
  show ?thesis
  proof (cases "?n = 0")
    case True
    then have "getCallbacks upper (RemoveCallback irc' cid) ERR_NOMOTD \<noteq> getCallbacks upper irc ERR_NOMOTD"
      by (simp add: getCallbacks_def r)
    with True show ?thesis by blast
  qed (simp add: getCallbacks_def r)
qed

lemma AddConnectCallback_RemoveCallback_witness:
  "\<exists>code. getCallbacks id (RemoveCallback (snd (AddConnectCallback id (zero_Connection :: (bool, bool, bool) Connection)
      (Client True))) (fst (AddConnectCallback id (zero_Connection :: (bool, bool, bool) Connection) (Client True)))) code \<noteq>
    getCallbacks id (zero_Connection :: (bool, bool, bool) Connection) code"
proof -
  obtain cid irc' where a: "AddConnectCallback id (zero_Connection :: (bool, bool, bool) Connection) (Client True) =
    (cid, irc')" by fastforce
  from AddConnectCallback_RemoveCallback [OF registry_inv_zero a] show ?thesis by (simp add: a)
qed

text \<open>\<open>ReplaceCallback\<close> succeeds exactly when the list of the command holds the number; then it exchanges
  the one callback with that number in its place, and changes no other list.\<close>

lemma ReplaceCallback_spec:
  assumes "registry_inv irc" "ReplaceCallback irc cid f = (found, irc')"
  shows "(found \<longleftrightarrow> cid_id cid \<in> pair_id ` set (event_list irc (cid_command cid))) \<and>
    event_list irc' k =
      (if k = cid_command cid
       then map (\<lambda>p. if pair_id p = cid_id cid then \<lparr>pair_id = cid_id cid, pair_callback = f\<rparr> else p)
              (event_list irc k)
       else event_list irc k)"
  by (rule ReplaceCallback_lists [OF assms])

lemma ReplaceCallback_spec_witness:
  "\<not> fst (ReplaceCallback (zero_Connection :: (bool, bool, bool) Connection)
      \<lparr>cid_command = registrationEvent, cid_id = 0\<rparr> (Client True))"
proof -
  obtain found irc' where a: "ReplaceCallback (zero_Connection :: (bool, bool, bool) Connection)
      \<lparr>cid_command = registrationEvent, cid_id = 0\<rparr> (Client True) = (found, irc')" by fastforce
  from ReplaceCallback_spec [OF registry_inv_zero a] show ?thesis by (simp add: a)
qed



end
