(* ===== verification/Event_Batch.thy ===== *)
theory Event_Batch
  imports Event_Connection "HOL-Library.Multiset"
begin

text \<open>
  Batches and labeled responses of \<^verbatim>\<open>ircevent/irc_callback.go\<close>: the open batches, the pending labels, and what
  a received line does to them. Batches live in a store (\<open>batch_heap\<close>), since a nested batch is linked
  into its parent while it is still open. A method that ends in calling a client function returns that
  call as an \<open>effect\<close>; times are arguments; where the code ranges over a map, the order of the
  iteration is an argument.
\<close>

subsection \<open>Labels\<close>

definition labelBase :: nat where
  "labelBase = 32"

definition serializeLabel :: "64 word \<Rightarrow> string" where
  "serializeLabel label = FormatInt (sint label) labelBase"

definition deserializeLabel :: "string \<Rightarrow> 64 word" where
  "deserializeLabel str = (case ParseInt str labelBase 64 of Some p \<Rightarrow> word_of_int p | None \<Rightarrow> 0)"

definition registerLabel :: "int \<Rightarrow> 'l \<Rightarrow> ('u, 'b, 'l) Connection \<Rightarrow> string \<times> ('u, 'b, 'l) Connection" where
  "registerLabel now callback irc =
    (let label = labelCounter irc + 1 in
     (serializeLabel label,
      irc\<lparr>labelCounter := label,
        labelCallbacks := (labelCallbacks irc)(label \<mapsto> \<lparr>pl_createdAt = now, pl_callback = callback\<rparr>)\<rparr>))"

definition unregisterLabel :: "string \<Rightarrow> ('u, 'b, 'l) Connection \<Rightarrow> ('u, 'b, 'l) Connection" where
  "unregisterLabel labelStr irc =
    (let label = deserializeLabel labelStr in
     if label = 0 then irc else irc\<lparr>labelCallbacks := (labelCallbacks irc)(label := None)\<rparr>)"

definition getLabelCallbackNoMutex :: "64 word \<Rightarrow> ('u, 'b, 'l) Connection \<Rightarrow> 'l option \<times> ('u, 'b, 'l) Connection" where
  "getLabelCallbackNoMutex label irc =
    (case labelCallbacks irc label of
       Some lc \<Rightarrow> (Some (pl_callback lc), irc\<lparr>labelCallbacks := (labelCallbacks irc)(label := None)\<rparr>)
     | None \<Rightarrow> (None, irc))"

definition getLabelCallback :: "64 word \<Rightarrow> ('u, 'b, 'l) Connection \<Rightarrow> 'l option \<times> ('u, 'b, 'l) Connection" where
  "getLabelCallback label irc = getLabelCallbackNoMutex label irc"

definition SendWithLabel :: "int \<Rightarrow> 'l \<Rightarrow> (string \<times> string) list \<Rightarrow> (string \<times> string) list \<Rightarrow> (string \<times> string) list
    \<Rightarrow> string \<Rightarrow> string list \<Rightarrow> (('u, 'b, 'l) Connection, event_error option) act" where
  "SendWithLabel now callback tagList tord cord command params =
    (\<lambda>irc. if \<not> labelNegotiated irc then (Some (Some CapabilityNotNegotiated), irc)
      else
        let (label, irc1) = registerLabel now callback irc;
            msg = SetTag (MakeMessage tagList [] command params) ''label'' label
        in case SendIRCMessage msg tord cord irc1 of
             (None, irc2) \<Rightarrow> (None, irc2)
           | (Some None, irc2) \<Rightarrow> (Some None, irc2)
           | (Some (Some err), irc2) \<Rightarrow> (Some (Some err), unregisterLabel label irc2))"

subsection \<open>Effects\<close>

datatype batch_error = errorDuplicateBatchID | errorNoParentBatchID | errorBatchNotOpen | errorUnknownLabel

datatype 'l effect =
    NoEffect
  | LogInvalid
  | LogBatchError batch_error
  | CallLabel 'l addr
  | RunBatch addr
  | RunMessage Message

subsection \<open>The store\<close>

definition new_batch :: "Message \<Rightarrow> ('u, 'b, 'l) Connection \<Rightarrow> addr \<times> ('u, 'b, 'l) Connection" where
  "new_batch msg irc =
    (length (batch_heap irc),
     irc\<lparr>batch_heap := batch_heap irc @ [\<lparr>batch_Message = msg, Items = []\<rparr>]\<rparr>)"

definition append_item :: "addr \<Rightarrow> addr \<Rightarrow> ('u, 'b, 'l) Connection \<Rightarrow> ('u, 'b, 'l) Connection" where
  "append_item a item irc =
    irc\<lparr>batch_heap := (batch_heap irc)[a := (batch_heap irc ! a)\<lparr>Items := Items (batch_heap irc ! a) @ [item]\<rparr>]\<rparr>"

subsection \<open>Receiving a line\<close>

definition batch_start :: "int \<Rightarrow> Message \<Rightarrow> string \<Rightarrow> bool \<Rightarrow> string \<Rightarrow> 64 word \<Rightarrow> ('u, 'b, 'l) Connection
    \<Rightarrow> 'l effect \<times> ('u, 'b, 'l) Connection" where
  "batch_start now msg batchID isNested parentBatchID label irc =
    (if batches irc batchID \<noteq> None then (LogBatchError errorDuplicateBatchID, irc)
     else
       let (batchObj, irc1) = new_batch msg irc;
           irc2 = irc1\<lparr>batches := (batches irc1)(batchID \<mapsto>
                    \<lparr>bip_createdAt = now, bip_label = label, bip_batch = batchObj\<rparr>)\<rparr>
       in if isNested then
            (case batches irc2 parentBatchID of
               None \<Rightarrow> (LogBatchError errorNoParentBatchID, irc2)
             | Some parentBip \<Rightarrow> (NoEffect, append_item (bip_batch parentBip) batchObj irc2))
          else (NoEffect, irc2))"

definition batch_end :: "string \<Rightarrow> bool \<Rightarrow> ('u, 'b, 'l) Connection \<Rightarrow> 'l effect \<times> ('u, 'b, 'l) Connection" where
  "batch_end batchID isNested irc =
    (case batches irc batchID of
       None \<Rightarrow> (LogBatchError errorBatchNotOpen, irc)
     | Some bip \<Rightarrow>
         let irc1 = irc\<lparr>batches := (batches irc)(batchID := None)\<rparr> in
         if isNested then (NoEffect, irc1)
         else if bip_label bip \<noteq> 0 then
           (case getLabelCallbackNoMutex (bip_label bip) irc1 of
              (Some callback, irc2) \<Rightarrow> (CallLabel callback (bip_batch bip), irc2)
            | (None, irc2) \<Rightarrow> (LogBatchError errorUnknownLabel, irc2))
         else (RunBatch (bip_batch bip), irc1))"

definition handleBatchCommand :: "int \<Rightarrow> Message \<Rightarrow> ('u, 'b, 'l) Connection \<Rightarrow> 'l effect \<times> ('u, 'b, 'l) Connection" where
  "handleBatchCommand now msg irc =
    (if length (Params msg) < 1 \<or> length (Params msg ! 0) < 2 then (LogInvalid, irc)
     else
       let start = (Params msg ! 0 ! 0 = CHR ''+'') in
       if \<not> start \<and> Params msg ! 0 ! 0 \<noteq> CHR ''-'' then (LogInvalid, irc)
       else
         let batchID = drop 1 (Params msg ! 0);
             (isNested, parentBatchID) = GetTag msg ''batch'';
             label = (if start then (case GetTag msg ''label'' of
                        (True, labelStr) \<Rightarrow> deserializeLabel labelStr | (False, _) \<Rightarrow> 0) else 0)
         in if start then batch_start now msg batchID isNested parentBatchID label irc
            else batch_end batchID isNested irc)"

definition handleBatchedCommand :: "Message \<Rightarrow> string \<Rightarrow> ('u, 'b, 'l) Connection \<Rightarrow> 'l effect \<times> ('u, 'b, 'l) Connection" where
  "handleBatchedCommand msg batchID irc =
    (case batches irc batchID of
       None \<Rightarrow> (LogInvalid, irc)
     | Some bip \<Rightarrow>
         let (item, irc1) = new_batch msg irc in (NoEffect, append_item (bip_batch bip) item irc1))"

text \<open>\<open>runCallbacks\<close> up to the calls it ends in.\<close>

definition route_label :: "Message \<Rightarrow> ('u, 'b, 'l) Connection \<Rightarrow> 'l effect \<times> ('u, 'b, 'l) Connection" where
  "route_label msg irc =
    (case (if labelNegotiated irc then GetTag msg ''label'' else (False, [])) of
       (False, _) \<Rightarrow> (RunMessage msg, irc)
     | (True, labelStr) \<Rightarrow>
         let label = deserializeLabel labelStr;
             (labelCallback, irc1) = (if label \<noteq> 0 then getLabelCallback label irc else (None, irc))
         in case labelCallback of
              None \<Rightarrow> (LogInvalid, irc1)
            | Some callback \<Rightarrow> let (b, irc2) = new_batch msg irc1 in (CallLabel callback b, irc2))"

definition route :: "int \<Rightarrow> Message \<Rightarrow> ('u, 'b, 'l) Connection \<Rightarrow> 'l effect \<times> ('u, 'b, 'l) Connection" where
  "route now msg irc =
    (if batchNegotiated irc \<and> Command msg = ''BATCH'' then handleBatchCommand now msg irc
     else
       case (if batchNegotiated irc then GetTag msg ''batch'' else (False, [])) of
         (True, batchID) \<Rightarrow> handleBatchedCommand msg batchID irc
       | (False, _) \<Rightarrow> route_label msg irc)"

subsection \<open>Handling a finished batch\<close>

text \<open>
  \<open>handle\<close> is \<open>HandleMessage\<close>, an action of some state. The recursion follows the pointers of the
  store; \<open>None\<close> means that it does not return.
\<close>

partial_function (option) naive_items :: "(Message \<Rightarrow> 's \<Rightarrow> 's) \<Rightarrow> Batch list \<Rightarrow> addr list \<Rightarrow> 's \<Rightarrow> 's option" where
  "naive_items handle h as s =
    (case as of
       [] \<Rightarrow> Some s
     | a # rest \<Rightarrow>
         (let b = h ! a;
              s1 = (if Command (batch_Message b) \<noteq> ''BATCH'' then handle (batch_Message b) s else s)
          in Option.bind (naive_items handle h (Items b) s1) (naive_items handle h rest)))"

declare naive_items.simps [go_eval]

definition handleBatchNaively :: "(Message \<Rightarrow> 's \<Rightarrow> 's) \<Rightarrow> Batch list \<Rightarrow> addr \<Rightarrow> 's \<Rightarrow> 's option" where
  "handleBatchNaively handle h batch s = naive_items handle h [batch] s"

text \<open>\<open>run\<close> calls a batch callback; the first one that returns true ends the search.\<close>

fun HandleBatch :: "('b \<Rightarrow> addr \<Rightarrow> 's \<Rightarrow> bool \<times> 's) \<Rightarrow> (Message \<Rightarrow> 's \<Rightarrow> 's) \<Rightarrow> Batch list \<Rightarrow> 'b callbackPair list
    \<Rightarrow> addr \<Rightarrow> 's \<Rightarrow> 's option" where
  "HandleBatch run handle h [] batch s = handleBatchNaively handle h batch s"
| "HandleBatch run handle h (bh # bhs) batch s =
    (case run (pair_callback bh) batch s of
       (True, s1) \<Rightarrow> Some s1
     | (False, s1) \<Rightarrow> HandleBatch run handle h bhs batch s1)"

subsection \<open>Expiry\<close>

text \<open>\<open>order\<close> lists the keys of \<open>labelCallbacks\<close>. The label functions to be called with nil are returned.\<close>

definition label_expired :: "bool \<Rightarrow> int \<Rightarrow> ('u, 'b, 'l) Connection \<Rightarrow> 'l pendingLabel \<Rightarrow> bool" where
  "label_expired force now irc lcb \<longleftrightarrow> force \<or> now - pl_createdAt lcb > KeepAlive irc"

definition expireBatches :: "bool \<Rightarrow> int \<Rightarrow> 64 word list \<Rightarrow> ('u, 'b, 'l) Connection \<Rightarrow> 'l list \<times> ('u, 'b, 'l) Connection" where
  "expireBatches force now order irc =
    (let expired = filter (\<lambda>label. case labelCallbacks irc label of
            Some lcb \<Rightarrow> label_expired force now irc lcb | None \<Rightarrow> False) order
     in (map (\<lambda>label. pl_callback (the (labelCallbacks irc label))) expired,
         irc\<lparr>labelCallbacks := (\<lambda>label. if label \<in> set expired then None else labelCallbacks irc label),
           batches := (\<lambda>i. case batches irc i of
             Some bip \<Rightarrow> if now - bip_createdAt bip > KeepAlive irc then None else Some bip
           | None \<Rightarrow> None)\<rparr>))"

subsection \<open>Labels: a codec\<close>

lemma label_inverse: "deserializeLabel (serializeLabel label) = label"
proof -
  have len: "LENGTH(64) = 64" by simp
  have "ParseInt (FormatInt (sint label) 32) 32 64 = Some (sint label)"
    by (rule ParseInt_FormatInt)
      (simp, simp, rule sint_ge [of label, unfolded len], rule sint_lt [of label, unfolded len], simp)
  then show ?thesis by (simp add: deserializeLabel_def serializeLabel_def labelBase_def)
qed

interpretation label_codec: codec serializeLabel deserializeLabel "\<lambda>_. True"
  by unfold_locales (rule label_inverse)

subsection \<open>Pending labels\<close>

definition labels_inv :: "('u, 'b, 'l) Connection \<Rightarrow> bool" where
  "labels_inv irc \<longleftrightarrow> finite (dom (labelCallbacks irc)) \<and> (\<forall>l\<in>dom (labelCallbacks irc). l \<noteq> 0 \<and> l \<le> labelCounter irc)"

definition pending_callbacks :: "(64 word \<rightharpoonup> 'l pendingLabel) \<Rightarrow> 'l multiset" where
  "pending_callbacks m = image_mset (\<lambda>l. pl_callback (the (m l))) (mset_set (dom m))"

lemma pending_empty [simp]: "pending_callbacks Map.empty = {#}"
  by (simp add: pending_callbacks_def)

lemma pending_insert:
  assumes "finite (dom m)" "m l = None"
  shows "pending_callbacks (m(l \<mapsto> lc)) = add_mset (pl_callback lc) (pending_callbacks m)"
proof -
  have "l \<notin> dom m" using assms(2) by auto
  then have "image_mset (\<lambda>k. pl_callback (the ((m(l \<mapsto> lc)) k))) (mset_set (dom m)) = pending_callbacks m"
    unfolding pending_callbacks_def by (intro image_mset_cong) (use assms(1) in auto)
  with assms(1) \<open>l \<notin> dom m\<close> show ?thesis by (simp add: pending_callbacks_def)
qed

lemma pending_remove:
  assumes "finite (dom m)" "m l = Some lc"
  shows "pending_callbacks m = add_mset (pl_callback lc) (pending_callbacks (m(l := None)))"
proof -
  have "m = (m(l := None))(l \<mapsto> lc)" using assms(2) by (auto simp: fun_eq_iff)
  moreover have "finite (dom (m(l := None)))" using assms(1) by simp
  ultimately show ?thesis using pending_insert [of "m(l := None)" l lc] by simp
qed

lemma pending_filter:
  assumes "distinct order" "set order = dom m"
  shows "pending_callbacks m = mset (map (\<lambda>l. pl_callback (the (m l))) (filter P order)) +
    pending_callbacks (\<lambda>l. if l \<in> set (filter P order) then None else m l)"
proof -
  let ?m' = "\<lambda>l. if l \<in> set (filter P order) then None else m l"
  let ?f = "\<lambda>m l. pl_callback (the (m l))"
  have d: "dom ?m' = set (filter (\<lambda>l. \<not> P l) order)" using assms(2) by (auto split: if_splits)
  have rest: "image_mset (?f ?m') (mset_set (dom ?m')) = image_mset (?f m) (mset (filter (\<lambda>l. \<not> P l) order))"
    unfolding d mset_set_set [OF distinct_filter [OF assms(1)]] by (rule image_mset_cong) auto
  have "mset_set (dom m) = mset order"
    unfolding assms(2) [symmetric] by (rule mset_set_set [OF assms(1)])
  also have "\<dots> = mset (filter P order) + mset (filter (\<lambda>l. \<not> P l) order)"
    unfolding mset_filter by (rule multiset_partition)
  finally show ?thesis
    unfolding pending_callbacks_def rest by (simp only: image_mset_union mset_map)
qed

subsection \<open>What a line does to the pending labels\<close>

lemma new_batch_frame [simp]:
  "labelCallbacks (snd (new_batch msg irc)) = labelCallbacks irc"
  "labelCounter (snd (new_batch msg irc)) = labelCounter irc"
  "batches (snd (new_batch msg irc)) = batches irc"
  "batch_heap (snd (new_batch msg irc)) = batch_heap irc @ [\<lparr>batch_Message = msg, Items = []\<rparr>]"
  "capFlags (snd (new_batch msg irc)) = capFlags irc"
  "fst (new_batch msg irc) = length (batch_heap irc)"
  by (simp_all add: new_batch_def)

lemma append_item_frame [simp]:
  "labelCallbacks (append_item a b irc) = labelCallbacks irc"
  "labelCounter (append_item a b irc) = labelCounter irc"
  "batches (append_item a b irc) = batches irc"
  "capFlags (append_item a b irc) = capFlags irc"
  "length (batch_heap (append_item a b irc)) = length (batch_heap irc)"
  by (simp_all add: append_item_def)

text \<open>A label function is called by taking its entry out of the table.\<close>

definition label_effect :: "'l effect \<Rightarrow> ('u, 'b, 'l) Connection \<Rightarrow> ('u, 'b, 'l) Connection \<Rightarrow> bool" where
  "label_effect eff irc irc' \<longleftrightarrow> labelCounter irc' = labelCounter irc \<and>
    (case eff of
       CallLabel cb b \<Rightarrow> \<exists>l lc. labelCallbacks irc l = Some lc \<and> pl_callback lc = cb \<and>
         labelCallbacks irc' = (labelCallbacks irc)(l := None)
     | _ \<Rightarrow> labelCallbacks irc' = labelCallbacks irc)"

lemma label_effect_start:
  "label_effect (fst (batch_start now msg i nested par label irc)) irc (snd (batch_start now msg i nested par label irc))"
  by (simp add: batch_start_def label_effect_def Let_def case_prod_unfold split: option.split)

lemma label_effect_end: "label_effect (fst (batch_end i nested irc)) irc (snd (batch_end i nested irc))"
  by (auto simp: batch_end_def label_effect_def Let_def getLabelCallbackNoMutex_def split: option.split)

lemma label_effect_batched:
  "label_effect (fst (handleBatchedCommand msg i irc)) irc (snd (handleBatchedCommand msg i irc))"
  by (simp add: handleBatchedCommand_def label_effect_def Let_def case_prod_unfold split: option.split)

lemma label_effect_label: "label_effect (fst (route_label msg irc)) irc (snd (route_label msg irc))"
proof -
  have "label_effect LogInvalid irc irc" "label_effect (RunMessage msg) irc irc"
    by (simp_all add: label_effect_def)
  then show ?thesis
    by (auto simp: route_label_def Let_def getLabelCallback_def getLabelCallbackNoMutex_def case_prod_unfold
        split: option.split bool.split) (auto simp: label_effect_def)
qed

lemma label_effect_command:
  "label_effect (fst (handleBatchCommand now msg irc)) irc (snd (handleBatchCommand now msg irc))"
  by (simp add: handleBatchCommand_def Let_def case_prod_unfold label_effect_start label_effect_end)
    (simp add: label_effect_def)

lemma label_effect_route: "label_effect (fst (route now msg irc)) irc (snd (route now msg irc))"
  by (simp add: route_def label_effect_command label_effect_batched label_effect_label
      split: prod.split bool.split)

lemma labels_inv_shrink:
  "labels_inv irc \<Longrightarrow> labelCounter irc' = labelCounter irc \<Longrightarrow>
   labelCallbacks irc' \<subseteq>\<^sub>m labelCallbacks irc \<Longrightarrow> labels_inv irc'"
  unfolding labels_inv_def by (metis finite_subset map_le_implies_dom_le subsetD)

lemma SendIRCMessage_labels [simp]:
  "labelCallbacks (snd (SendIRCMessage msg tord cord irc)) = labelCallbacks irc"
  "labelCounter (snd (SendIRCMessage msg tord cord irc)) = labelCounter irc"
  "KeepAlive (snd (SendIRCMessage msg tord cord irc)) = KeepAlive irc"
  by (rule SendIRCMessage_cases [of irc msg tord cord]; simp)+

lemma next_label_fresh:
  assumes "labels_inv irc" "labelCounter irc + 1 \<noteq> 0" shows "labelCallbacks irc (labelCounter irc + 1) = None"
proof (rule ccontr)
  assume "labelCallbacks irc (labelCounter irc + 1) \<noteq> None"
  then have "labelCounter irc + 1 \<le> labelCounter irc" using assms(1) by (auto simp: labels_inv_def)
  with assms(2) show False by unat_arith
qed

lemma SendWithLabel_labels:
  assumes "labels_inv irc" "labelCounter irc + 1 \<noteq> 0"
    "SendWithLabel now cb tagList tord cord command params irc = (r, irc')"
  shows "labels_inv irc' \<and>
    (case r of
       Some (Some err) \<Rightarrow> labelCallbacks irc' = labelCallbacks irc
     | _ \<Rightarrow> labelCallbacks irc' = (labelCallbacks irc)(labelCounter irc + 1 \<mapsto> \<lparr>pl_createdAt = now, pl_callback = cb\<rparr>))"
proof (cases "labelNegotiated irc")
  case False
  with assms show ?thesis by (auto simp: SendWithLabel_def)
next
  case True
  define n where "n = labelCounter irc + 1"
  define irc1 where "irc1 = snd (registerLabel now cb irc)"
  define m where "m = SetTag (MakeMessage tagList [] command params) ''label'' (serializeLabel n)"
  have reg: "registerLabel now cb irc = (serializeLabel n, irc1)"
    by (simp add: registerLabel_def irc1_def n_def Let_def)
  have l1: "labelCallbacks irc1 = (labelCallbacks irc)(n \<mapsto> \<lparr>pl_createdAt = now, pl_callback = cb\<rparr>)"
    "labelCounter irc1 = n"
    by (simp_all add: irc1_def registerLabel_def n_def Let_def)
  obtain r2 irc2 where s: "SendIRCMessage m tord cord irc1 = (r2, irc2)" by fastforce
  then have l2: "labelCallbacks irc2 = (labelCallbacks irc)(n \<mapsto> \<lparr>pl_createdAt = now, pl_callback = cb\<rparr>)"
    "labelCounter irc2 = n"
    using SendIRCMessage_labels [of m tord cord irc1] by (simp_all add: l1)
  have fresh: "labelCallbacks irc n = None" unfolding n_def by (rule next_label_fresh [OF assms(1,2)])
  have "labelCounter irc \<le> n" using assms(2) unfolding n_def by unat_arith
  then have inv: "finite (dom (labelCallbacks irc))" "\<forall>l\<in>dom (labelCallbacks irc). l \<noteq> 0 \<and> l \<le> n"
    using assms(1) by (auto simp: labels_inv_def intro: order_trans)
  have n0: "n \<noteq> 0" using assms(2) by (simp add: n_def)
  show ?thesis
  proof (cases "\<exists>err. r2 = Some (Some err)")
    case True
    then obtain err where "r2 = Some (Some err)" by blast
    with assms(3) \<open>labelNegotiated irc\<close> have r: "r = Some (Some err)" "irc' = unregisterLabel (serializeLabel n) irc2"
      by (simp_all add: SendWithLabel_def reg flip: m_def) (auto simp: s)
    have "labelCallbacks irc' = labelCallbacks irc" "labelCounter irc' = n"
      using fresh n0 l2 by (simp_all add: r unregisterLabel_def Let_def label_inverse fun_upd_idem)
    with inv r show ?thesis by (simp add: labels_inv_def)
  next
    case False
    with assms(3) \<open>labelNegotiated irc\<close> have r: "irc' = irc2" "r = r2"
      by (auto simp: SendWithLabel_def reg s simp flip: m_def split: option.splits)
    with l2 inv n0 False show ?thesis
      by (auto simp: labels_inv_def n_def split: option.splits)
  qed
qed

subsection \<open>Histories of labels\<close>

text \<open>
  What can happen to the labels of one connection: sends with a label (a panic of the send aside),
  received lines, and expiry. The two lists are the callbacks passed to successful sends and the
  callbacks invoked, both in order.
\<close>

inductive label_history :: "('u, 'b, 'l) Connection \<Rightarrow> 'l list \<Rightarrow> 'l list \<Rightarrow> bool" where
  connected: "labelCallbacks irc = Map.empty \<Longrightarrow> label_history irc [] []"
| sent: "label_history irc rs is \<Longrightarrow> labelCounter irc + 1 \<noteq> 0 \<Longrightarrow>
    SendWithLabel now cb tagList tord cord command params irc = (Some None, irc') \<Longrightarrow>
    label_history irc' (rs @ [cb]) is"
| not_sent: "label_history irc rs is \<Longrightarrow> labelCounter irc + 1 \<noteq> 0 \<Longrightarrow>
    SendWithLabel now cb tagList tord cord command params irc = (Some (Some err), irc') \<Longrightarrow>
    label_history irc' rs is"
| received: "label_history irc rs is \<Longrightarrow> route now msg irc = (CallLabel cb b, irc') \<Longrightarrow>
    label_history irc' rs (is @ [cb])"
| received_other: "label_history irc rs is \<Longrightarrow> route now msg irc = (eff, irc') \<Longrightarrow> (\<nexists>cb b. eff = CallLabel cb b) \<Longrightarrow>
    label_history irc' rs is"
| expired: "label_history irc rs is \<Longrightarrow> distinct order \<Longrightarrow> set order = dom (labelCallbacks irc) \<Longrightarrow>
    expireBatches force now order irc = (cbs, irc') \<Longrightarrow> label_history irc' rs (is @ cbs)"

lemma expire_labels:
  assumes "distinct order" "set order = dom (labelCallbacks irc)" "expireBatches force now order irc = (cbs, irc')"
  shows "pending_callbacks (labelCallbacks irc) = mset cbs + pending_callbacks (labelCallbacks irc')"
    and "labelCallbacks irc' \<subseteq>\<^sub>m labelCallbacks irc" and "labelCounter irc' = labelCounter irc"
    and "force \<Longrightarrow> labelCallbacks irc' = Map.empty"
proof -
  show "pending_callbacks (labelCallbacks irc) = mset cbs + pending_callbacks (labelCallbacks irc')"
    using pending_filter [OF assms(1,2)] assms(3) by (auto simp: expireBatches_def Let_def)
  show "labelCallbacks irc' \<subseteq>\<^sub>m labelCallbacks irc" "labelCounter irc' = labelCounter irc"
    using assms(3) by (auto simp: expireBatches_def Let_def map_le_def split: if_splits)
  show "labelCallbacks irc' = Map.empty" if force
    using assms(2,3) that
    by (auto simp: expireBatches_def Let_def label_expired_def fun_eq_iff split: option.splits)
qed

lemma label_history_inv:
  "label_history irc rs is \<Longrightarrow> labels_inv irc \<and> mset rs = mset is + pending_callbacks (labelCallbacks irc)"
proof (induction rule: label_history.induct)
  case (connected irc)
  then show ?case by (simp add: labels_inv_def)
next
  case (sent irc rs "is" now cb tagList tord cord command params irc')
  have f: "finite (dom (labelCallbacks irc))" using sent.IH by (simp add: labels_inv_def)
  note n = next_label_fresh [OF conjunct1 [OF sent.IH] sent.hyps(2)]
  from SendWithLabel_labels [OF conjunct1 [OF sent.IH] sent.hyps(2,3)]
  have s: "labels_inv irc'" "labelCallbacks irc' =
      (labelCallbacks irc)(labelCounter irc + 1 \<mapsto> \<lparr>pl_createdAt = now, pl_callback = cb\<rparr>)" by simp_all
  with sent.IH show ?case unfolding s(2) pending_insert [OF f n] by simp
next
  case (not_sent irc rs "is" now cb tagList tord cord command params err irc')
  from SendWithLabel_labels [OF conjunct1 [OF not_sent.IH] not_sent.hyps(2,3)] not_sent.IH show ?case by simp
next
  case (received irc rs "is" now msg cb b irc')
  from label_effect_route [of now msg irc] received.hyps(2) obtain l lc where
    l: "labelCallbacks irc l = Some lc" "pl_callback lc = cb" "labelCallbacks irc' = (labelCallbacks irc)(l := None)"
    and c: "labelCounter irc' = labelCounter irc" by (auto simp: label_effect_def)
  have f: "finite (dom (labelCallbacks irc))" using received.IH by (simp add: labels_inv_def)
  have "labelCallbacks irc' \<subseteq>\<^sub>m labelCallbacks irc" by (auto simp: map_le_def l(3))
  with received.IH c have "labels_inv irc'" by (blast intro: labels_inv_shrink)
  moreover have "mset rs = mset is + add_mset cb (pending_callbacks ((labelCallbacks irc)(l := None)))"
    using received.IH pending_remove [OF f l(1)] unfolding l(2) by simp
  moreover have "pending_callbacks (labelCallbacks irc') = pending_callbacks ((labelCallbacks irc)(l := None))"
    by (simp only: l(3))
  ultimately show ?case by simp
next
  case (received_other irc rs "is" now msg eff irc')
  from label_effect_route [of now msg irc] received_other.hyps(2,3)
  have "labelCallbacks irc' = labelCallbacks irc" "labelCounter irc' = labelCounter irc"
    by (auto simp: label_effect_def split: effect.splits)
  with received_other.IH show ?case by (simp add: labels_inv_def)
next
  case (expired irc rs "is" order force now cbs irc')
  note e = expire_labels [OF expired.hyps(2-4)]
  from expired.IH e(1) labels_inv_shrink [OF _ e(3,2)] show ?case by auto
qed

subsection \<open>Properties\<close>

text \<open>A label function is called exactly once: in any history of labeled sends, received lines and expiry,
  no function is called more often than it was passed to a successful send, and after the forced expiry
  with which a connection ends (called with nil where no response came) each has been called exactly as
  often. So nobody waits for a labeled response for ever.\<close>

theorem labels_called_once:
  assumes "label_history irc rs cs" "distinct order" "set order = dom (labelCallbacks irc)"
    "expireBatches True now order irc = (cbs, irc')"
  shows "mset cs \<subseteq># mset rs \<and> mset (cs @ cbs) = mset rs \<and> labelCallbacks irc' = Map.empty"
proof -
  note e = expire_labels [OF assms(2-4)]
  from label_history_inv [OF assms(1)] have "mset rs = mset cs + pending_callbacks (labelCallbacks irc)" by simp
  with e(1) e(4) show ?thesis by simp
qed

definition ex_running :: "(bool, bool, 'l) Connection" where
  "ex_running = (processAckedCaps [''batch'', ''labeled-response''] zero_Connection)\<lparr>running := True, MaxLineLen := 512\<rparr>"

lemma ex_running_ok: "labelNegotiated (ex_running :: (bool, bool, 'l) Connection)" "labelCallbacks (ex_running :: (bool, bool, 'l) Connection) = Map.empty" "labelCounter (ex_running :: (bool, bool, 'l) Connection) = 0"
  "running (ex_running :: (bool, bool, 'l) Connection)" "MaxLineLen (ex_running :: (bool, bool, 'l) Connection) = 512" "AllowTruncation (ex_running :: (bool, bool, 'l) Connection) = False"
proof -
  show "labelNegotiated (ex_running :: (bool, bool, 'l) Connection)"
    using negotiated_processAckedCaps(2) [of "[''batch'', ''labeled-response'']"
        "zero_Connection :: (bool, bool, 'l) Connection"]
    by (simp add: ex_running_def labelNegotiated_def)
qed (simp_all add: ex_running_def processAckedCaps_def Let_def zero_Connection_def)

lemma ex_send:
  obtains irc1 :: "(bool, bool, 'l) Connection" where "SendWithLabel 5 cb [] [(''label'', ''1'')] [] ''WHOIS'' [''n''] ex_running = (Some None, irc1)"
    "dom (labelCallbacks irc1) = {1}"
proof -
  define irc1 :: "(bool, bool, 'l) Connection" where "irc1 = snd (registerLabel 5 cb ex_running)"
  have reg: "registerLabel 5 cb ex_running = (''1'', irc1)"
    by (simp add: registerLabel_def irc1_def Let_def ex_running_ok serializeLabel_def FormatInt_def labelBase_def
        FormatUint.simps digit_char_def char_eval)
  have f: "running irc1" "MaxLineLen irc1 = 512" "AllowTruncation irc1 = False"
    "labelCallbacks irc1 = [1 \<mapsto> \<lparr>pl_createdAt = 5, pl_callback = cb\<rparr>]"
    by (simp_all add: irc1_def registerLabel_def Let_def ex_running_ok)
  define b where "b = ''@label=1 WHOIS n'' @ [CHR 0x0D, CHR 0x0A]"
  have b: "LineBytesStrict (SetTag (MakeMessage [] [] ''WHOIS'' [''n'']) ''label'' ''1'')
      [(''label'', ''1'')] [] True 512 = Some (b, None)"
  proof -
    have ok: "validateTagName ''label''" "validateTagValue ''1''" "escape_byte (CHR ''1'') = ''1''"
      by (simp_all add: validateTagName_def valid_name_byte_def validateTagValue_def RuneError_def
          escape_byte_def go_eval)
    have m: "SetTag (MakeMessage [] [] ''WHOIS'' [''n'']) ''label'' ''1'' =
        zero_Message\<lparr>Command := ''WHOIS'', Params := [''n''], tags := [''label'' \<mapsto> ''1'']\<rparr>"
      by (simp add: MakeMessage_def SetTag_def zero_Message_def)
    show ?thesis
      unfolding m b_def
      by (simp add: LineBytesStrict_def line_def line_tags_def ok Let_def zero_Message_def
          MaxlenTagsFromClient_def MaxlenClientTagData_def paramRequiresTrailing_def line_truncate_def forbidden_def)
  qed
  have "SendWithLabel 5 cb [] [(''label'', ''1'')] [] ''WHOIS'' [''n''] ex_running =
      (Some None, irc1\<lparr>pwrite := pwrite irc1 @ [b]\<rparr>)"
    by (simp add: SendWithLabel_def ex_running_ok reg SendIRCMessage_def f b sendInternal_def)
  then show thesis by (rule that) (simp add: f)
qed

lemma labels_called_once_witness:
  "\<exists>irc1. SendWithLabel 5 ''cb'' [] [(''label'', ''1'')] [] ''WHOIS'' [''n''] ex_running = (Some None, irc1) \<and>
    fst (expireBatches True 9 [1] irc1) = [''cb'']"
proof (rule ex_send [of "''cb''"])
  fix irc1 :: "(bool, bool, string) Connection"
  assume s: "SendWithLabel 5 ''cb'' [] [(''label'', ''1'')] [] ''WHOIS'' [''n''] ex_running = (Some None, irc1)"
    and d: "dom (labelCallbacks irc1) = {1}"
  have h: "label_history irc1 [''cb''] []"
    using label_history.sent [OF label_history.connected _ s] by (simp add: ex_running_ok)
  obtain cbs irc' where e: "expireBatches True 9 [1] irc1 = (cbs, irc')" by fastforce
  from labels_called_once [OF h _ _ e] d have "mset cbs = {#''cb''#}" by simp
  with s e show ?thesis by simp
qed

end
