(* ===== verification/Event_Handlers.thy ===== *)
theory Event_Handlers
  imports Event_Registry Event_Batch Utils_SASL
begin

text \<open>
  The package's own handlers (\<^verbatim>\<open>ircevent/irc_callback.go\<close>, \<^verbatim>\<open>irc_sasl.go\<close>, \<^verbatim>\<open>irc_ctcp.go\<close>): PING and PONG,
  nicknames, ISUPPORT, registration, CAP, SASL and CTCP, each an action on the connection, and
  \<open>setupCallbacks\<close>, which registers them. A send on a channel in a \<open>select\<close> with a default appends
  when there is room and is dropped otherwise. Logging is left out.
\<close>

subsection \<open>PING and PONG\<close>

definition keepalivePrefix :: string where
  "keepalivePrefix = ''KeepAlive-''"

definition recordPong :: "string \<Rightarrow> ('u, 'b, 'l) Connection \<Rightarrow> ('u, 'b, 'l) Connection" where
  "recordPong param irc =
    (let ts = TrimPrefix param keepalivePrefix in
     if ts = param then irc
     else case ParseInt ts 10 64 of None \<Rightarrow> irc | Some t \<Rightarrow> irc\<lparr>pingSent := False\<rparr>)"

definition ping :: "int \<Rightarrow> (('u, 'b, 'l) Connection, unit) act" where
  "ping now = act_then (Send ''PING'' [keepalivePrefix @ FormatInt now 10]) (act_return ())"

definition handlePing :: "Message \<Rightarrow> (('u, 'b, 'l) Connection, unit) act" where
  "handlePing e = act_then (Send ''PONG'' [lastParam e]) (act_return ())"

subsection \<open>Nicknames and registration\<close>

definition handleRplWelcome :: "Message \<Rightarrow> ('u, 'b, 'l) Connection \<Rightarrow> ('u, 'b, 'l) Connection" where
  "handleRplWelcome e irc = (if length (Params e) > 0 then irc\<lparr>currentNick := Params e ! 0\<rparr> else irc)"

definition handleNick :: "Message \<Rightarrow> ('u, 'b, 'l) Connection \<Rightarrow> ('u, 'b, 'l) Connection" where
  "handleNick e irc =
    (if Nick e = CurrentNick irc \<and> length (Params e) > 0 then setCurrentNick (Params e ! 0) irc else irc)"

definition handleUnavailableNick :: "Message \<Rightarrow> (('u, 'b, 'l) Connection, unit) act" where
  "handleUnavailableNick e =
    (\<lambda>irc. if currentNick irc = [] then
        let nickToTry = irc_Nick irc @ ''_'' @ FormatInt (nickCounter irc) 10 in
        act_then (Send ''NICK'' [nickToTry]) (act_return ()) (irc\<lparr>nickCounter := nickCounter irc + 1\<rparr>)
      else (Some (), irc))"

definition handleRegistration :: "Message \<Rightarrow> ('u, 'b, 'l) Connection \<Rightarrow> ('u, 'b, 'l) Connection" where
  "handleRegistration e irc =
    (let irc1 =
       (if registered irc then irc
        else irc\<lparr>registered := True,
               isupport := (case isupportPartial irc of None \<Rightarrow> Map.empty | Some m \<Rightarrow> m),
               isupportPartial := None\<rparr>)
     in if welcomeChan irc1 < 1 then irc1\<lparr>welcomeChan := welcomeChan irc1 + 1\<rparr> else irc1)"

subsection \<open>ISUPPORT\<close>

function unescape_isupport_loop :: "string \<Rightarrow> string" where
  "unescape_isupport_loop s =
    (case s of
       [] \<Rightarrow> []
     | c # rest \<Rightarrow>
         (case (if c = CHR 0x5C \<and> 3 < length s \<and> s ! 1 = CHR ''x'' then ParseInt (take 2 (drop 2 s)) 16 8
                else None) of
            Some octet \<Rightarrow> char_of (nat (octet mod 256)) # unescape_isupport_loop (drop 4 s)
          | None \<Rightarrow> c # unescape_isupport_loop rest))"
  by pat_completeness auto
termination
  by (relation "measure length") auto

declare unescape_isupport_loop.simps [simp del, go_eval]

definition unescapeISupportValue :: "string \<Rightarrow> string" where
  "unescapeISupportValue s = (if IndexByte s (CHR 0x5C) = None then s else unescape_isupport_loop s)"

definition isupport_token :: "string \<Rightarrow> string \<times> string" where
  "isupport_token token =
    (case IndexByte token (CHR ''='') of
       None \<Rightarrow> (token, [])
     | Some equalsIdx \<Rightarrow> (take equalsIdx token, unescapeISupportValue (drop (equalsIdx + 1) token)))"

definition handleISupport :: "Message \<Rightarrow> ('u, 'b, 'l) Connection \<Rightarrow> ('u, 'b, 'l) Connection" where
  "handleISupport e irc =
    (case isupportPartial irc of
       None \<Rightarrow> irc
     | Some m0 \<Rightarrow>
         if length (Params e) < 3 then irc
         else
           irc\<lparr>isupportPartial :=
             Some (fold (\<lambda>token m. m(fst (isupport_token token) \<mapsto> snd (isupport_token token)))
               (butlast (tl (Params e))) m0)\<rparr>)"

subsection \<open>CAP\<close>

definition splitCAPToken :: "string \<Rightarrow> string \<times> string" where
  "splitCAPToken token =
    (case IndexByte token (CHR ''='') of
       None \<Rightarrow> (token, [])
     | Some equalIdx \<Rightarrow> (take equalIdx token, drop (equalIdx + 1) token))"

definition sliceContains :: "string \<Rightarrow> string list \<Rightarrow> bool" where
  "sliceContains str list \<longleftrightarrow> list_ex (\<lambda>x. x = str) list"

definition submitCapResult :: "capResult \<Rightarrow> ('u, 'b, 'l) Connection \<Rightarrow> ('u, 'b, 'l) Connection" where
  "submitCapResult r irc =
    (if length (capsChan irc) < capsChanCap irc then irc\<lparr>capsChan := capsChan irc @ [r]\<rparr> else irc)"

definition record_advertised :: "string list \<Rightarrow> ('u, 'b, 'l) Connection \<Rightarrow> ('u, 'b, 'l) Connection" where
  "record_advertised params irc =
    (let m0 = (case capsAdvertised irc of None \<Rightarrow> Map.empty | Some m \<Rightarrow> m);
         m1 = fold (\<lambda>token m. m(fst (splitCAPToken token) \<mapsto> snd (splitCAPToken token)))
                (Fields (params ! (length params - 1))) m0
     in irc\<lparr>capsAdvertised := Some m1\<rparr>)"

definition is_advertised :: "('u, 'b, 'l) Connection \<Rightarrow> string \<Rightarrow> bool" where
  "is_advertised irc c \<longleftrightarrow> (case capsAdvertised irc of None \<Rightarrow> False | Some m \<Rightarrow> m c \<noteq> None)"

definition handleCAPLS :: "string list \<Rightarrow> (('u, 'b, 'l) Connection, unit) act" where
  "handleCAPLS params =
    (\<lambda>irc. if registered irc then (Some (), irc)
      else
        let irc1 = record_advertised params irc;
            final = (length params = 1);
            capsToReq = (if final then filter (is_advertised irc1) (RequestCaps irc1) else []);
            capsNotFound = (if final then filter (\<lambda>c. \<not> is_advertised irc1 c) (RequestCaps irc1) else [])
        in act_then (act_for capsToReq (\<lambda>c. Send ''CAP'' [''REQ'', c]))
             (act_for capsNotFound (\<lambda>c. act_modify (submitCapResult \<lparr>capName = c, ack = False\<rparr>))) irc1)"

definition handleCAP :: "Message \<Rightarrow> (('u, 'b, 'l) Connection, unit) act" where
  "handleCAP e =
    (\<lambda>irc. if length (Params e) < 3 then (Some (), irc)
      else if Params e ! 1 = ''LS'' then handleCAPLS (drop 2 (Params e)) irc
      else if Params e ! 1 = ''ACK'' \<or> Params e ! 1 = ''NAK'' then
        act_for (Fields (Params e ! 2))
          (\<lambda>token. act_modify (\<lambda>irc.
             let name = fst (splitCAPToken token) in
             if sliceContains name (RequestCaps irc)
             then submitCapResult \<lparr>capName = name, ack = (Params e ! 1 = ''ACK'')\<rparr> irc else irc)) irc
      else (Some (), irc))"

subsection \<open>SASL\<close>

definition submitSASLResult :: "saslResult \<Rightarrow> ('u, 'b, 'l) Connection \<Rightarrow> ('u, 'b, 'l) Connection" where
  "submitSASLResult r irc = (if length (saslChan irc) < 1 then irc\<lparr>saslChan := saslChan irc @ [r]\<rparr> else irc)"

definition composeSaslPlainResponse :: "('u, 'b, 'l) Connection \<Rightarrow> string" where
  "composeSaslPlainResponse irc =
    SASLLogin irc @ [CHR 0x00] @ SASLLogin irc @ [CHR 0x00] @ SASLPassword irc"

definition handleAuthenticate :: "Message \<Rightarrow> (('u, 'b, 'l) Connection, unit) act" where
  "handleAuthenticate e =
    (\<lambda>irc. if SASLMech irc = ''PLAIN'' then
        act_for (EncodeSASLResponse (composeSaslPlainResponse irc)) (\<lambda>resp. Send ''AUTHENTICATE'' [resp]) irc
      else if SASLMech irc = ''EXTERNAL'' then act_then (Send ''AUTHENTICATE'' [''+'']) (act_return ()) irc
      else (Some (), irc))"

definition handleSASLRefused :: "Message \<Rightarrow> (('u, 'b, 'l) Connection, unit) act" where
  "handleSASLRefused e =
    act_then (SendRaw ''CAP END'')
      (act_then (SendRaw ''QUIT'')
        (if length (Params e) < 2 then act_panic
         else act_modify (submitSASLResult \<lparr>Failed = True, Err = Some (SASLRefused (Params e ! 1))\<rparr>)))"

definition handleSASLAccepted :: "Message \<Rightarrow> ('u, 'b, 'l) Connection \<Rightarrow> ('u, 'b, 'l) Connection" where
  "handleSASLAccepted e = submitSASLResult \<lparr>Failed = False, Err = None\<rparr>"

subsection \<open>CTCP\<close>

definition LastIndexByte :: "string \<Rightarrow> char \<Rightarrow> nat option" where
  "LastIndexByte s c = (case IndexByte (rev s) c of None \<Rightarrow> None | Some i \<Rightarrow> Some (length s - 1 - i))"

definition ctcp_command :: "string \<Rightarrow> string \<times> string" where
  "ctcp_command msg =
    (if msg = ''VERSION'' then (''CTCP_VERSION'', msg)
     else if msg = ''TIME'' then (''CTCP_TIME'', msg)
     else if HasPrefix msg ''PING'' then (''CTCP_PING'', msg)
     else if msg = ''USERINFO'' then (''CTCP_USERINFO'', msg)
     else if msg = ''CLIENTINFO'' then (''CTCP_CLIENTINFO'', msg)
     else if HasPrefix msg ''ACTION'' then (''CTCP_ACTION'', if length msg > 6 then drop 7 msg else [])
     else (''CTCP'', msg))"

definition eventRewriteCTCP :: "Message \<Rightarrow> Message" where
  "eventRewriteCTCP event =
    (if \<not> (Command event = ''PRIVMSG'' \<and> length (Params event) = 2 \<and> HasPrefix (Params event ! 1) [CHR 0x01])
     then event
     else
       case LastIndexByte (Params event ! 1) (CHR 0x01) of
         Some i \<Rightarrow>
           if i > 0 then
             let (command, msg) = ctcp_command (take (i - 1) (drop 1 (Params event ! 1)))
             in event\<lparr>Command := command, Params := (Params event)[length (Params event) - 1 := msg]\<rparr>
           else event\<lparr>Command := ''CTCP''\<rparr>
       | None \<Rightarrow> event\<lparr>Command := ''CTCP''\<rparr>)"

definition ctcp_notice :: "Message \<Rightarrow> string \<Rightarrow> (('u, 'b, 'l) Connection, unit) act" where
  "ctcp_notice e body =
    act_then (SendRaw (''NOTICE '' @ Nick e @ '' :'' @ [CHR 0x01] @ body @ [CHR 0x01])) (act_return ())"

definition handleCTCPVersion :: "Message \<Rightarrow> (('u, 'b, 'l) Connection, unit) act" where
  "handleCTCPVersion e = (\<lambda>irc. ctcp_notice e (''VERSION '' @ Version irc) irc)"

definition handleCTCPUserInfo :: "Message \<Rightarrow> (('u, 'b, 'l) Connection, unit) act" where
  "handleCTCPUserInfo e = (\<lambda>irc. ctcp_notice e (''USERINFO '' @ irc_User irc) irc)"

definition handleCTCPClientInfo :: "Message \<Rightarrow> (('u, 'b, 'l) Connection, unit) act" where
  "handleCTCPClientInfo e = ctcp_notice e ''CLIENTINFO PING VERSION TIME USERINFO CLIENTINFO''"

text \<open>\<open>now\<close> is the formatted time.\<close>

definition handleCTCPTime :: "string \<Rightarrow> Message \<Rightarrow> (('u, 'b, 'l) Connection, unit) act" where
  "handleCTCPTime now e = ctcp_notice e (''TIME '' @ now)"

definition handleCTCPPing :: "Message \<Rightarrow> (('u, 'b, 'l) Connection, unit) act" where
  "handleCTCPPing e = (if length (Params e) < 2 then act_panic else ctcp_notice e (Params e ! 1))"

subsection \<open>The functions registered\<close>

fun run_lib :: "string \<Rightarrow> lib_handler \<Rightarrow> Message \<Rightarrow> (('u, 'b, 'l) Connection, unit) act" where
  "run_lib now HandlePing e = handlePing e"
| "run_lib now HandlePong e = act_modify (recordPong (lastParam e))"
| "run_lib now HandleUnavailableNick e = handleUnavailableNick e"
| "run_lib now HandleRplWelcome e = act_modify (handleRplWelcome e)"
| "run_lib now HandleISupport e = act_modify (handleISupport e)"
| "run_lib now HandleNick e = act_modify (handleNick e)"
| "run_lib now HandleError e = act_return ()"
| "run_lib now HandleCAP e = handleCAP e"
| "run_lib now HandleAuthenticate e = handleAuthenticate e"
| "run_lib now HandleSASLRefused e = handleSASLRefused e"
| "run_lib now HandleSASLAccepted e = act_modify (handleSASLAccepted e)"
| "run_lib now HandleCTCPVersion e = handleCTCPVersion e"
| "run_lib now HandleCTCPUserInfo e = handleCTCPUserInfo e"
| "run_lib now HandleCTCPClientInfo e = handleCTCPClientInfo e"
| "run_lib now HandleCTCPTime e = handleCTCPTime now e"
| "run_lib now HandleCTCPPing e = handleCTCPPing e"
| "run_lib now HandleRegistration e = act_modify (handleRegistration e)"
| "run_lib now HandleStandardReplies e = act_return ()"

definition add_lib :: "(nat \<Rightarrow> nat) \<Rightarrow> string \<times> lib_handler \<times> bool \<Rightarrow> ('u, 'b, 'l) Connection \<Rightarrow> ('u, 'b, 'l) Connection" where
  "add_lib upper r irc =
    (case r of (command, h, prepend) \<Rightarrow> snd (addCallback upper irc command (Lib h) prepend 0))"

definition base_callbacks :: "(string \<times> lib_handler \<times> bool) list" where
  "base_callbacks =
    [(''PING'', HandlePing, False), (''PONG'', HandlePong, False),
     (''433'', HandleUnavailableNick, False), (''437'', HandleUnavailableNick, False),
     (''001'', HandleRplWelcome, False), (''005'', HandleISupport, False),
     (''NICK'', HandleNick, True), (''ERROR'', HandleError, False), (''CAP'', HandleCAP, False)]"

definition sasl_callbacks :: "(string \<times> lib_handler \<times> bool) list" where
  "sasl_callbacks =
    [(''AUTHENTICATE'', HandleAuthenticate, False), (''901'', HandleSASLRefused, False),
     (''902'', HandleSASLRefused, False), (''903'', HandleSASLAccepted, False),
     (''904'', HandleSASLRefused, False), (''907'', HandleSASLAccepted, False)]"

definition setupSASLCallbacks :: "(nat \<Rightarrow> nat) \<Rightarrow> ('u, 'b, 'l) Connection \<Rightarrow> ('u, 'b, 'l) Connection" where
  "setupSASLCallbacks upper = fold (add_lib upper) sasl_callbacks"

definition ctcp_callbacks :: "(string \<times> lib_handler \<times> bool) list" where
  "ctcp_callbacks =
    [(''CTCP_VERSION'', HandleCTCPVersion, False), (''CTCP_USERINFO'', HandleCTCPUserInfo, False),
     (''CTCP_CLIENTINFO'', HandleCTCPClientInfo, False), (''CTCP_TIME'', HandleCTCPTime, False),
     (''CTCP_PING'', HandleCTCPPing, False)]"

definition setupCTCPCallbacks :: "(nat \<Rightarrow> nat) \<Rightarrow> ('u, 'b, 'l) Connection \<Rightarrow> ('u, 'b, 'l) Connection" where
  "setupCTCPCallbacks upper = fold (add_lib upper) ctcp_callbacks"

definition final_callbacks :: "(string \<times> lib_handler \<times> bool) list" where
  "final_callbacks =
    [(RPL_ENDOFMOTD, HandleRegistration, True), (ERR_NOMOTD, HandleRegistration, True),
     (''FAIL'', HandleStandardReplies, False), (''WARN'', HandleStandardReplies, False),
     (''NOTE'', HandleStandardReplies, False)]"

definition setupCallbacks :: "(nat \<Rightarrow> nat) \<Rightarrow> ('u, 'b, 'l) Connection \<Rightarrow> ('u, 'b, 'l) Connection" where
  "setupCallbacks upper irc =
    (if hasBaseCallbacks irc then irc
     else
       let irc1 = fold (add_lib upper) base_callbacks (irc\<lparr>hasBaseCallbacks := True\<rparr>);
           irc2 = (if UseSASL irc1 then setupSASLCallbacks upper irc1 else irc1);
           irc3 = (if EnableCTCP irc2 then setupCTCPCallbacks upper irc2 else irc2)
       in fold (add_lib upper) final_callbacks irc3)"

end
