(* ===== verification/Event_Assembly.thy ===== *)
theory Event_Assembly
  imports Event_Batch
begin

text \<open>
  What the batches of \<^verbatim>\<open>ircevent/irc_callback.go\<close> are for: a specification of the tree that the lines of a
  batch stand for, without store and pointers, and the proof that the store holds this tree when the batch
  is closed, however the lines of several batches are interleaved. Then the handling of a finished batch.
\<close>

subsection \<open>The specification\<close>

datatype batch_tree = Node Message "batch_tree list"

datatype line_kind = StartOf string | EndOf string | LineOf string | PlainLine

text \<open>The part a line plays once \<open>batch\<close> has been negotiated.\<close>

definition line_kind :: "Message \<Rightarrow> line_kind" where
  "line_kind m =
    (if Command m = ''BATCH'' then
       (case Params m of
          (c # i) # _ \<Rightarrow>
            if i = [] then PlainLine else if c = CHR ''+'' then StartOf i
            else if c = CHR ''-'' then EndOf i else PlainLine
        | _ \<Rightarrow> PlainLine)
     else (case GetTag m ''batch'' of (True, i) \<Rightarrow> LineOf i | (False, _) \<Rightarrow> PlainLine))"

definition parent_of :: "Message \<Rightarrow> string option" where
  "parent_of m = (case GetTag m ''batch'' of (True, i) \<Rightarrow> Some i | (False, _) \<Rightarrow> None)"

text \<open>
  The items of the open batch \<open>i\<close> among the lines that follow, up to its end; \<open>opn\<close> are the names of
  all open batches. A nested batch stands where it was started, with its own items.
\<close>

fun batch_items :: "string set \<Rightarrow> string \<Rightarrow> Message list \<Rightarrow> batch_tree list" where
  "batch_items opn i [] = []"
| "batch_items opn i (m # ms) =
    (case line_kind m of
       StartOf j \<Rightarrow>
         if j \<in> opn then batch_items opn i ms
         else (if parent_of m = Some i then [Node m (batch_items (insert j opn) j ms)] else [])
           @ batch_items (insert j opn) i ms
     | EndOf j \<Rightarrow> if j = i then [] else batch_items (opn - {j}) i ms
     | LineOf j \<Rightarrow> (if j = i then [Node m []] else []) @ batch_items opn i ms
     | PlainLine \<Rightarrow> batch_items opn i ms)"

text \<open>A batch that names itself as its parent has no tree.\<close>

definition self_parented :: "Message \<Rightarrow> bool" where
  "self_parented m \<longleftrightarrow> (\<exists>j. line_kind m = StartOf j \<and> parent_of m = Some j)"

subsection \<open>Trees in the store\<close>

inductive represents :: "Batch list \<Rightarrow> addr \<Rightarrow> batch_tree \<Rightarrow> bool" for h where
  node: "a < length h \<Longrightarrow> list_all2 (represents h) (Items (h ! a)) ts \<Longrightarrow>
    represents h a (Node (batch_Message (h ! a)) ts)"
monos list.rel_mono

inductive_cases represents_Node: "represents h a (Node m ts)"

definition grown :: "Batch list \<Rightarrow> Batch list \<Rightarrow> addr \<Rightarrow> batch_tree list \<Rightarrow> bool" where
  "grown h h' a ts \<longleftrightarrow>
    (\<exists>as. h' ! a = (h ! a)\<lparr>Items := Items (h ! a) @ as\<rparr> \<and> list_all2 (represents h') as ts)"

lemma grown_refl [simp]: "h' ! a = h ! a \<Longrightarrow> grown h h' a []"
  by (simp add: grown_def)

lemma grown_trans:
  assumes "h1 ! a = (h ! a)\<lparr>Items := Items (h ! a) @ as\<rparr>" "list_all2 (represents h') as ts1" "grown h1 h' a ts2"
  shows "grown h h' a (ts1 @ ts2)"
proof -
  from assms(3) obtain bs where b: "h' ! a = (h1 ! a)\<lparr>Items := Items (h1 ! a) @ bs\<rparr>"
    "list_all2 (represents h') bs ts2" by (auto simp: grown_def)
  have "h' ! a = (h ! a)\<lparr>Items := Items (h ! a) @ (as @ bs)\<rparr>" by (simp add: b(1) assms(1))
  with list_all2_appendI [OF assms(2) b(2)] show ?thesis unfolding grown_def by blast
qed

lemma grown_same: "h1 ! a = h ! a \<Longrightarrow> grown h1 h' a ts \<Longrightarrow> grown h h' a ts"
  by (simp add: grown_def)

lemma grown_represents:
  assumes "grown h1 h' b ts" "h1 ! b = \<lparr>batch_Message = m, Items = []\<rparr>" "b < length h'"
  shows "represents h' b (Node m ts)"
proof -
  from assms(1,2) obtain as where "h' ! b = \<lparr>batch_Message = m, Items = as\<rparr>" "list_all2 (represents h') as ts"
    by (auto simp: grown_def)
  with represents.node [OF assms(3), of ts] show ?thesis by simp
qed

subsection \<open>The steps\<close>

definition open_addrs :: "('u, 'b, 'l) Connection \<Rightarrow> addr set" where
  "open_addrs irc = bip_batch ` ran (batches irc)"

definition batches_inv :: "('u, 'b, 'l) Connection \<Rightarrow> bool" where
  "batches_inv irc \<longleftrightarrow>
    (\<forall>i bip. batches irc i = Some bip \<longrightarrow> bip_batch bip < length (batch_heap irc)) \<and>
    (\<forall>i bi j bj. batches irc i = Some bi \<longrightarrow> batches irc j = Some bj \<longrightarrow> bip_batch bi = bip_batch bj \<longrightarrow> i = j)"

fun feed :: "(int \<times> Message) list \<Rightarrow> ('u, 'b, 'l) Connection \<Rightarrow> ('u, 'b, 'l) Connection" where
  "feed [] irc = irc"
| "feed ((now, m) # tms) irc = feed tms (snd (route now m irc))"

text \<open>What a line of each kind does to the open batches and the store.\<close>

lemma getLabel_frame [simp]:
  "batches (snd (getLabelCallbackNoMutex l irc)) = batches irc"
  "batch_heap (snd (getLabelCallbackNoMutex l irc)) = batch_heap irc"
  "capFlags (snd (getLabelCallbackNoMutex l irc)) = capFlags irc"
  by (simp_all add: getLabelCallbackNoMutex_def split: option.split)

lemma batch_command_shape:
  assumes "Command m = ''BATCH''" "batchNegotiated irc"
  shows "route now m irc = (case line_kind m of
     StartOf j \<Rightarrow> batch_start now m j (parent_of m \<noteq> None) (snd (GetTag m ''batch''))
        (case GetTag m ''label'' of (True, l) \<Rightarrow> deserializeLabel l | (False, _) \<Rightarrow> 0) irc
   | EndOf j \<Rightarrow> batch_end j (parent_of m \<noteq> None) irc
   | _ \<Rightarrow> (LogInvalid, irc))"
proof -
  have "route now m irc = handleBatchCommand now m irc" using assms by (simp add: route_def)
  also have "\<dots> = (case line_kind m of
     StartOf j \<Rightarrow> batch_start now m j (parent_of m \<noteq> None) (snd (GetTag m ''batch''))
        (case GetTag m ''label'' of (True, l) \<Rightarrow> deserializeLabel l | (False, _) \<Rightarrow> 0) irc
   | EndOf j \<Rightarrow> batch_end j (parent_of m \<noteq> None) irc
   | _ \<Rightarrow> (LogInvalid, irc))"
  proof (cases "Params m")
    case Nil
    with assms(1) show ?thesis by (simp add: handleBatchCommand_def line_kind_def)
  next
    case (Cons p ps)
    then show ?thesis
    proof (cases p)
      case Nil
      with assms(1) Cons show ?thesis by (simp add: handleBatchCommand_def line_kind_def)
    next
      case (Cons c i)
      with assms(1) \<open>Params m = p # ps\<close> show ?thesis
        by (cases i; cases "GetTag m ''batch''"; cases "fst (GetTag m ''batch'')")
          (auto simp: handleBatchCommand_def line_kind_def parent_of_def Let_def)
    qed
  qed
  finally show ?thesis .
qed

definition link :: "Batch list \<Rightarrow> addr \<Rightarrow> addr \<Rightarrow> Batch list" where
  "link h a b = h[a := (h ! a)\<lparr>Items := Items (h ! a) @ [b]\<rparr>]"

lemma heap_append_item: "batch_heap (append_item a b irc) = link (batch_heap irc) a b"
  by (simp add: append_item_def link_def)

lemma length_link [simp]: "length (link h a b) = length h"
  by (simp add: link_def)

lemma nth_link: "a < length h \<Longrightarrow> link h a b ! c = (if c = a then (h ! a)\<lparr>Items := Items (h ! a) @ [b]\<rparr> else h ! c)"
  by (simp add: link_def nth_list_update)

lemma nth_link_snoc:
  "p < length h \<Longrightarrow> a < length h \<Longrightarrow>
    link (h @ [b]) p n ! a = (if a = p then (h ! a)\<lparr>Items := Items (h ! a) @ [n]\<rparr> else h ! a)"
  "p < length h \<Longrightarrow> link (h @ [b]) p n ! length h = b"
  by (simp_all add: nth_link nth_append)

abbreviation fresh_batch :: "Message \<Rightarrow> Batch" where
  "fresh_batch m \<equiv> \<lparr>batch_Message = m, Items = []\<rparr>"

lemma route_label_shape:
  "batches (snd (route_label m irc)) = batches irc \<and> capFlags (snd (route_label m irc)) = capFlags irc \<and>
    (\<exists>xs. batch_heap (snd (route_label m irc)) = batch_heap irc @ xs)"
  by (auto simp: route_label_def Let_def getLabelCallback_def getLabelCallbackNoMutex_def case_prod_unfold
      new_batch_def split: option.split bool.split)

lemma batch_start_shape:
  fixes now :: int and l :: "64 word" and irc :: "('u, 'b, 'l) Connection"
  assumes "batches irc j = None"
  defines "bip \<equiv> \<lparr>bip_createdAt = now, bip_label = l, bip_batch = length (batch_heap irc)\<rparr>"
  shows "batches (snd (batch_start now m j nested par l irc)) = (batches irc)(j \<mapsto> bip)"
    and "batch_heap (snd (batch_start now m j nested par l irc)) =
      (case if nested then ((batches irc)(j \<mapsto> bip)) par else None of
         None \<Rightarrow> batch_heap irc @ [fresh_batch m]
       | Some pb \<Rightarrow> link (batch_heap irc @ [fresh_batch m]) (bip_batch pb) (length (batch_heap irc)))"
  using assms(1)
  by (simp_all add: batch_start_def new_batch_def assms(2) Let_def append_item_def link_def split: option.split)

lemma route_flags: "capFlags (snd (route now m irc)) = capFlags irc"
  by (auto simp: route_def handleBatchCommand_def batch_start_def batch_end_def handleBatchedCommand_def
      route_label_shape Let_def case_prod_unfold split: option.split bool.split)

lemma batchNegotiated_route [simp]: "batchNegotiated (snd (route now m irc)) = batchNegotiated irc"
  by (simp add: batchNegotiated_def route_flags)

lemma route_cases:
  assumes "batchNegotiated irc"
  obtains (line_in) j bip where "line_kind m = LineOf j" "batches irc j = Some bip"
      "batches (snd (route now m irc)) = batches irc"
      "batch_heap (snd (route now m irc)) =
        link (batch_heap irc @ [fresh_batch m]) (bip_batch bip) (length (batch_heap irc))"
  | (start) j bip where "line_kind m = StartOf j" "batches irc j = None" "bip_batch bip = length (batch_heap irc)"
      "batches (snd (route now m irc)) = (batches irc)(j \<mapsto> bip)"
      "batch_heap (snd (route now m irc)) =
        (case Option.bind (parent_of m) ((batches irc)(j \<mapsto> bip)) of
           None \<Rightarrow> batch_heap irc @ [fresh_batch m]
         | Some pb \<Rightarrow> link (batch_heap irc @ [fresh_batch m]) (bip_batch pb) (length (batch_heap irc)))"
  | (duplicate) j where "line_kind m = StartOf j" "batches irc j \<noteq> None"
      "batches (snd (route now m irc)) = batches irc" "batch_heap (snd (route now m irc)) = batch_heap irc"
  | (finish) j where "line_kind m = EndOf j" "batches (snd (route now m irc)) = (batches irc)(j := None)"
      "batch_heap (snd (route now m irc)) = batch_heap irc"
  | (other) xs where "line_kind m = PlainLine \<or> (\<exists>j. line_kind m = LineOf j \<and> batches irc j = None)"
      "batches (snd (route now m irc)) = batches irc" "batch_heap (snd (route now m irc)) = batch_heap irc @ xs"
proof (cases "Command m = ''BATCH''")
  case True
  note r = batch_command_shape [OF True assms, of now]
  show thesis
  proof (cases "line_kind m")
    case (StartOf j)
    show thesis
    proof (cases "batches irc j")
      case None
      have p: "(if parent_of m \<noteq> None then M (snd (GetTag m ''batch'')) else None) = Option.bind (parent_of m) M"
        for M :: "string \<Rightarrow> batchInProgress option"
        by (simp add: parent_of_def split: prod.split bool.split)
      show thesis
        by (rule start [OF StartOf None])
          (simp_all only: r StartOf line_kind.case batch_start_shape [OF None] batchInProgress.select_convs p)
    next
      case (Some b)
      with duplicate [OF StartOf] show thesis by (simp add: r StartOf batch_start_def)
    qed
  next
    case (EndOf j)
    show thesis
      by (rule finish [OF EndOf])
        (auto simp: r EndOf batch_end_def Let_def case_prod_unfold split: option.split)
  next
    case (LineOf j)
    with True show thesis by (auto simp: line_kind_def split: list.splits if_splits)
  next
    case PlainLine
    with other [of "[]"] show thesis by (simp add: r)
  qed
next
  case False
  show thesis
  proof (cases "fst (GetTag m ''batch'')")
    case True
    define j where "j = snd (GetTag m ''batch'')"
    have k: "line_kind m = LineOf j"
      using True False by (cases "GetTag m ''batch''") (simp add: line_kind_def j_def)
    have r: "route now m irc = handleBatchedCommand m j irc"
      using True False assms by (cases "GetTag m ''batch''") (simp add: route_def j_def)
    show thesis
    proof (cases "batches irc j")
      case None
      with other [of "[]"] k show thesis by (simp add: r handleBatchedCommand_def)
    next
      case (Some bip)
      with line_in [OF k Some] show thesis
        by (simp add: r handleBatchedCommand_def new_batch_def heap_append_item)
    qed
  next
    case F: False
    have k: "line_kind m = PlainLine"
      using F False by (cases "GetTag m ''batch''") (simp add: line_kind_def)
    have "route now m irc = route_label m irc"
      using F False assms by (cases "GetTag m ''batch''") (simp add: route_def)
    with route_label_shape [of m irc] other k show thesis by auto
  qed
qed

subsection \<open>The store holds the specified trees\<close>

lemma batches_inv_less: "batches_inv irc \<Longrightarrow> batches irc i = Some bip \<Longrightarrow> bip_batch bip < length (batch_heap irc)"
  by (simp add: batches_inv_def)

lemma batches_inv_inj:
  "batches_inv irc \<Longrightarrow> batches irc i = Some bi \<Longrightarrow> batches irc j = Some bj \<Longrightarrow> bip_batch bi = bip_batch bj \<longleftrightarrow> i = j"
  by (auto simp: batches_inv_def)

lemma length_start_heap:
  "length (case x of None \<Rightarrow> h @ [b] | Some pb \<Rightarrow> link (h @ [b]) (bip_batch pb) (length h)) = Suc (length h)"
  by (simp split: option.split)

lemma route_heap_length:
  "batchNegotiated irc \<Longrightarrow> length (batch_heap irc) \<le> length (batch_heap (snd (route now m irc)))"
  by (rule route_cases [of irc m now]) (simp_all add: length_start_heap)

lemma route_batches_inv:
  assumes "batchNegotiated irc" "batches_inv irc" shows "batches_inv (snd (route now m irc))"
  using assms(1)
proof (rule route_cases [of irc m now])
  fix j bip
  assume s: "bip_batch bip = length (batch_heap irc)"
    "batches (snd (route now m irc)) = (batches irc)(j \<mapsto> bip)"
    "batch_heap (snd (route now m irc)) =
        (case Option.bind (parent_of m) ((batches irc)(j \<mapsto> bip)) of
           None \<Rightarrow> batch_heap irc @ [fresh_batch m]
         | Some pb \<Rightarrow> link (batch_heap irc @ [fresh_batch m]) (bip_batch pb) (length (batch_heap irc)))"
  have "bip_batch b < length (batch_heap irc)" "length (batch_heap irc) \<noteq> bip_batch b"
    if "batches irc i = Some b" for i b
    using batches_inv_less [OF assms(2) that] by simp_all
  with assms(2) show ?thesis
    unfolding batches_inv_def s(2) s(3) length_start_heap
    by (auto simp: s(1) less_Suc_eq split: if_splits) (metis less_irrefl)+
next
  fix j bip
  assume "batches (snd (route now m irc)) = batches irc" "batch_heap (snd (route now m irc)) =
    link (batch_heap irc @ [fresh_batch m]) (bip_batch bip) (length (batch_heap irc))"
  with assms(2) show ?thesis by (auto simp: batches_inv_def less_Suc_eq)
next
  fix xs
  assume "batches (snd (route now m irc)) = batches irc" "batch_heap (snd (route now m irc)) = batch_heap irc @ xs"
  with assms(2) show ?thesis by (auto simp: batches_inv_def intro: trans_less_add1)
next
  fix j
  assume "batches (snd (route now m irc)) = (batches irc)(j := None)"
    "batch_heap (snd (route now m irc)) = batch_heap irc"
  with assms(2) show ?thesis by (auto simp: batches_inv_def split: if_splits)
qed (use assms(2) in \<open>auto simp: batches_inv_def\<close>)

lemma feed_inv:
  "batchNegotiated irc \<Longrightarrow> batches_inv irc \<Longrightarrow>
   batches_inv (feed tms irc) \<and> batchNegotiated (feed tms irc) \<and>
   length (batch_heap irc) \<le> length (batch_heap (feed tms irc))"
proof (induction tms irc rule: feed.induct)
  case (2 now m tms irc)
  from "2.IH" "2.prems" route_heap_length [of irc now m] route_batches_inv [of irc now m] show ?case
    by (auto intro: order_trans)
qed simp

text \<open>
  Feeding lines to the connection: each open batch gets the items of the specification, and nothing else
  in the store changes.
\<close>

definition assembled :: "Message list \<Rightarrow> ('u, 'b, 'l) Connection \<Rightarrow> ('u, 'b, 'l) Connection \<Rightarrow> bool" where
  "assembled ms irc irc' \<longleftrightarrow>
    (\<forall>i bip. batches irc i = Some bip \<longrightarrow>
      grown (batch_heap irc) (batch_heap irc') (bip_batch bip) (batch_items (dom (batches irc)) i ms)) \<and>
    (\<forall>a < length (batch_heap irc). a \<notin> open_addrs irc \<longrightarrow> batch_heap irc' ! a = batch_heap irc ! a)"

lemma assembledD:
  "assembled ms irc irc' \<Longrightarrow> batches irc i = Some bip \<Longrightarrow>
   grown (batch_heap irc) (batch_heap irc') (bip_batch bip) (batch_items (dom (batches irc)) i ms)"
  by (simp add: assembled_def)

lemma open_addrsI: "batches irc i = Some bip \<Longrightarrow> bip_batch bip \<in> open_addrs irc"
  by (auto simp: open_addrs_def ran_def)

lemma open_addrsE:
  assumes "a \<in> open_addrs irc" obtains i bip where "batches irc i = Some bip" "a = bip_batch bip"
  using assms by (auto simp: open_addrs_def ran_def)

lemma assembled_line:
  assumes "batches_inv irc" "line_kind m = LineOf j" "batches irc j = Some bip" "batches irc1 = batches irc"
    "batch_heap irc1 = link (batch_heap irc @ [fresh_batch m]) (bip_batch bip) (length (batch_heap irc))"
    "assembled ms irc1 irc'" "length (batch_heap irc1) \<le> length (batch_heap irc')"
  shows "assembled (m # ms) irc irc'"
proof -
  let ?h = "batch_heap irc" and ?h1 = "batch_heap irc1" and ?h' = "batch_heap irc'"
  note less = batches_inv_less [OF assms(1)]
  have oa: "open_addrs irc1 = open_addrs irc" by (simp add: open_addrs_def assms(4))
  have h1: "?h1 ! a = (if a = bip_batch bip then (?h ! a)\<lparr>Items := Items (?h ! a) @ [length ?h]\<rparr> else ?h ! a)"
    if "a < length ?h" for a
    using that less [OF assms(3)] by (simp add: assms(5) nth_link_snoc)
  have new: "?h1 ! length ?h = fresh_batch m"
    using less [OF assms(3)] by (simp add: assms(5) nth_link_snoc)
  have nopen: "length ?h \<notin> open_addrs irc" using less by (fastforce elim: open_addrsE)
  have "?h' ! length ?h = ?h1 ! length ?h"
    using assms(6) nopen by (simp add: assembled_def oa assms(5))
  then have "grown ?h1 ?h' (length ?h) []" by (rule grown_refl)
  from grown_represents [OF this new] have rep: "represents ?h' (length ?h) (Node m [])"
    using assms(5,7) by simp
  have "grown ?h ?h' (bip_batch b) (batch_items (dom (batches irc)) i (m # ms))" if b: "batches irc i = Some b" for i b
  proof -
    have g: "grown ?h1 ?h' (bip_batch b) (batch_items (dom (batches irc)) i ms)"
      using assms(6) b by (simp add: assembled_def assms(4))
    show ?thesis
    proof (cases "i = j")
      case True
      with b assms(3) have "b = bip" by simp
      have "?h1 ! bip_batch bip = (?h ! bip_batch bip)\<lparr>Items := Items (?h ! bip_batch bip) @ [length ?h]\<rparr>"
        using h1 [OF less [OF assms(3)]] by simp
      from grown_trans [OF this _ g [unfolded \<open>b = bip\<close>], of "[Node m []]"] rep show ?thesis
        by (simp add: assms(2) True \<open>b = bip\<close>)
    next
      case False
      then have "bip_batch b \<noteq> bip_batch bip" using batches_inv_inj [OF assms(1) b assms(3)] by simp
      with h1 [OF less [OF b]] g show ?thesis
        using False by (auto simp: assms(2) intro: grown_same)
    qed
  qed
  moreover have "?h' ! a = ?h ! a" if "a < length ?h" "a \<notin> open_addrs irc" for a
  proof -
    have "a \<noteq> bip_batch bip" using that(2) open_addrsI [OF assms(3)] by blast
    with that h1 [OF that(1)] assms(6) show ?thesis by (simp add: assembled_def oa assms(5))
  qed
  ultimately show ?thesis by (simp only: assembled_def) blast
qed

lemma assembled_start:
  assumes "batches_inv irc" "line_kind m = StartOf j" "batches irc j = None" "bip_batch bip = length (batch_heap irc)"
    "batches irc1 = (batches irc)(j \<mapsto> bip)"
    "batch_heap irc1 =
      (case Option.bind (parent_of m) ((batches irc)(j \<mapsto> bip)) of
         None \<Rightarrow> batch_heap irc @ [fresh_batch m]
       | Some pb \<Rightarrow> link (batch_heap irc @ [fresh_batch m]) (bip_batch pb) (length (batch_heap irc)))"
    "\<not> self_parented m" "assembled ms irc1 irc'" "length (batch_heap irc1) \<le> length (batch_heap irc')"
  shows "assembled (m # ms) irc irc'"
proof -
  let ?h = "batch_heap irc" and ?h1 = "batch_heap irc1" and ?h' = "batch_heap irc'"
  let ?opn = "insert j (dom (batches irc))"
  note less = batches_inv_less [OF assms(1)]
  have par: "parent_of m \<noteq> Some j" using assms(2,7) by (simp add: self_parented_def)
  then have bnd: "Option.bind (parent_of m) ((batches irc)(j \<mapsto> bip)) = Option.bind (parent_of m) (batches irc)"
    by (cases "parent_of m") auto
  have h1: "?h1 ! a = (case Option.bind (parent_of m) (batches irc) of
        None \<Rightarrow> ?h ! a
      | Some pb \<Rightarrow> if a = bip_batch pb then (?h ! a)\<lparr>Items := Items (?h ! a) @ [length ?h]\<rparr> else ?h ! a)"
    if "a < length ?h" for a
    using that less by (auto simp: assms(6) bnd nth_link_snoc nth_append bind_eq_Some_conv split: option.split)
  have new: "?h1 ! length ?h = fresh_batch m"
    using less by (auto simp: assms(6) bnd nth_link_snoc bind_eq_Some_conv split: option.split)
  have len: "length ?h1 = Suc (length ?h)" by (simp add: assms(6) length_start_heap)
  have "batches irc1 j = Some bip" "dom (batches irc1) = ?opn" by (simp_all add: assms(5))
  with assembledD [OF assms(8), of j bip] have "grown ?h1 ?h' (length ?h) (batch_items ?opn j ms)"
    by (simp only: assms(4))
  from grown_represents [OF this new] have rep: "represents ?h' (length ?h) (Node m (batch_items ?opn j ms))"
    using len assms(9) by simp
  have "grown ?h ?h' (bip_batch b) (batch_items (dom (batches irc)) i (m # ms))" if b: "batches irc i = Some b" for i b
  proof -
    have ij: "i \<noteq> j" using b assms(3) by auto
    have g: "grown ?h1 ?h' (bip_batch b) (batch_items ?opn i ms)"
      using assms(8) b ij by (simp add: assembled_def assms(5))
    have items: "batch_items (dom (batches irc)) i (m # ms) =
        (if parent_of m = Some i then [Node m (batch_items ?opn j ms)] else []) @ batch_items ?opn i ms"
      using assms(3) by (auto simp: assms(2))
    show ?thesis
    proof (cases "parent_of m = Some i")
      case True
      then have "?h1 ! bip_batch b = (?h ! bip_batch b)\<lparr>Items := Items (?h ! bip_batch b) @ [length ?h]\<rparr>"
        using h1 [OF less [OF b]] b by simp
      from grown_trans [OF this _ g, of "[Node m (batch_items ?opn j ms)]"] rep show ?thesis
        unfolding items by (simp add: True)
    next
      case False
      then have "?h1 ! bip_batch b = ?h ! bip_batch b"
        using h1 [OF less [OF b]] batches_inv_inj [OF assms(1) b] by (auto simp: bind_eq_Some_conv split: option.splits)
      from grown_same [OF this g] show ?thesis unfolding items by (simp add: False)
    qed
  qed
  moreover have "?h' ! a = ?h ! a" if a: "a < length ?h" "a \<notin> open_addrs irc" for a
  proof -
    have "a \<notin> open_addrs irc1"
      using a assms(3,4) by (auto simp: open_addrs_def assms(5) ran_map_upd)
    then have "?h' ! a = ?h1 ! a" using assms(8) a(1) len by (simp add: assembled_def)
    also have "\<dots> = ?h ! a"
      using h1 [OF a(1)] a(2) open_addrsI [of irc] by (fastforce simp: bind_eq_Some_conv split: option.splits)
    finally show ?thesis .
  qed
  ultimately show ?thesis by (simp only: assembled_def) blast
qed

lemma assembled_skip:
  assumes "batches irc1 = batches irc" "batch_heap irc1 = batch_heap irc @ xs" "batches_inv irc" "assembled ms irc1 irc'"
    "\<And>i. i \<in> dom (batches irc) \<Longrightarrow> batch_items (dom (batches irc)) i (m # ms) = batch_items (dom (batches irc)) i ms"
  shows "assembled (m # ms) irc irc'"
proof -
  have oa: "open_addrs irc1 = open_addrs irc" by (simp add: open_addrs_def assms(1))
  have "grown (batch_heap irc) (batch_heap irc') (bip_batch b) (batch_items (dom (batches irc)) i (m # ms))"
    if b: "batches irc i = Some b" for i b
  proof -
    have "batch_heap irc1 ! bip_batch b = batch_heap irc ! bip_batch b"
      using batches_inv_less [OF assms(3) b] by (simp add: assms(2) nth_append)
    moreover have "grown (batch_heap irc1) (batch_heap irc') (bip_batch b) (batch_items (dom (batches irc)) i ms)"
      using assms(4) b by (simp add: assembled_def assms(1))
    ultimately show ?thesis using assms(5) [of i] b by (metis domI grown_same)
  qed
  moreover have "batch_heap irc' ! a = batch_heap irc ! a" if "a < length (batch_heap irc)" "a \<notin> open_addrs irc" for a
    using assms(4) that by (simp add: assembled_def oa assms(2) nth_append)
  ultimately show ?thesis by (simp only: assembled_def) blast
qed

lemma assembled_finish:
  assumes "line_kind m = EndOf j" "batches irc1 = (batches irc)(j := None)" "batch_heap irc1 = batch_heap irc"
    "batches_inv irc" "assembled ms irc1 irc'"
  shows "assembled (m # ms) irc irc'"
proof -
  have "grown (batch_heap irc) (batch_heap irc') (bip_batch b) (batch_items (dom (batches irc)) i (m # ms))"
    if b: "batches irc i = Some b" for i b
  proof (cases "i = j")
    case True
    have "bip_batch b \<notin> open_addrs irc1"
      using b batches_inv_inj [OF assms(4) b] by (auto simp: True open_addrs_def assms(2) ran_def split: if_splits)
    then have "batch_heap irc' ! bip_batch b = batch_heap irc ! bip_batch b"
      using assms(5) batches_inv_less [OF assms(4) b] by (simp add: assembled_def assms(3))
    then show ?thesis by (simp add: assms(1) True)
  next
    case False
    then show ?thesis using assms(5) b by (auto simp: assembled_def assms(1,2,3))
  qed
  moreover have "batch_heap irc' ! a = batch_heap irc ! a" if "a < length (batch_heap irc)" "a \<notin> open_addrs irc" for a
  proof -
    have "a \<notin> open_addrs irc1" using that(2) by (auto simp: open_addrs_def assms(2) ran_def split: if_splits)
    with assms(5) that(1) show ?thesis by (simp add: assembled_def assms(3))
  qed
  ultimately show ?thesis by (simp only: assembled_def) blast
qed

lemma feed_assembled:
  "batchNegotiated irc \<Longrightarrow> batches_inv irc \<Longrightarrow> list_all (\<lambda>m. \<not> self_parented m) (map snd tms) \<Longrightarrow>
   assembled (map snd tms) irc (feed tms irc)"
proof (induction tms irc rule: feed.induct)
  case (1 irc)
  then show ?case by (simp add: assembled_def)
next
  case (2 now m tms irc)
  let ?irc1 = "snd (route now m irc)"
  have inv1: "batches_inv ?irc1" "batchNegotiated ?irc1"
    using route_batches_inv [OF "2.prems"(1,2)] "2.prems"(1) by simp_all
  have IH: "assembled (map snd tms) ?irc1 (feed tms ?irc1)" using "2.IH" inv1 "2.prems"(3) by simp
  have len: "length (batch_heap ?irc1) \<le> length (batch_heap (feed tms ?irc1))" using feed_inv [OF inv1(2,1)] by blast
  note inv = "2.prems"(2)
  have "assembled (m # map snd tms) irc (feed tms ?irc1)"
    using "2.prems"(1)
  proof (rule route_cases [of irc m now])
    fix j bip
    assume "line_kind m = LineOf j" "batches irc j = Some bip" "batches ?irc1 = batches irc"
      "batch_heap ?irc1 = link (batch_heap irc @ [fresh_batch m]) (bip_batch bip) (length (batch_heap irc))"
    from assembled_line [OF inv this IH len] show ?thesis .
  next
    fix j bip
    assume s: "line_kind m = StartOf j" "batches irc j = None" "bip_batch bip = length (batch_heap irc)"
      "batches ?irc1 = (batches irc)(j \<mapsto> bip)"
      "batch_heap ?irc1 =
        (case Option.bind (parent_of m) ((batches irc)(j \<mapsto> bip)) of
           None \<Rightarrow> batch_heap irc @ [fresh_batch m]
         | Some pb \<Rightarrow> link (batch_heap irc @ [fresh_batch m]) (bip_batch pb) (length (batch_heap irc)))"
    from "2.prems"(3) have "\<not> self_parented m" by simp
    from assembled_start [OF inv s this IH len] show ?thesis .
  next
    fix j
    assume d: "line_kind m = StartOf j" "batches irc j \<noteq> None" "batches ?irc1 = batches irc"
      "batch_heap ?irc1 = batch_heap irc"
    then have "j \<in> dom (batches irc)" by blast
    then show ?thesis
      using d by (intro assembled_skip [where xs = "[]", OF d(3) _ inv IH]) simp_all
  next
    fix j
    assume "line_kind m = EndOf j" "batches ?irc1 = (batches irc)(j := None)" "batch_heap ?irc1 = batch_heap irc"
    from assembled_finish [OF this inv IH] show ?thesis .
  next
    fix xs
    assume o: "line_kind m = PlainLine \<or> (\<exists>j. line_kind m = LineOf j \<and> batches irc j = None)"
      "batches ?irc1 = batches irc" "batch_heap ?irc1 = batch_heap irc @ xs"
    show ?thesis
      by (rule assembled_skip [OF o(2,3) inv IH]) (use o(1) in auto)
  qed
  then show ?case by simp
qed

subsection \<open>From the start of a batch to its end\<close>

definition start_label :: "Message \<Rightarrow> 64 word" where
  "start_label m = (case GetTag m ''label'' of (True, l) \<Rightarrow> deserializeLabel l | (False, _) \<Rightarrow> 0)"

definition finish_effect :: "64 word \<Rightarrow> (64 word \<rightharpoonup> 'l pendingLabel) \<Rightarrow> addr \<Rightarrow> 'l effect" where
  "finish_effect label pending a =
    (if label = 0 then RunBatch a
     else case pending label of
            Some lc \<Rightarrow> CallLabel (pl_callback lc) a | None \<Rightarrow> LogBatchError errorUnknownLabel)"

lemma line_kind_command: "line_kind m = StartOf j \<or> line_kind m = EndOf j \<Longrightarrow> Command m = ''BATCH''"
  by (auto simp: line_kind_def split: if_splits prod.splits bool.splits)

lemma route_start:
  assumes "batchNegotiated irc" "line_kind m = StartOf j"
  shows "route now m irc =
    batch_start now m j (parent_of m \<noteq> None) (snd (GetTag m ''batch'')) (start_label m) irc"
  using batch_command_shape [OF line_kind_command assms(1), of m j now] assms(2) by (simp add: start_label_def)

lemma route_end:
  assumes "batchNegotiated irc" "line_kind m = EndOf j"
  shows "route now m irc = batch_end j (parent_of m \<noteq> None) irc"
  using batch_command_shape [OF line_kind_command assms(1), of m j now] assms(2) by simp

lemma feed_keeps_open:
  "batchNegotiated irc \<Longrightarrow> batches irc i = Some bip \<Longrightarrow> list_all (\<lambda>m. line_kind m \<noteq> EndOf i) (map snd tms) \<Longrightarrow>
   batches (feed tms irc) i = Some bip"
proof (induction tms irc rule: feed.induct)
  case (2 now m tms irc)
  have "batches (snd (route now m irc)) i = Some bip"
    using "2.prems"(1) by (rule route_cases [of irc m now]) (use "2.prems" in auto)
  with "2.IH" "2.prems" show ?case by simp
qed simp

lemma finish_batch:
  assumes "batchNegotiated irc" "batches irc i = Some bip" "line_kind m = EndOf i" "parent_of m = None"
  shows "fst (route now m irc) = finish_effect (bip_label bip) (labelCallbacks irc) (bip_batch bip) \<and>
    batch_heap (snd (route now m irc)) = batch_heap irc \<and>
    batches (snd (route now m irc)) = (batches irc)(i := None)"
  unfolding route_end [OF assms(1,3)] finish_effect_def
  by (simp add: assms(2,4) batch_end_def Let_def getLabelCallbackNoMutex_def split: option.split)

lemma assembly:
  assumes "batchNegotiated irc" "batches_inv irc" "line_kind m0 = StartOf i" "batches irc i = None"
    "\<not> self_parented m0" "list_all (\<lambda>m. \<not> self_parented m \<and> line_kind m \<noteq> EndOf i) (map snd tms)"
    "line_kind m1 = EndOf i" "parent_of m1 = None" "feed ((t0, m0) # tms) irc = irc1"
  shows "\<exists>a irc2. route t1 m1 irc1 = (finish_effect (start_label m0) (labelCallbacks irc1) a, irc2) \<and>
    batches irc2 = (batches irc1)(i := None) \<and>
    represents (batch_heap irc2) a (Node m0 (batch_items (insert i (dom (batches irc))) i (map snd tms)))"
proof -
  define irc0 where "irc0 = snd (route t0 m0 irc)"
  define n where "n = length (batch_heap irc)"
  define bip where "bip = \<lparr>bip_createdAt = t0, bip_label = start_label m0, bip_batch = n\<rparr>"
  have par: "parent_of m0 \<noteq> Some i" using assms(3,5) by (simp add: self_parented_def)
  note st = batch_start_shape [where now = t0 and l = "start_label m0" and irc = irc and m = m0, OF assms(4),
      of "parent_of m0 \<noteq> None" "snd (GetTag m0 ''batch'')", folded route_start [OF assms(1,3)] irc0_def n_def bip_def]
  have par2: "snd (GetTag m0 ''batch'') \<noteq> i" if "parent_of m0 \<noteq> None"
    using that par by (auto simp: parent_of_def split: prod.splits bool.splits)
  have neg: "batchNegotiated irc0" "batches_inv irc0"
    using assms(1,2) route_batches_inv unfolding irc0_def by simp_all
  have f: "feed tms irc0 = irc1" using assms(9) by (simp add: irc0_def)
  have o: "batches irc0 i = Some bip" by (simp add: st(1) bip_def)
  have lt: "n < length (batch_heap irc0)" by (simp only: st(2) n_def length_start_heap lessI)
  have fresh: "batch_heap irc0 ! n = fresh_batch m0"
    using batches_inv_less [OF assms(2)] par2
    by (auto simp: st(2) n_def nth_link_snoc split: option.splits if_splits)
  from assms(6) have w: "list_all (\<lambda>m. line_kind m \<noteq> EndOf i) (map snd tms)"
    "list_all (\<lambda>m. \<not> self_parented m) (map snd tms)" by (simp_all add: list_all_iff)
  have o1: "batches irc1 i = Some bip" using feed_keeps_open [OF neg(1) o w(1)] f by simp
  have inv1: "batchNegotiated irc1" "n < length (batch_heap irc1)"
    using feed_inv [OF neg, of tms] f lt by auto
  have "grown (batch_heap irc0) (batch_heap irc1) n (batch_items (insert i (dom (batches irc))) i (map snd tms))"
    using assembledD [OF feed_assembled [OF neg w(2)] o] by (simp add: f st(1) bip_def)
  from grown_represents [OF this fresh inv1(2)]
  have "represents (batch_heap irc1) n (Node m0 (batch_items (insert i (dom (batches irc))) i (map snd tms)))" .
  moreover note finish_batch [OF inv1(1) o1 assms(7,8), of t1]
  ultimately show ?thesis
    by (intro exI [of _ n] exI [of _ "snd (route t1 m1 irc1)"]) (auto simp: bip_def intro: prod_eqI)
qed

subsection \<open>Handling a finished batch\<close>

fun flatten_tree :: "batch_tree \<Rightarrow> Message list" where
  "flatten_tree (Node m ts) = (if Command m \<noteq> ''BATCH'' then [m] else []) @ concat (map flatten_tree ts)"

lemma naive_items_Nil: "naive_items handle h [] = Some"
  by (rule ext) (simp add: naive_items.simps)

abbreviation handle_own :: "(Message \<Rightarrow> 's \<Rightarrow> 's) \<Rightarrow> Batch \<Rightarrow> 's \<Rightarrow> 's" where
  "handle_own handle b s \<equiv> (if Command (batch_Message b) \<noteq> ''BATCH'' then handle (batch_Message b) s else s)"

lemma naive_items_Cons:
  "naive_items handle h (a # rest) s =
    Option.bind (naive_items handle h (Items (h ! a)) (handle_own handle (h ! a) s)) (naive_items handle h rest)"
  by (subst naive_items.simps) (simp add: Let_def)

lemma naive_items_single:
  "naive_items handle h [a] s = naive_items handle h (Items (h ! a)) (handle_own handle (h ! a) s)"
  by (simp add: naive_items_Cons naive_items_Nil)

lemma naive_items_list:
  "list_all2 (\<lambda>a t. \<forall>s. naive_items handle h [a] s = Some (fold handle (flatten_tree t) s)) as ts \<Longrightarrow>
   naive_items handle h as s = Some (fold handle (concat (map flatten_tree ts)) s)"
proof (induction as ts arbitrary: s rule: list_all2_induct)
  case (Cons a as t ts)
  from Cons.hyps(1) Cons.IH show ?case by (simp add: naive_items_Cons [of _ _ a as] flip: naive_items_single)
qed (simp add: naive_items_Nil)

lemma naive_represents:
  "represents h a t \<Longrightarrow> naive_items handle h [a] s = Some (fold handle (flatten_tree t) s)"
proof (induction arbitrary: s rule: represents.induct)
  case (node a ts)
  have "list_all2 (\<lambda>a t. \<forall>s. naive_items handle h [a] s = Some (fold handle (flatten_tree t) s)) (Items (h ! a)) ts"
    by (rule list_all2_mono [OF node.IH]) simp
  from naive_items_list [OF this] show ?case by (simp add: naive_items_single)
qed

text \<open>A batch that holds itself is followed for ever.\<close>

lemma naive_self_loop:
  assumes "Items (h ! n) = [n]" shows "naive_items handle h [n] s = None"
proof (rule ccontr)
  assume "naive_items handle h [n] s \<noteq> None"
  then obtain s' where s': "naive_items handle h [n] s = Some s'" by blast
  let ?P = "\<lambda>handle h' as s s'. \<not> (h' = h \<and> as = [n])"
  have "?P handle h [n] s s'"
    by (rule naive_items.raw_induct [of ?P, OF _ s']) (auto simp: assms Let_def bind_eq_Some_conv, blast)
  then show False by simp
qed

lemma HandleBatch_naive:
  assumes "naive_items handle h [a] = Some \<circ> g"
  shows "\<exists>s'. HandleBatch run handle h bhs a s = Some s'"
    and "\<forall>b\<in>set bhs. \<forall>s. run (pair_callback b) a s = (False, s) \<Longrightarrow> HandleBatch run handle h bhs a s = Some (g s)"
proof -
  show "\<exists>s'. HandleBatch run handle h bhs a s = Some s'"
    by (induction bhs arbitrary: s) (auto simp: handleBatchNaively_def assms split: prod.split bool.split)
  show "HandleBatch run handle h bhs a s = Some (g s)"
    if "\<forall>b\<in>set bhs. \<forall>s. run (pair_callback b) a s = (False, s)"
    using that by (induction bhs arbitrary: s) (simp_all add: handleBatchNaively_def assms)
qed

subsection \<open>Properties\<close>

text \<open>C26. Assembly of batches: however the lines of other batches, nested or not, are interleaved with those of
  a batch, its closing line hands over a batch that holds exactly the specified tree, the start line with
  the items of the batch in the order of their arrival. It goes to the batch handlers, or to the function
  registered for the label of the start line; with an unknown label it is dropped.\<close>

theorem batch_assembly:
  assumes "batchNegotiated irc" "batches_inv irc" "line_kind m0 = StartOf i" "batches irc i = None"
    "\<not> self_parented m0" "list_all (\<lambda>m. \<not> self_parented m \<and> line_kind m \<noteq> EndOf i) (map snd tms)"
    "line_kind m1 = EndOf i" "parent_of m1 = None" "feed ((t0, m0) # tms) irc = irc1"
  shows "\<exists>a irc2. route t1 m1 irc1 = (finish_effect (start_label m0) (labelCallbacks irc1) a, irc2) \<and>
    batches irc2 = (batches irc1)(i := None) \<and>
    represents (batch_heap irc2) a (Node m0 (batch_items (insert i (dom (batches irc))) i (map snd tms)))"
  by (rule assembly [OF assms])

definition ex_batch :: "string \<Rightarrow> (string \<times> string) list \<Rightarrow> Message" where
  "ex_batch p ts = MakeMessage ts [] ''BATCH'' [p, ''chathistory'']"

definition ex_line :: "string \<Rightarrow> Message" where
  "ex_line i = MakeMessage [(''batch'', i)] [] ''PRIVMSG'' [''#c'', ''hi'']"

definition ex_conn :: "(bool, bool, bool) Connection" where
  "ex_conn = processAckedCaps [''batch''] zero_Connection"

lemma ex_kinds:
  "line_kind (ex_batch ''+1'' ts) = StartOf ''1''" "line_kind (ex_batch ''+2'' ts) = StartOf ''2''"
  "line_kind (ex_batch ''-1'' ts) = EndOf ''1''" "line_kind (ex_batch ''-2'' ts) = EndOf ''2''"
  "line_kind (ex_line i) = LineOf i" "parent_of (ex_batch p []) = None" "parent_of (ex_batch p [(''batch'', i)]) = Some i"
  "start_label (ex_batch p []) = 0"
  by (simp_all add: line_kind_def parent_of_def start_label_def ex_batch_def ex_line_def MakeMessage_def
      GetTag_def SetTag_def zero_Message_def)

lemma ex_conn_ok: "batchNegotiated ex_conn" "batches_inv ex_conn" "batches ex_conn = Map.empty"
proof -
  show "batchNegotiated ex_conn" by (simp add: ex_conn_def negotiated_processAckedCaps)
  show b: "batches ex_conn = Map.empty" by (simp add: ex_conn_def processAckedCaps_def Let_def zero_Connection_def)
  show "batches_inv ex_conn" by (simp add: batches_inv_def b)
qed

lemma batch_assembly_witness:
  "\<exists>a irc2. route 6 (ex_batch ''-1'' []) (feed [(0, ex_batch ''+1'' []), (1, ex_line ''1''),
        (2, ex_batch ''+2'' [(''batch'', ''1'')]), (3, ex_line ''2''), (4, ex_line ''1''), (5, ex_batch ''-2'' [])] ex_conn)
      = (RunBatch a, irc2) \<and>
    represents (batch_heap irc2) a (Node (ex_batch ''+1'' []) [Node (ex_line ''1'') [],
      Node (ex_batch ''+2'' [(''batch'', ''1'')]) [Node (ex_line ''2'') []], Node (ex_line ''1'') []])"
proof -
  have items: "batch_items {''1''} ''1'' [ex_line ''1'', ex_batch ''+2'' [(''batch'', ''1'')], ex_line ''2'',
      ex_line ''1'', ex_batch ''-2'' []] = [Node (ex_line ''1'') [],
      Node (ex_batch ''+2'' [(''batch'', ''1'')]) [Node (ex_line ''2'') []], Node (ex_line ''1'') []]"
    by (simp add: ex_kinds)
  let ?tms = "[(1, ex_line ''1''), (2, ex_batch ''+2'' [(''batch'', ''1'')]), (3, ex_line ''2''), (4, ex_line ''1''),
      (5 :: int, ex_batch ''-2'' [])]"
  have self: "\<not> self_parented (ex_batch ''+1'' [])" "list_all (\<lambda>m. \<not> self_parented m \<and> line_kind m \<noteq> EndOf ''1'') (map snd ?tms)"
    by (simp_all add: self_parented_def ex_kinds)
  have none: "batches ex_conn ''1'' = None" by (simp add: ex_conn_ok)
  from batch_assembly [OF ex_conn_ok(1,2) ex_kinds(1) none self ex_kinds(3) ex_kinds(6) refl, of 6 0]
  show ?thesis by (simp add: finish_effect_def ex_kinds(8) ex_conn_ok(3) items del: feed.simps batch_items.simps) blast
qed





end
