(* ===== verification/Event_Dispatch.thy ===== *)
theory Event_Dispatch
  imports Event_Handlers Event_Assembly
begin

text \<open>
  \<open>HandleMessage\<close> and \<open>runCallbacks\<close> of \<^verbatim>\<open>ircevent/irc_callback.go\<close>, on top of the handlers and the batches,
  and what the connection does with PING, ISUPPORT, nickname and CTCP messages. The client's functions are
  an argument; a panic in a callback ends the handling of the line and is recovered unless
  \<open>AllowPanic\<close> is set. The callbacks of a line are read from the table once: in the code a
  \<open>ReplaceCallback\<close> made while they run also changes those of the same line that have not run yet.
\<close>

subsection \<open>The code\<close>

record ('u, 'b, 'l) client_code =
  run_user :: "'u \<Rightarrow> Message \<Rightarrow> (('u, 'b, 'l) Connection, unit) act"
  run_batch :: "'b \<Rightarrow> addr \<Rightarrow> (('u, 'b, 'l) Connection, bool) act"
  run_label :: "'l \<Rightarrow> addr option \<Rightarrow> (('u, 'b, 'l) Connection, unit) act"

definition run_callback :: "('u, 'b, 'l) client_code \<Rightarrow> string \<Rightarrow> 'u Callback \<Rightarrow> Message
    \<Rightarrow> (('u, 'b, 'l) Connection, unit) act" where
  "run_callback C clock cb e = (case cb of Lib h \<Rightarrow> run_lib clock h e | Client u \<Rightarrow> run_user C u e)"

definition HandleMessage :: "(nat \<Rightarrow> nat) \<Rightarrow> ('u, 'b, 'l) client_code \<Rightarrow> string \<Rightarrow> Message
    \<Rightarrow> (('u, 'b, 'l) Connection, unit) act" where
  "HandleMessage upper C clock event =
    (\<lambda>irc. let event1 = (if EnableCTCP irc then eventRewriteCTCP event else event)
      in act_for (getCallbacks upper irc (Command event1))
           (\<lambda>pair. run_callback C clock (pair_callback pair) event1) irc)"

text \<open>Handling a batch: once a callback has panicked, nothing more is run.\<close>

definition guard_handle :: "(Message \<Rightarrow> ('s, unit) act) \<Rightarrow> Message \<Rightarrow> unit option \<times> 's \<Rightarrow> unit option \<times> 's" where
  "guard_handle h m x = (case x of (None, s) \<Rightarrow> (None, s) | (Some _, s) \<Rightarrow> h m s)"

definition guard_batch :: "('b \<Rightarrow> addr \<Rightarrow> ('s, bool) act) \<Rightarrow> 'b \<Rightarrow> addr \<Rightarrow> unit option \<times> 's \<Rightarrow> bool \<times> unit option \<times> 's" where
  "guard_batch f b a x =
    (case f b a (snd x) of (None, s) \<Rightarrow> (True, None, s) | (Some r, s) \<Rightarrow> (r, Some (), s))"

definition run_effect :: "(nat \<Rightarrow> nat) \<Rightarrow> ('u, 'b, 'l) client_code \<Rightarrow> string \<Rightarrow> 'l effect \<Rightarrow> ('u, 'b, 'l) Connection
    \<Rightarrow> (unit option \<times> ('u, 'b, 'l) Connection) option" where
  "run_effect upper C clock eff irc =
    (case eff of
       RunMessage m \<Rightarrow> Some (HandleMessage upper C clock m irc)
     | CallLabel cb b \<Rightarrow> Some (run_label C cb (Some b) irc)
     | RunBatch a \<Rightarrow>
         HandleBatch (guard_batch (run_batch C)) (guard_handle (HandleMessage upper C clock)) (batch_heap irc)
           (getBatchCallbacks irc) a (Some (), irc)
     | _ \<Rightarrow> Some (Some (), irc))"

definition recover :: "bool \<Rightarrow> unit option \<times> 's \<Rightarrow> unit option \<times> 's" where
  "recover allowPanic r = (if allowPanic then r else (Some (), snd r))"

definition runCallbacks :: "(nat \<Rightarrow> nat) \<Rightarrow> ('u, 'b, 'l) client_code \<Rightarrow> string \<Rightarrow> int \<Rightarrow> Message
    \<Rightarrow> ('u, 'b, 'l) Connection \<Rightarrow> (unit option \<times> ('u, 'b, 'l) Connection) option" where
  "runCallbacks upper C clock now msg irc =
    (let (eff, irc1) = route now msg irc
     in map_option (recover (AllowPanic irc)) (run_effect upper C clock eff irc1))"

definition runDisconnectCallbacks :: "(nat \<Rightarrow> nat) \<Rightarrow> ('u, 'b, 'l) client_code \<Rightarrow> string
    \<Rightarrow> (('u, 'b, 'l) Connection, unit) act" where
  "runDisconnectCallbacks upper C clock =
    (\<lambda>irc. recover (AllowPanic irc)
      (act_for (getCallbacks upper irc disconnectEvent)
        (\<lambda>pair. run_callback C clock (pair_callback pair) zero_Message) irc))"

text \<open>One iteration of \<open>readLoop\<close> on a line: parse it and run the callbacks; bad lines are only logged.\<close>

definition readLoop_line :: "(nat \<Rightarrow> nat) \<Rightarrow> ('u, 'b, 'l) client_code \<Rightarrow> string \<Rightarrow> int \<Rightarrow> string
    \<Rightarrow> ('u, 'b, 'l) Connection \<Rightarrow> (unit option \<times> ('u, 'b, 'l) Connection) option" where
  "readLoop_line upper C clock now msg irc =
    (case ParseLine msg of
       None \<Rightarrow> Some (None, irc)
     | Some (parsedMsg, None) \<Rightarrow> runCallbacks upper C clock now parsedMsg irc
     | Some (_, Some err) \<Rightarrow> Some (Some (), irc))"

subsection \<open>What is sent can be parsed\<close>

lemma line_fits:
  assumes "line m [] [] 0 0 0 0 = Some (b, None)" "n = 0 \<or> int (length b) \<le> n" "0 \<le> a" "0 \<le> a'" "0 \<le> a''"
  shows "line m [] [] a a' a'' n = Some (b, None)"
proof -
  define start where "start = (if 0 < length (Source m) then [] @ '':'' @ Source m @ '' '' else []) @ Command m"
  have c: "length (Command m) \<noteq> 0" using assms(1) by (auto simp: line_def)
  have eq: "line m [] [] x x' x'' k =
      (case line_params (forceTrailing m) (Params m) start of
         Inl e \<Rightarrow> Some ([], Some e)
       | Inr buf2 \<Rightarrow> Option.bind (line_truncate buf2 0 k) (\<lambda>(buf3, err).
           Some (if forbidden buf3 then ([], Some ErrorLineContainsBadChar)
                 else (buf3 @ [CHR 0x0D, CHR 0x0A], err))))" if "0 \<le> x" "0 \<le> x'" "0 \<le> x''" for x x' x'' k
    using that c unfolding start_def
    by (cases "line_params (forceTrailing m) (Params m) start")
      (auto simp: line_def line_tags_def Let_def start_def)
  obtain buf where p: "line_params (forceTrailing m) (Params m) start = Inr buf"
    using assms(1) by (cases "line_params (forceTrailing m) (Params m) start") (simp_all add: eq)
  have b: "b = buf @ [CHR 0x0D, CHR 0x0A]" "\<not> forbidden buf"
    using assms(1) by (simp_all add: eq p line_truncate_def split: if_splits)
  have "line_truncate buf 0 n = Some (buf, None)"
    using assms(2) b(1) by (auto simp: line_truncate_def)
  then show ?thesis
    using b assms(3-5) by (simp add: eq p)
qed

abbreviation plain_message :: "string \<Rightarrow> string list \<Rightarrow> Message" where
  "plain_message command params \<equiv> zero_Message\<lparr>Command := command, Params := params\<rparr>"

lemma MakeMessage_plain: "MakeMessage [] [] command params = plain_message command params"
  by (simp add: MakeMessage_def zero_Message_def)

definition command_ok :: "string \<Rightarrow> bool" where
  "command_ok c \<longleftrightarrow> c \<noteq> [] \<and> list_all (\<lambda>x. byte x < 128 \<and> upper_byte x = x) c \<and> CHR '' '' \<notin> set c \<and> clean c \<and>
    hd c \<noteq> CHR '':'' \<and> hd c \<noteq> CHR ''@''"

lemma printable_plain:
  assumes "command_ok c" "list_all middle (butlast ps)" "list_all clean ps"
  shows "printable (plain_message c ps)"
  using assms
  by (auto simp: printable_def msg_wf_def msg_inv_def tags_ok_def command_ok_def isASCII_def ToUpperASCII_def
      list_all_iff zero_Message_def intro!: map_idI)

lemma line_params_length:
  "line_params f ps buf = Inr b \<Longrightarrow> length b \<le> length buf + sum_list (map (\<lambda>p. length p + 2) ps)"
  by (induction f ps buf rule: line_params.induct) (fastforce simp: Let_def split: if_splits)+

definition room_for :: "string \<Rightarrow> string list \<Rightarrow> nat" where
  "room_for c ps = length c + sum_list (map (\<lambda>p. length p + 2) ps) + 2"

lemma LineBytes_plain_length:
  assumes "LineBytes (plain_message c ps) [] [] = Some (b, None)" shows "length b \<le> room_for c ps"
proof -
  have m: "Command (plain_message c ps) = c" "Params (plain_message c ps) = ps" "Source (plain_message c ps) = []"
    "forceTrailing (plain_message c ps) = False" by (simp_all add: zero_Message_def)
  obtain buf where "line_params False ps c = Inr buf" "b = buf @ [CHR 0x0D, CHR 0x0A]"
    using assms unfolding LineBytes_def line_def line_tags_def Let_def m line_truncate_def
    by (cases "line_params False ps c") (auto simp: m split: if_splits)
  with line_params_length [OF this(1)] show ?thesis by (simp add: room_for_def)
qed

text \<open>A line that the limit admits is queued, and reads back as the message sent.\<close>

lemma Send_plain:
  assumes "command_ok c" "list_all middle (butlast ps)" "list_all clean ps"
  obtains b where "ParseLine b = Some (plain_message c ps, None)"
    "\<And>irc :: ('u, 'b, 'l) Connection. running irc \<Longrightarrow> MaxLineLen irc = 0 \<or> int (room_for c ps) \<le> MaxLineLen irc \<Longrightarrow>
      Send c ps irc = (Some None, irc\<lparr>pwrite := pwrite irc @ [b]\<rparr>)"
proof -
  have o: "is_order (tags (plain_message c ps)) []" "is_order (clientOnlyTags (plain_message c ps)) []"
    by (simp_all add: is_order_def zero_Message_def)
  from Parse_LineBytes [OF printable_plain [OF assms] o] obtain b where
    b: "LineBytes (plain_message c ps) [] [] = Some (b, None)"
    and p: "ParseLine b = Some ((plain_message c ps)\<lparr>forceTrailing := False\<rparr>, None)" by blast
  have "LineBytesStrict (plain_message c ps) [] [] True n = Some (b, None)" if "n = 0 \<or> int (room_for c ps) \<le> n" for n
    using line_fits [OF b [unfolded LineBytes_def], of n MaxlenTagsFromClient 0 0] that LineBytes_plain_length [OF b]
    by (auto simp: LineBytesStrict_def MaxlenTagsFromClient_def MaxlenClientTagData_def)
  then have "Send c ps irc = (Some None, irc\<lparr>pwrite := pwrite irc @ [b]\<rparr>)"
    if "running irc" "MaxLineLen irc = 0 \<or> int (room_for c ps) \<le> MaxLineLen irc" for irc :: "('u, 'b, 'l) Connection"
    using that by (simp add: Send_def SendWithTags_def SendIRCMessage_def MakeMessage_plain sendInternal_def)
  moreover have "(plain_message c ps)\<lparr>forceTrailing := False\<rparr> = plain_message c ps" by (simp add: zero_Message_def)
  ultimately show thesis using that p by metis
qed

lemma ParseLine_clean:
  assumes "ParseLine msg = Some (e, None)" shows "\<forall>p\<in>set (Params e). clean p" "\<forall>p\<in>set (butlast (Params e)). middle p"
  using parseLine_wf [of msg 0 0 e None] assms by (simp_all add: ParseLine_def msg_wf_def)

subsection \<open>The callbacks set up\<close>

lemma add_lib_callbacks:
  assumes "ToUpper upper c = c" "accepted c"
  shows "map pair_callback (event_list (add_lib upper (c, h, pre) irc) k) =
    (if k = c then (if pre then Lib h # map pair_callback (event_list irc k) else map pair_callback (event_list irc k) @ [Lib h])
     else map pair_callback (event_list irc k))"
  using assms by (simp add: add_lib_def addCallback_def insertCallback_0)

definition own_before :: "(string \<times> lib_handler \<times> bool) list \<Rightarrow> string \<Rightarrow> lib_handler list" where
  "own_before hs k = rev (map (fst \<circ> snd) (filter (\<lambda>(c, h, pre). c = k \<and> pre) hs))"

definition own_after :: "(string \<times> lib_handler \<times> bool) list \<Rightarrow> string \<Rightarrow> lib_handler list" where
  "own_after hs k = map (fst \<circ> snd) (filter (\<lambda>(c, h, pre). c = k \<and> \<not> pre) hs)"

lemma add_libs_callbacks:
  assumes "\<forall>x\<in>set hs. ToUpper upper (fst x) = fst x \<and> accepted (fst x)"
  shows "map pair_callback (event_list (fold (add_lib upper) hs irc) k) =
    map Lib (own_before hs k) @ map pair_callback (event_list irc k) @ map Lib (own_after hs k)"
  using assms
proof (induction hs arbitrary: irc)
  case (Cons x hs)
  obtain c h pre where x: "x = (c, h, pre)" by (cases x)
  have "map pair_callback (event_list (fold (add_lib upper) (x # hs) irc) k) =
      map Lib (own_before hs k) @ map pair_callback (event_list (add_lib upper x irc) k) @ map Lib (own_after hs k)"
    using Cons.IH [of "add_lib upper x irc"] Cons.prems by simp
  with add_lib_callbacks [of upper c h pre irc k] Cons.prems show ?case
    by (auto simp: x own_before_def own_after_def)
qed (simp add: own_before_def own_after_def)

definition setup_list :: "bool \<Rightarrow> bool \<Rightarrow> (string \<times> lib_handler \<times> bool) list" where
  "setup_list sasl ctcp = base_callbacks @ (if sasl then sasl_callbacks else []) @
    (if ctcp then ctcp_callbacks else []) @ final_callbacks"

definition own_command :: "(nat \<Rightarrow> nat) \<Rightarrow> string \<times> lib_handler \<times> bool \<Rightarrow> bool" where
  "own_command upper x \<longleftrightarrow> ToUpper upper (fst x) = fst x \<and> accepted (fst x)"

lemma own_commands:
  "list_all (own_command upper) base_callbacks" "list_all (own_command upper) sasl_callbacks"
  "list_all (own_command upper) ctcp_callbacks" "list_all (own_command upper) final_callbacks"
  by (simp_all add: own_command_def base_callbacks_def sasl_callbacks_def ctcp_callbacks_def final_callbacks_def
      RPL_ENDOFMOTD_def ERR_NOMOTD_def ToUpper_ascii ToUpperASCII_def upper_byte_def accepted_def HasPrefix_def)

lemma setup_list_ok: "\<forall>x\<in>set (setup_list sasl ctcp). ToUpper upper (fst x) = fst x \<and> accepted (fst x)"
  using own_commands [of upper] by (auto simp: setup_list_def list_all_iff own_command_def split: if_splits)

lemma add_lib_config [simp]:
  "UseSASL (add_lib upper x irc) = UseSASL irc" "EnableCTCP (add_lib upper x irc) = EnableCTCP irc"
  "hasBaseCallbacks (add_lib upper x irc) = hasBaseCallbacks irc"
  by (cases x; simp add: add_lib_def addCallback_def insertCallback_0)+

lemma add_libs_config [simp]:
  "UseSASL (fold (add_lib upper) hs irc) = UseSASL irc" "EnableCTCP (fold (add_lib upper) hs irc) = EnableCTCP irc"
  "hasBaseCallbacks (fold (add_lib upper) hs irc) = hasBaseCallbacks irc"
  by (induction hs arbitrary: irc) simp_all

lemma setupCallbacks_eq:
  "setupCallbacks upper irc =
    (if hasBaseCallbacks irc then irc
     else fold (add_lib upper) (setup_list (UseSASL irc) (EnableCTCP irc)) (irc\<lparr>hasBaseCallbacks := True\<rparr>))"
  by (simp add: setupCallbacks_def setup_list_def setupSASLCallbacks_def setupCTCPCallbacks_def Let_def)

text \<open>
  The package's own callbacks are entered once, those for NICK and for the end of registration before the
  client's, the others behind them.
\<close>

lemma setupCallbacks_lists:
  "map pair_callback (event_list (setupCallbacks upper irc) k) =
    (if hasBaseCallbacks irc then map pair_callback (event_list irc k)
     else map Lib (own_before (setup_list (UseSASL irc) (EnableCTCP irc)) k) @ map pair_callback (event_list irc k) @
       map Lib (own_after (setup_list (UseSASL irc) (EnableCTCP irc)) k))"
  "hasBaseCallbacks (setupCallbacks upper irc)"
proof -
  have e: "event_list (irc\<lparr>hasBaseCallbacks := True\<rparr>) k = event_list irc k" by (simp add: event_list_def)
  show "map pair_callback (event_list (setupCallbacks upper irc) k) =
    (if hasBaseCallbacks irc then map pair_callback (event_list irc k)
     else map Lib (own_before (setup_list (UseSASL irc) (EnableCTCP irc)) k) @ map pair_callback (event_list irc k) @
       map Lib (own_after (setup_list (UseSASL irc) (EnableCTCP irc)) k))"
    unfolding setupCallbacks_eq
    using add_libs_callbacks [OF setup_list_ok, where irc = "irc\<lparr>hasBaseCallbacks := True\<rparr>" and k = k]
    by (simp add: e)
  show "hasBaseCallbacks (setupCallbacks upper irc)" by (simp add: setupCallbacks_eq)
qed

subsection \<open>Keep-alive\<close>

definition unbatched :: "Message \<Rightarrow> bool" where
  "unbatched e \<longleftrightarrow> fst (GetTag e ''batch'') = False \<and> fst (GetTag e ''label'') = False"

lemma route_unbatched: "unbatched e \<Longrightarrow> Command e \<noteq> ''BATCH'' \<Longrightarrow> route now e irc = (RunMessage e, irc)"
  by (auto simp: unbatched_def route_def route_label_def split: prod.split bool.split)

lemma readLoop_message:
  assumes "ParseLine msg = Some (e, None)" "unbatched e" "Command e \<noteq> ''BATCH''"
  shows "readLoop_line upper C clock now msg irc = Some (recover (AllowPanic irc) (HandleMessage upper C clock e irc))"
  using assms by (simp add: readLoop_line_def runCallbacks_def route_unbatched run_effect_def)

text \<open>C24. Keep-alive: a PING from the server is answered with one line, a PONG with the last parameter of the PING,
  whatever that parameter is, as long as the answer fits the line limit.\<close>

theorem ping_pong:
  assumes "ParseLine msg = Some (e, None)" "Command e = ''PING''" "unbatched e"
    "map pair_callback (getCallbacks upper irc ''PING'') = [Lib HandlePing]"
    "running irc" "MaxLineLen irc = 0 \<or> int (length (lastParam e)) + 8 \<le> MaxLineLen irc"
  shows "\<exists>b. readLoop_line upper C clock now msg irc = Some (Some (), irc\<lparr>pwrite := pwrite irc @ [b]\<rparr>) \<and>
    ParseLine b = Some (plain_message ''PONG'' [lastParam e], None)"
proof -
  have cl: "clean (lastParam e)" using ParseLine_clean(1) [OF assms(1)] by (auto simp: lastParam_def)
  have "command_ok ''PONG''"
    by (simp add: command_ok_def upper_byte_def)
  then obtain b where b: "ParseLine b = Some (plain_message ''PONG'' [lastParam e], None)"
    "\<And>irc :: ('a, 'b, 'c) Connection. running irc \<Longrightarrow>
      MaxLineLen irc = 0 \<or> int (room_for ''PONG'' [lastParam e]) \<le> MaxLineLen irc \<Longrightarrow>
      Send ''PONG'' [lastParam e] irc = (Some None, irc\<lparr>pwrite := pwrite irc @ [b]\<rparr>)"
    using Send_plain [of "''PONG''" "[lastParam e]"] cl by (metis butlast.simps(2) list.pred_inject(1,2))
  have s: "Send ''PONG'' [lastParam e] irc = (Some None, irc\<lparr>pwrite := pwrite irc @ [b]\<rparr>)"
    by (rule b(2) [OF assms(5)]) (use assms(6) in \<open>auto simp: room_for_def\<close>)
  obtain q where q: "getCallbacks upper irc ''PING'' = [q]" "pair_callback q = Lib HandlePing"
    using assms(4) by (cases "getCallbacks upper irc ''PING''") auto
  have "eventRewriteCTCP e = e" using assms(2) by (simp add: eventRewriteCTCP_def)
  then have "HandleMessage upper C clock e irc = (Some (), irc\<lparr>pwrite := pwrite irc @ [b]\<rparr>)"
    by (simp add: HandleMessage_def assms(2) q run_callback_def handlePing_def s act_simps)
  then have "readLoop_line upper C clock now msg irc = Some (Some (), irc\<lparr>pwrite := pwrite irc @ [b]\<rparr>)"
    using readLoop_message [OF assms(1,3), of upper C clock now irc] assms(2) by (simp add: recover_def)
  with b(1) show ?thesis by blast
qed

lemmas parse_eval = ParseLine_def parseLine_def TrimSuffix_def HasSuffix_def forbidden_def parse_tag_section_def
  parse_body_def trimInitialSpaces_def isASCII_def ToUpperASCII_def upper_byte_def zero_Message_def go_eval

lemma ping_pong_witness:
  "\<exists>b. readLoop_line (\<lambda>c. c) \<lparr>run_user = \<lambda>u m. act_return (), run_batch = \<lambda>b a. act_return False,
      run_label = \<lambda>l a. act_return ()\<rparr> [] 0 ''PING :a b''
      ((zero_Connection :: (bool, bool, bool) Connection)\<lparr>running := True, MaxLineLen := 12,
        events := [''PING'' \<mapsto> [\<lparr>pair_id = 0, pair_callback = Lib HandlePing\<rparr>]]\<rparr>) = Some (Some (),
      ((zero_Connection :: (bool, bool, bool) Connection)\<lparr>running := True, MaxLineLen := 12,
        events := [''PING'' \<mapsto> [\<lparr>pair_id = 0, pair_callback = Lib HandlePing\<rparr>]]\<rparr>)\<lparr>pwrite := [] @ [b]\<rparr>) \<and>
    ParseLine b = Some (plain_message ''PONG'' [''a b''], None)"
proof -
  let ?irc = "(zero_Connection :: (bool, bool, bool) Connection)\<lparr>running := True, MaxLineLen := 12,
        events := [''PING'' \<mapsto> [\<lparr>pair_id = 0, pair_callback = Lib HandlePing\<rparr>]]\<rparr>"
  let ?e = "plain_message ''PING'' [''a b'']"
  have p: "ParseLine ''PING :a b'' = Some (?e, None)"
    by (simp add: parse_eval)
  have "getCallbacks (\<lambda>c. c) ?irc ''PING'' = [\<lparr>pair_id = 0, pair_callback = Lib HandlePing\<rparr>]"
    by (simp add: getCallbacks_def event_list_def ToUpper_ascii ToUpperASCII_def upper_byte_def)
  moreover have "unbatched ?e" by (simp add: unbatched_def GetTag_def zero_Message_def)
  moreover have "lastParam ?e = ''a b''" by (simp add: lastParam_def)
  moreover have "pwrite ?irc = []" by (simp add: zero_Connection_def)
  ultimately show ?thesis
    using ping_pong [OF p, of "\<lambda>c. c" ?irc] by simp
qed

subsection \<open>Actions\<close>

lemma take_length_append: "n = length a \<Longrightarrow> take n (a @ b) = a"
  by simp

lemma ctcp_command_action: "ctcp_command (''ACTION '' @ message) = (''CTCP_ACTION'', message)"
  by (simp add: ctcp_command_def HasPrefix_def)


lemma zero_pwrite: "pwrite (zero_Connection :: ('u, 'b, 'l) Connection) = []"
  by (simp add: zero_Connection_def)


end
