(* ===== verification/Event_Invariants.thy ===== *)
theory Event_Invariants
  imports Event_Dispatch
begin

text \<open>
  What the package's own handlers keep. Two interfaces: a predicate on connections that sending keeps, and
  one that every update made by a handler keeps. From the second follows that the whole processing of a
  line keeps the predicate, batches and CTCP included, as long as the client's functions do.
\<close>

subsection \<open>Predicates kept by sending\<close>

locale kept =
  fixes P :: "('u, 'b, 'l) Connection \<Rightarrow> bool"
  assumes sent: "P irc \<Longrightarrow> P (irc\<lparr>pwrite := w\<rparr>)"
begin

definition keeps :: "(('u, 'b, 'l) Connection, 'a) act \<Rightarrow> bool" where
  "keeps m \<longleftrightarrow> (\<forall>irc. P irc \<longrightarrow> P (snd (m irc)))"

lemma keepsD: "keeps m \<Longrightarrow> P irc \<Longrightarrow> P (snd (m irc))"
  by (simp add: keeps_def)

lemma keeps_return [intro]: "keeps (act_return a)"
  by (simp add: keeps_def act_return_def)

lemma keeps_panic [intro]: "keeps act_panic"
  by (simp add: keeps_def act_panic_def)

lemma keeps_modify [intro]: "(\<And>irc. P irc \<Longrightarrow> P (f irc)) \<Longrightarrow> keeps (act_modify f)"
  by (simp add: keeps_def act_modify_def)

lemma keeps_then [intro]: "keeps m \<Longrightarrow> keeps n \<Longrightarrow> keeps (act_then m n)"
  by (auto simp: keeps_def act_then_def act_bind_def split: prod.split option.split)

lemma keeps_for [intro]: "(\<And>x. x \<in> set xs \<Longrightarrow> keeps (f x)) \<Longrightarrow> keeps (act_for xs f)"
  by (induction xs) auto

lemma keeps_message [intro]: "keeps (SendIRCMessage msg tord cord)"
  unfolding keeps_def
proof (intro allI impI)
  fix irc :: "('u, 'b, 'l) Connection"
  assume "P irc"
  then show "P (snd (SendIRCMessage msg tord cord irc))"
    by (cases rule: SendIRCMessage_cases [of irc msg tord cord]) (simp_all add: sent)
qed

lemma keeps_Send [intro]: "keeps (Send c ps)"
  unfolding Send_def SendWithTags_def by (rule keeps_message)

lemma keeps_SendRaw [intro]: "keeps (SendRaw m)"
  by (simp add: keeps_def SendRaw_def sendInternal_def sent)

lemma keeps_notice [intro]: "keeps (ctcp_notice e m)"
  unfolding ctcp_notice_def by blast

end

subsection \<open>Predicates kept by every handler\<close>

locale kept_by_protocol = kept P for P :: "('u, 'b, 'l) Connection \<Rightarrow> bool" +
  fixes caps :: "string list"
  assumes requested: "P irc \<Longrightarrow> RequestCaps irc = caps"
    and pong: "P irc \<Longrightarrow> P (irc\<lparr>pingSent := False\<rparr>)"
    and nick: "P irc \<Longrightarrow> P (irc\<lparr>currentNick := n\<rparr>)"
    and counter: "P irc \<Longrightarrow> P (irc\<lparr>nickCounter := k\<rparr>)"
    and advertised: "P irc \<Longrightarrow> P (irc\<lparr>capsAdvertised := p\<rparr>)"
    and capability: "P irc \<Longrightarrow> capName r \<in> set caps \<Longrightarrow> P (submitCapResult r irc)"
    and sasl: "P irc \<Longrightarrow> P (submitSASLResult q irc)"
begin

lemma keeps_unavailable: "keeps (handleUnavailableNick e)"
  by (auto simp: keeps_def handleUnavailableNick_def Let_def counter
      intro!: keepsD [OF keeps_then [OF keeps_Send keeps_return]])

lemma keeps_LS: "keeps (handleCAPLS params)"
  unfolding keeps_def
proof (intro allI impI)
  fix irc
  assume P: "P irc"
  then have P1: "P (record_advertised params irc)"
    by (simp add: record_advertised_def Let_def advertised)
  have "keeps (act_then (act_for rs (\<lambda>c. Send ''CAP'' [''REQ'', c]))
      (act_for ns (\<lambda>c. act_modify (submitCapResult \<lparr>capName = c, ack = False\<rparr>))))" if "set ns \<subseteq> set caps" for rs ns
    using that by (intro keeps_then keeps_for keeps_Send keeps_modify capability) auto
  note k = keepsD [OF this P1]
  show "P (snd (handleCAPLS params irc))"
  proof (cases "registered irc")
    case False
    show ?thesis unfolding handleCAPLS_def Let_def using False requested [OF P1]
      by (simp only: if_False) (rule k, auto)
  qed (simp add: handleCAPLS_def P)
qed

lemma keeps_CAP: "keeps (handleCAP e)"
  unfolding keeps_def
proof (intro allI impI)
  fix irc
  assume P: "P irc"
  have "keeps (act_for ts (\<lambda>token. act_modify (\<lambda>irc. let name = fst (splitCAPToken token) in
      if sliceContains name (RequestCaps irc) then submitCapResult \<lparr>capName = name, ack = a\<rparr> irc else irc)))" for ts a
    by (intro keeps_for keeps_modify)
      (auto simp: Let_def sliceContains_def list_ex_iff requested intro!: capability)
  from keepsD [OF this P] keepsD [OF keeps_LS P] P show "P (snd (handleCAP e irc))"
    by (simp add: handleCAP_def)
qed

lemma keeps_authenticate: "keeps (handleAuthenticate e)"
  unfolding keeps_def handleAuthenticate_def
  by (auto intro!: keepsD [OF keeps_for] keepsD [OF keeps_then])

lemma keeps_refused: "keeps (handleSASLRefused e)"
  unfolding handleSASLRefused_def by (auto intro!: sasl)

lemma keeps_protocol: "h \<noteq> HandleISupport \<Longrightarrow> h \<noteq> HandleRegistration \<Longrightarrow> keeps (run_lib clock h e)"
proof (cases h)
  case HandlePong
  then show ?thesis by (auto simp: recordPong_def Let_def pong split: option.split)
next
  case HandleCTCPVersion
  then show ?thesis by (simp add: keeps_def handleCTCPVersion_def keepsD [OF keeps_notice])
next
  case HandleCTCPUserInfo
  then show ?thesis by (simp add: keeps_def handleCTCPUserInfo_def keepsD [OF keeps_notice])
qed (auto simp: handlePing_def keeps_unavailable keeps_CAP keeps_authenticate keeps_refused handleRplWelcome_def
    handleNick_def setCurrentNick_def handleSASLAccepted_def handleCTCPClientInfo_def handleCTCPTime_def
    handleCTCPPing_def nick sasl)

end

locale kept_by_handlers = kept_by_protocol P caps for P :: "('u, 'b, 'l) Connection \<Rightarrow> bool" and caps +
  assumes registration: "P irc \<Longrightarrow> P (irc\<lparr>registered := True, isupport := m, isupportPartial := None\<rparr>)"
    and woken: "P irc \<Longrightarrow> registered irc \<Longrightarrow> welcomeChan irc < 1 \<Longrightarrow> P (irc\<lparr>welcomeChan := welcomeChan irc + 1\<rparr>)"
    and tokens: "P irc \<Longrightarrow> isupportPartial irc = Some p \<Longrightarrow> P (irc\<lparr>isupportPartial := Some p'\<rparr>)"
begin

lemma keeps_handleRegistration: "P irc \<Longrightarrow> P (handleRegistration e irc)"
proof -
  assume P: "P irc"
  obtain irc1 where irc1: "irc1 = (if registered irc then irc else irc\<lparr>registered := True,
    isupport := (case isupportPartial irc of None \<Rightarrow> Map.empty | Some m \<Rightarrow> m), isupportPartial := None\<rparr>)"
    by blast
  have "handleRegistration e irc = (if welcomeChan irc1 < 1 then irc1\<lparr>welcomeChan := welcomeChan irc1 + 1\<rparr> else irc1)"
    unfolding handleRegistration_def Let_def irc1 ..
  moreover have "P irc1" "registered irc1" using P registration by (simp_all add: irc1)
  ultimately show ?thesis using woken [of irc1] by presburger
qed

lemma keeps_run_lib: "keeps (run_lib clock h e)"
proof (cases "h = HandleISupport \<or> h = HandleRegistration")
  case True
  then show ?thesis
    by (auto simp: handleISupport_def tokens intro!: keeps_modify keeps_handleRegistration split: option.split)
qed (simp add: keeps_protocol)

end

subsection \<open>Processing a line\<close>

lemma naive_items_keeps:
  assumes "naive_items handle h as s = Some s'" "\<And>m s. Q s \<Longrightarrow> Q (handle m s)" "Q s"
  shows "Q s'"
proof -
  let ?P = "\<lambda>handle' h as s s'. handle' = handle \<longrightarrow> Q s \<longrightarrow> Q s'"
  have "?P handle h as s s'"
  proof (rule naive_items.raw_induct [of ?P, OF _ assms(1)], intro impI)
    fix rec handle' h as s s'
    assume IH: "\<And>handle' h as s s'. rec handle' h as s = Some s' \<Longrightarrow> ?P handle' h as s s'"
      and body: "(case as of [] \<Rightarrow> Some s | a # rest \<Rightarrow> let b = h ! a;
          s1 = if Command (batch_Message b) \<noteq> ''BATCH'' then handle' (batch_Message b) s else s
        in Option.bind (rec handle' h (Items b) s1) (rec handle' h rest)) = Some s'"
      and eq: "handle' = handle" and Q: "Q s"
    show "Q s'"
    proof (cases as)
      case Nil
      with body Q show ?thesis by simp
    next
      case (Cons a rest)
      let ?s1 = "if Command (batch_Message (h ! a)) \<noteq> ''BATCH'' then handle (batch_Message (h ! a)) s else s"
      obtain t where t: "rec handle h (Items (h ! a)) ?s1 = Some t" "rec handle h rest t = Some s'"
        using body [unfolded eq Cons] by (auto simp: Let_def bind_eq_Some_conv)
      have "Q ?s1" using Q assms(2) by simp
      with IH [OF t(1)] have "Q t" by blast
      with IH [OF t(2)] show ?thesis by blast
    qed
  qed
  with assms(3) show ?thesis by blast
qed

definition batch_update :: "('u, 'b, 'l) Connection \<Rightarrow> ('u, 'b, 'l) Connection \<Rightarrow> bool" where
  "batch_update irc irc' \<longleftrightarrow> (\<exists>h bs ls. irc' = irc\<lparr>batch_heap := h, batches := bs, labelCallbacks := ls\<rparr> \<and>
    ls \<subseteq>\<^sub>m labelCallbacks irc)"

lemma batch_updateI:
  "irc' = irc\<lparr>batch_heap := h, batches := bs, labelCallbacks := ls\<rparr> \<Longrightarrow> ls \<subseteq>\<^sub>m labelCallbacks irc \<Longrightarrow> batch_update irc irc'"
  unfolding batch_update_def by blast

lemma batch_update_refl [simp]: "batch_update irc irc"
  by (rule batch_updateI [where h = "batch_heap irc" and bs = "batches irc" and ls = "labelCallbacks irc"]) simp_all

lemma batch_update_trans:
  assumes "batch_update irc irc1" "batch_update irc1 irc2" shows "batch_update irc irc2"
proof -
  obtain h bs ls h' bs' ls' where
    "irc1 = irc\<lparr>batch_heap := h, batches := bs, labelCallbacks := ls\<rparr>" "ls \<subseteq>\<^sub>m labelCallbacks irc"
    "irc2 = irc1\<lparr>batch_heap := h', batches := bs', labelCallbacks := ls'\<rparr>" "ls' \<subseteq>\<^sub>m labelCallbacks irc1"
    using assms unfolding batch_update_def by blast
  then show ?thesis by (intro batch_updateI [where h = h' and bs = bs' and ls = ls']) (auto intro: map_le_trans)
qed

lemma batch_update_heap [simp]: "batch_update irc (irc\<lparr>batch_heap := h\<rparr>)"
  by (rule batch_updateI [where h = h and bs = "batches irc" and ls = "labelCallbacks irc"]) simp_all

lemma batch_update_batches [simp]: "batch_update irc (irc\<lparr>batches := bs\<rparr>)"
  by (rule batch_updateI [where h = "batch_heap irc" and bs = bs and ls = "labelCallbacks irc"]) simp_all

lemma batch_update_label [simp]: "batch_update irc (irc\<lparr>labelCallbacks := (labelCallbacks irc)(l := None)\<rparr>)"
  by (rule batch_updateI [where h = "batch_heap irc" and bs = "batches irc" and ls = "(labelCallbacks irc)(l := None)"])
    (simp_all add: map_le_def)

lemma batch_update_new [simp]: "batch_update irc (snd (new_batch m irc))"
  by (simp add: new_batch_def)

lemma batch_update_append [simp]: "batch_update irc (append_item a b irc)"
  by (simp add: append_item_def)

lemma batch_update_start: "batch_update irc (snd (batch_start now m i nested par label irc))"
proof -
  have "batch_update irc ((snd (new_batch m irc))\<lparr>batches := bs\<rparr>)" for bs
    by (rule batch_update_trans [OF batch_update_new batch_update_batches])
  moreover from batch_update_trans [OF this batch_update_append]
  have "batch_update irc (append_item a b ((snd (new_batch m irc))\<lparr>batches := bs\<rparr>))" for a b bs .
  ultimately show ?thesis
    by (simp add: batch_start_def Let_def case_prod_unfold split: option.split)
qed

lemma batch_update_end: "batch_update irc (snd (batch_end i nested irc))"
proof -
  have "batch_update irc (irc\<lparr>batches := bs, labelCallbacks := (labelCallbacks irc)(l := None)\<rparr>)" for bs l
    by (rule batch_updateI [where h = "batch_heap irc" and bs = bs and ls = "(labelCallbacks irc)(l := None)"])
      (simp_all add: map_le_def)
  then show ?thesis
    by (auto simp: batch_end_def Let_def getLabelCallbackNoMutex_def split: option.split)
qed

lemma route_updates: "batch_update irc (snd (route now m irc))"
proof -
  have "batch_update irc (snd (handleBatchedCommand m i irc))" for i
    using batch_update_trans [OF batch_update_new batch_update_append]
    by (auto simp: handleBatchedCommand_def Let_def case_prod_unfold split: option.split)
  moreover have "batch_update irc (snd (route_label m irc))"
    using batch_update_trans [OF batch_update_label batch_update_new]
    by (auto simp: route_label_def Let_def getLabelCallback_def getLabelCallbackNoMutex_def case_prod_unfold
        split: option.split bool.split)
  moreover have "batch_update irc (snd (handleBatchCommand now m irc))"
    by (simp add: handleBatchCommand_def Let_def case_prod_unfold batch_update_start batch_update_end)
  ultimately show ?thesis by (auto simp: route_def split: prod.split bool.split)
qed

definition client_keeps :: "(('u, 'b, 'l) Connection \<Rightarrow> bool) \<Rightarrow> ('u, 'b, 'l) client_code \<Rightarrow> bool" where
  "client_keeps P C \<longleftrightarrow> (\<forall>irc. P irc \<longrightarrow>
    (\<forall>u m. P (snd (run_user C u m irc))) \<and> (\<forall>b a. P (snd (run_batch C b a irc))) \<and> (\<forall>l r. P (snd (run_label C l r irc))))"

lemma client_keepsD:
  assumes "client_keeps P C" "P irc"
  shows "run_user C u m irc = (x, irc') \<Longrightarrow> P irc'" "run_batch C b a irc = (y, irc') \<Longrightarrow> P irc'"
    "run_label C l r irc = (z, irc') \<Longrightarrow> P irc'"
  using assms unfolding client_keeps_def by (metis snd_conv)+

text \<open>The lemmas hold for every client whose functions keep the predicate as well.\<close>

locale kept_by_lines = kept_by_handlers P caps
  for P :: "('u, 'b, 'l) Connection \<Rightarrow> bool" and caps +
  assumes routed: "P irc \<Longrightarrow> ls \<subseteq>\<^sub>m labelCallbacks irc \<Longrightarrow> P (irc\<lparr>batch_heap := h, batches := bs, labelCallbacks := ls\<rparr>)"
begin

lemma keeps_callback: "client_keeps P C \<Longrightarrow> keeps (run_callback C clock cb e)"
  using keepsD [OF keeps_run_lib] by (auto simp: keeps_def client_keeps_def run_callback_def split: Callback.split)

lemma keeps_HandleMessage: "client_keeps P C \<Longrightarrow> keeps (HandleMessage upper C clock e)"
  by (auto simp: keeps_def HandleMessage_def Let_def intro!: keepsD [OF keeps_for] keeps_callback)

lemma keeps_naive:
  assumes "client_keeps P C" "naive_items (guard_handle (HandleMessage upper C clock)) h as x = Some y" "P (snd x)"
  shows "P (snd y)"
proof (rule naive_items_keeps [of _ h as x y "\<lambda>x. P (snd x)", OF assms(2) _ assms(3)])
  show "P (snd (guard_handle (HandleMessage upper C clock) m z))" if "P (snd z)" for m z
    using that keepsD [OF keeps_HandleMessage [OF assms(1)]] by (auto simp: guard_handle_def split: prod.split option.split)
qed

lemma keeps_HandleBatch:
  "client_keeps P C \<Longrightarrow> HandleBatch (guard_batch (run_batch C)) (guard_handle (HandleMessage upper C clock)) h bhs a x = Some y \<Longrightarrow>
   P (snd x) \<Longrightarrow> P (snd y)"
proof (induction bhs arbitrary: x)
  case Nil
  then show ?case using keeps_naive [OF Nil.prems(1)] by (auto simp: handleBatchNaively_def)
next
  case (Cons bh bhs)
  obtain r z where r: "guard_batch (run_batch C) (pair_callback bh) a x = (r, z)" by (rule prod.exhaust)
  then have "P (snd z)"
    using client_keepsD(2) [OF Cons.prems(1,3)]
    by (auto simp: guard_batch_def split: prod.splits option.splits)
  with Cons r show ?case by (cases r) auto
qed

lemma keeps_effect:
  assumes "client_keeps P C" "run_effect upper C clock eff irc = Some (r, irc')" "P irc" shows "P irc'"
proof (cases eff)
  case (RunMessage m)
  with assms show ?thesis using keepsD [OF keeps_HandleMessage [OF assms(1)] assms(3), of upper clock m]
    by (simp add: run_effect_def)
next
  case (CallLabel cb b)
  with assms(2) show ?thesis by (auto simp: run_effect_def intro: client_keepsD(3) [OF assms(1,3)])
next
  case (RunBatch a)
  with assms keeps_HandleBatch [OF assms(1), of upper clock "batch_heap irc" "getBatchCallbacks irc" a "(Some (), irc)" "(r, irc')"]
  show ?thesis by (simp add: run_effect_def)
qed (use assms in \<open>simp_all add: run_effect_def\<close>)

lemma keeps_readLoop_line:
  assumes "client_keeps P C" "readLoop_line upper C clock now msg irc = Some (r, irc')" "P irc" shows "P irc'"
proof -
  have "P irc'" if "runCallbacks upper C clock now m irc = Some (r, irc')" for m
  proof -
    obtain eff irc1 where e: "route now m irc = (eff, irc1)" by (rule prod.exhaust)
    have "P irc1" using routed [OF assms(3)] route_updates [of irc now m] by (auto simp: e batch_update_def)
    with that show ?thesis using keeps_effect [OF assms(1), of upper clock eff irc1]
      by (auto simp: runCallbacks_def e recover_def split: if_splits)
  qed
  with assms show ?thesis by (auto simp: readLoop_line_def split: option.splits prod.splits)
qed

lemma keeps_disconnect: "client_keeps P C \<Longrightarrow> keeps (runDisconnectCallbacks upper C clock)"
  unfolding keeps_def runDisconnectCallbacks_def recover_def
  by (auto intro!: keepsD [OF keeps_for] keeps_callback)

end

end
