(* ===== verification/Event_Negotiate.thy ===== *)
theory Event_Negotiate
  imports Event_Invariants
begin

text \<open>
  What the server says before registration: the ISUPPORT tokens, and the answer to \<open>CAP LS\<close>
  (\<^verbatim>\<open>ircevent/irc_callback.go\<close>).
\<close>

subsection \<open>Tokens in a map\<close>

lemma fold_map_update:
  "fold (\<lambda>t m. m(fst (f t) \<mapsto> snd (f t))) ts m0 = m0 ++ map_of (rev (map f ts))"
  by (induction ts arbitrary: m0) auto

subsection \<open>ISUPPORT\<close>

definition lib_run :: "string \<Rightarrow> (lib_handler \<times> Message) list \<Rightarrow> ('u, 'b, 'l) Connection \<Rightarrow> ('u, 'b, 'l) Connection" where
  "lib_run clock hs = fold (\<lambda>(h, e) irc. snd (run_lib clock h e irc)) hs"

definition isupport_tokens :: "(lib_handler \<times> Message) list \<Rightarrow> (string \<times> string) list" where
  "isupport_tokens hs = concat (map (\<lambda>(h, e). if h = HandleISupport \<and> 3 \<le> length (Params e)
    then map isupport_token (butlast (tl (Params e))) else []) hs)"

definition isupport_state :: "string list \<Rightarrow> tag_map option \<Rightarrow> tag_map \<Rightarrow> bool \<Rightarrow> ('u, 'b, 'l) Connection \<Rightarrow> bool" where
  "isupport_state caps p m r irc \<longleftrightarrow>
    RequestCaps irc = caps \<and> isupportPartial irc = p \<and> isupport irc = m \<and> registered irc = r"

interpretation isupport_kept: kept_by_protocol "isupport_state caps p m r" caps
  by unfold_locales (auto simp: isupport_state_def submitCapResult_def submitSASLResult_def)

lemma isupport_step:
  assumes "isupport_state caps (Some p) m False irc" "h \<noteq> HandleRegistration"
  shows "isupport_state caps (Some (p ++ map_of (rev (isupport_tokens [(h, e)])))) m False (snd (run_lib clock h e irc))"
proof (cases "h = HandleISupport")
  case True
  have "fold (\<lambda>token m. m(fst (isupport_token token) \<mapsto> snd (isupport_token token))) ts p =
      p ++ map_of (rev (map isupport_token ts))" for ts
    by (rule fold_map_update)
  with True assms show ?thesis
    by (auto simp: isupport_state_def handleISupport_def act_modify_def isupport_tokens_def)
next
  case False
  then have "isupport_tokens [(h, e)] = []" by (simp add: isupport_tokens_def)
  with isupport_kept.keepsD [OF isupport_kept.keeps_protocol [OF False assms(2)] assms(1)] show ?thesis by simp
qed

lemma isupport_tokens_Cons: "isupport_tokens (x # hs) = isupport_tokens [x] @ isupport_tokens hs"
  by (simp add: isupport_tokens_def)

lemma isupport_collect:
  assumes "isupport_state caps (Some p) m False irc" "HandleRegistration \<notin> fst ` set hs"
  shows "isupport_state caps (Some (p ++ map_of (rev (isupport_tokens hs)))) m False (lib_run clock hs irc)"
  using assms
proof (induction hs arbitrary: p irc)
  case Nil
  then show ?case by (simp add: lib_run_def isupport_tokens_def)
next
  case (Cons x hs)
  obtain h e where x: "x = (h, e)" by (cases x)
  have "isupport_state caps (Some (p ++ map_of (rev (isupport_tokens [x])))) m False (snd (run_lib clock h e irc))"
    unfolding x by (rule isupport_step) (use Cons.prems x in auto)
  from Cons.IH [OF this] Cons.prems(2) have
    "isupport_state caps (Some (p ++ map_of (rev (isupport_tokens [x])) ++ map_of (rev (isupport_tokens hs)))) m False
      (lib_run clock hs (snd (run_lib clock h e irc)))" by simp
  then show ?case
    by (simp add: isupport_tokens_Cons [of "(h, e)" hs] x lib_run_def)
qed

lemma isupport_registration:
  assumes "isupport_state caps (Some p) m False irc"
  shows "isupport_state caps None p True (snd (run_lib clock HandleRegistration e irc))"
  using assms by (simp add: isupport_state_def handleRegistration_def act_modify_def Let_def)

lemma isupport_after:
  assumes "isupport_state caps None p True irc"
  shows "isupport_state caps None p True (lib_run clock hs irc)"
  using assms
proof (induction hs arbitrary: irc)
  case (Cons x hs)
  obtain h e where x: "x = (h, e)" by (cases x)
  have "isupport_state caps None p True (snd (run_lib clock h e irc))"
  proof (cases "h = HandleISupport \<or> h = HandleRegistration")
    case True
    with Cons.prems show ?thesis
      by (auto simp: isupport_state_def handleISupport_def handleRegistration_def act_modify_def Let_def)
  next
    case False
    then show ?thesis
      using isupport_kept.keepsD [OF isupport_kept.keeps_protocol Cons.prems] by blast
  qed
  from Cons.IH [OF this] show ?case by (simp add: x lib_run_def)
qed (simp add: lib_run_def)

text \<open>C22. ISUPPORT: whatever other handlers run in between, the tokens of the 005 lines received up to the end
  of registration become visible all at once when it ends, the last value of a token winning; what the
  server sends later, a second end of registration included, changes nothing.\<close>

theorem isupport_frozen:
  assumes "isupportPartial irc = Some Map.empty" "\<not> registered irc" "HandleRegistration \<notin> fst ` set hs"
  shows "ISupport (lib_run clock hs irc) = ISupport irc \<and>
    ISupport (lib_run clock (hs @ (HandleRegistration, e) # hs') irc) = map_of (rev (isupport_tokens hs))"
proof -
  have s: "isupport_state (RequestCaps irc) (Some Map.empty) (isupport irc) False irc"
    using assms by (simp add: isupport_state_def)
  note c = isupport_collect [OF s assms(3), of clock]
  note r = isupport_after [OF isupport_registration [OF c], of clock hs' clock e]
  from c r show ?thesis by (simp add: isupport_state_def ISupport_def lib_run_def)
qed

lemma isupport_frozen_witness:
  "ISupport (lib_run [] ([(HandleISupport, plain_message ''005'' [''me'', ''NICKLEN=32'', ''CHANTYPES=#'', ''x'']),
       (HandlePing, plain_message ''PING'' [''a'']),
       (HandleISupport, plain_message ''005'' [''me'', ''NICKLEN=30'', ''x''])] @
      (HandleRegistration, plain_message ''376'' [''me'']) #
      [(HandleISupport, plain_message ''005'' [''me'', ''NICKLEN=9'', ''x''])])
     ((zero_Connection :: (bool, bool, bool) Connection)\<lparr>isupportPartial := Some Map.empty, registered := False\<rparr>)) ''NICKLEN''
    = Some ''30''"
proof -
  have t: "isupport_tokens [(HandleISupport, plain_message ''005'' [''me'', ''NICKLEN=32'', ''CHANTYPES=#'', ''x'']),
       (HandlePing, plain_message ''PING'' [''a'']),
       (HandleISupport, plain_message ''005'' [''me'', ''NICKLEN=30'', ''x''])]
    = [(''NICKLEN'', ''32''), (''CHANTYPES'', ''#''), (''NICKLEN'', ''30'')]"
    by (simp add: isupport_tokens_def isupport_token_def unescapeISupportValue_def)
  show ?thesis
    by (subst isupport_frozen [THEN conjunct2]) (simp_all add: t)
qed

subsection \<open>CAP LS\<close>

lemma handleCAP_LS:
  "handleCAP (plain_message ''CAP'' (n # ''LS'' # ps)) = (\<lambda>irc. if ps = [] then (Some (), irc) else handleCAPLS ps irc)"
  by (auto simp: handleCAP_def fun_eq_iff)

definition advertised_tokens :: "string list \<Rightarrow> (string \<times> string) list" where
  "advertised_tokens ls = map splitCAPToken (concat (map Fields ls))"

lemma advertised_append: "advertised_tokens (ls @ ls') = advertised_tokens ls @ advertised_tokens ls'"
  by (simp add: advertised_tokens_def)

lemma record_advertised_eq:
  "capsAdvertised irc = Some m \<Longrightarrow> record_advertised (ps @ [l]) irc =
    irc\<lparr>capsAdvertised := Some (m ++ map_of (rev (advertised_tokens [l])))\<rparr>"
  by (simp add: record_advertised_def advertised_tokens_def fold_map_update)

lemma record_advertised_first:
  "capsAdvertised irc = None \<Longrightarrow> record_advertised (ps @ [l]) irc =
    irc\<lparr>capsAdvertised := Some (map_of (rev (advertised_tokens [l])))\<rparr>"
  by (simp add: record_advertised_def advertised_tokens_def fold_map_update)

text \<open>The continued lines of a long answer only add to the map.\<close>

definition continued :: "string \<Rightarrow> string list \<Rightarrow> ('u, 'b, 'l) Connection \<Rightarrow> ('u, 'b, 'l) Connection" where
  "continued n ls = fold (\<lambda>l irc. snd (handleCAP (plain_message ''CAP'' [n, ''LS'', ''*'', l]) irc)) ls"

lemma continued_Cons:
  assumes "\<not> registered irc"
  shows "continued n (l # ls) irc = continued n ls (record_advertised [''*'', l] irc)"
proof -
  have "snd (handleCAP (plain_message ''CAP'' [n, ''LS'', ''*'', l]) irc) = record_advertised [''*'', l] irc"
    using assms by (simp add: handleCAP_LS handleCAPLS_def act_simps)
  then show ?thesis by (simp add: continued_def)
qed

lemma continued_Some:
  "\<not> registered irc \<Longrightarrow> capsAdvertised irc = Some m \<Longrightarrow>
   continued n ls irc = irc\<lparr>capsAdvertised := Some (m ++ map_of (rev (advertised_tokens ls)))\<rparr>"
proof (induction ls arbitrary: irc m)
  case Nil
  then show ?case by (cases irc) (simp add: continued_def advertised_tokens_def)
next
  case (Cons l ls)
  note r = record_advertised_eq [OF Cons.prems(2), of "[''*'']" l]
  show ?case
    using Cons.prems Cons.IH [of "irc\<lparr>capsAdvertised := Some (m ++ map_of (rev (advertised_tokens [l])))\<rparr>"]
    by (simp add: continued_Cons r [simplified]) (simp add: advertised_tokens_def)
qed

lemma record_continued:
  assumes "\<not> registered irc" "capsAdvertised irc = None"
  shows "record_advertised [l] (continued n ls irc) =
    irc\<lparr>capsAdvertised := Some (map_of (rev (advertised_tokens (ls @ [l]))))\<rparr>"
proof (cases ls)
  case Nil
  then show ?thesis
    using record_advertised_first [OF assms(2), of "[]" l] by (simp add: continued_def)
next
  case (Cons l0 ls0)
  note r = record_advertised_first [OF assms(2), of "[''*'']" l0]
  let ?irc1 = "irc\<lparr>capsAdvertised := Some (map_of (rev (advertised_tokens [l0])))\<rparr>"
  have "continued n ls irc = ?irc1\<lparr>capsAdvertised := Some (map_of (rev (advertised_tokens [l0])) ++
      map_of (rev (advertised_tokens ls0)))\<rparr>"
    using continued_Some [of ?irc1 "map_of (rev (advertised_tokens [l0]))" n ls0] assms(1)
    by (simp add: Cons continued_Cons r [simplified])
  then have c: "continued n ls irc = irc\<lparr>capsAdvertised := Some (map_of (rev (advertised_tokens ls)))\<rparr>"
    unfolding Cons advertised_append [of "[l0]" ls0, simplified] by simp
  have "capsAdvertised (irc\<lparr>capsAdvertised := Some (map_of (rev (advertised_tokens ls)))\<rparr>) =
      Some (map_of (rev (advertised_tokens ls)))" by simp
  from record_advertised_eq [OF this, of "[]" l] show ?thesis
    unfolding c advertised_append by simp
qed

lemma send_requests:
  assumes "\<forall>c\<in>set cs. clean c \<and> (MaxLineLen irc = 0 \<or> int (length c) + 12 \<le> MaxLineLen irc)" "running irc"
  shows "\<exists>bs. act_for cs (\<lambda>c. Send ''CAP'' [''REQ'', c]) irc = (Some (), irc\<lparr>pwrite := pwrite irc @ bs\<rparr>) \<and>
    map ParseLine bs = map (\<lambda>c. Some (plain_message ''CAP'' [''REQ'', c], None)) cs"
  using assms
proof (induction cs arbitrary: irc)
  case Nil
  show ?case by (intro exI [of _ "[]"]) (simp add: act_return_def)
next
  case (Cons c cs)
  have ok: "command_ok ''CAP''" "list_all middle (butlast [''REQ'', c])" "list_all clean [''REQ'', c]"
    using Cons.prems(1) by (simp_all add: command_ok_def upper_byte_def middle_def)
  obtain b where b: "ParseLine b = Some (plain_message ''CAP'' [''REQ'', c], None)"
    "\<And>irc :: ('a, 'b, 'c) Connection. running irc \<Longrightarrow>
      MaxLineLen irc = 0 \<or> int (room_for ''CAP'' [''REQ'', c]) \<le> MaxLineLen irc \<Longrightarrow>
      Send ''CAP'' [''REQ'', c] irc = (Some None, irc\<lparr>pwrite := pwrite irc @ [b]\<rparr>)"
    by (rule Send_plain [OF ok]) blast
  have s: "Send ''CAP'' [''REQ'', c] irc = (Some None, irc\<lparr>pwrite := pwrite irc @ [b]\<rparr>)"
    by (rule b(2) [OF Cons.prems(2)]) (use Cons.prems(1) in \<open>auto simp: room_for_def\<close>)
  obtain bs where "act_for cs (\<lambda>c. Send ''CAP'' [''REQ'', c]) (irc\<lparr>pwrite := pwrite irc @ [b]\<rparr>) =
      (Some (), irc\<lparr>pwrite := (pwrite irc @ [b]) @ bs\<rparr>)"
    "map ParseLine bs = map (\<lambda>c. Some (plain_message ''CAP'' [''REQ'', c], None)) cs"
    using Cons.IH [of "irc\<lparr>pwrite := pwrite irc @ [b]\<rparr>"] Cons.prems by auto
  then show ?case
    by (intro exI [of _ "b # bs"]) (simp add: s b(1) act_then_def act_bind_def)
qed

lemma submit_refusals:
  assumes "length (capsChan irc) + length cs \<le> capsChanCap irc"
  shows "act_for cs (\<lambda>c. act_modify (submitCapResult \<lparr>capName = c, ack = a\<rparr>)) irc =
    (Some (), irc\<lparr>capsChan := capsChan irc @ map (\<lambda>c. \<lparr>capName = c, ack = a\<rparr>) cs\<rparr>)"
  using assms
proof (induction cs arbitrary: irc)
  case (Cons c cs)
  then show ?case
    using Cons.IH [of "irc\<lparr>capsChan := capsChan irc @ [\<lparr>capName = c, ack = a\<rparr>]\<rparr>"]
    by (simp add: act_simps submitCapResult_def)
qed (simp add: act_return_def)

text \<open>C21. CAP LS: when the last line of the server's answer has arrived, in one line or many, every capability
  the client wants is either requested, in a CAP REQ of its own, when the server advertised it, or counted
  as refused when it did not, in the order of the configuration; the advertised values are recorded.\<close>

theorem CAP_LS_answer:
  fixes irc :: "('u, 'b, 'l) Connection"
  defines "adv ls \<equiv> map_of (rev (advertised_tokens ls))"
  assumes "running irc" "\<not> registered irc" "capsAdvertised irc = None"
    "\<forall>c\<in>set (RequestCaps irc). clean c \<and> (MaxLineLen irc = 0 \<or> int (length c) + 12 \<le> MaxLineLen irc)"
    "length (capsChan irc) + length (RequestCaps irc) \<le> capsChanCap irc"
  shows "\<exists>bs. handleCAP (plain_message ''CAP'' [n, ''LS'', l]) (continued n ls irc) = (Some (),
      irc\<lparr>pwrite := pwrite irc @ bs, capsAdvertised := Some (adv (ls @ [l])),
        capsChan := capsChan irc @ map (\<lambda>c. \<lparr>capName = c, ack = False\<rparr>)
          (filter (\<lambda>c. adv (ls @ [l]) c = None) (RequestCaps irc))\<rparr>) \<and>
    map ParseLine bs = map (\<lambda>c. Some (plain_message ''CAP'' [''REQ'', c], None))
      (filter (\<lambda>c. adv (ls @ [l]) c \<noteq> None) (RequestCaps irc))"
proof -
  let ?irc1 = "irc\<lparr>capsAdvertised := Some (adv (ls @ [l]))\<rparr>"
  let ?req = "filter (\<lambda>c. adv (ls @ [l]) c \<noteq> None) (RequestCaps irc)"
  let ?nak = "filter (\<lambda>c. adv (ls @ [l]) c = None) (RequestCaps irc)"
  have reg: "\<not> registered (continued n ls irc)"
  proof (cases ls)
    case (Cons l0 ls0)
    then show ?thesis
      using record_advertised_first [OF assms(4), of "[''*'']" l0] assms(3)
        continued_Some [of "record_advertised [''*'', l0] irc" "map_of (rev (advertised_tokens [l0]))" n ls0]
      by (simp add: continued_Cons)
  qed (simp add: continued_def assms)
  have adv: "is_advertised ?irc1 = (\<lambda>c. adv (ls @ [l]) c \<noteq> None)"
    by (simp add: fun_eq_iff is_advertised_def)
  have "handleCAP (plain_message ''CAP'' [n, ''LS'', l]) (continued n ls irc) =
      act_then (act_for ?req (\<lambda>c. Send ''CAP'' [''REQ'', c]))
        (act_for ?nak (\<lambda>c. act_modify (submitCapResult \<lparr>capName = c, ack = False\<rparr>))) ?irc1"
    using reg by (simp add: handleCAP_LS handleCAPLS_def record_continued [OF assms(3,4)] adv [unfolded adv_def] adv_def Let_def)
  moreover obtain bs where bs: "act_for ?req (\<lambda>c. Send ''CAP'' [''REQ'', c]) ?irc1 =
      (Some (), ?irc1\<lparr>pwrite := pwrite irc @ bs\<rparr>)"
    "map ParseLine bs = map (\<lambda>c. Some (plain_message ''CAP'' [''REQ'', c], None)) ?req"
    using send_requests [of ?req ?irc1] assms(2,5) by auto
  moreover have "length (capsChan (?irc1\<lparr>pwrite := pwrite irc @ bs\<rparr>)) + length ?nak \<le>
      capsChanCap (?irc1\<lparr>pwrite := pwrite irc @ bs\<rparr>)"
    using order_trans [OF add_left_mono [OF length_filter_le] assms(6)] by simp
  note submit_refusals [OF this, of False]
  ultimately show ?thesis
    by (intro exI [of _ bs]) (simp add: act_then_def act_bind_def)
qed

lemma CAP_LS_answer_witness:
  fixes irc :: "(bool, bool, bool) Connection"
  defines "irc \<equiv> zero_Connection\<lparr>running := True, MaxLineLen := 512, RequestCaps := [''a'', ''b''], capsChanCap := 2,
    registered := False, capsAdvertised := None, capsChan := []\<rparr>"
  shows "\<exists>bs. map ParseLine bs = [Some (plain_message ''CAP'' [''REQ'', ''b''], None)] \<and>
    capsChan (snd (handleCAP (plain_message ''CAP'' [''*'', ''LS'', ''c'']) (continued ''*'' [''b=1 x''] irc))) =
      [\<lparr>capName = ''a'', ack = False\<rparr>] \<and>
    pwrite (snd (handleCAP (plain_message ''CAP'' [''*'', ''LS'', ''c'']) (continued ''*'' [''b=1 x''] irc))) = pwrite irc @ bs"
proof -
  have t: "advertised_tokens ([''b=1 x''] @ [''c'']) = [(''b'', ''1''), (''x'', []), (''c'', [])]"
    by (simp add: advertised_tokens_def splitCAPToken_def Fields_def IsSpace_def go_eval)
  have "length (capsChan irc) + length (RequestCaps irc) \<le> capsChanCap irc" "RequestCaps irc = [''a'', ''b'']"
    "capsChan irc = []" "MaxLineLen irc = 512"
    by (simp_all add: irc_def)
  with CAP_LS_answer [of irc "''*''" "''c''" "[''b=1 x'']"] show ?thesis
    unfolding t by (auto simp: irc_def)
qed

end
