(* ===== verification/Event_Lifecycle.thy ===== *)
theory Event_Lifecycle
  imports Event_Negotiate "HOL-Library.Signed_Division"
begin

text \<open>
  The life of a connection (\<^verbatim>\<open>ircevent/irc.go\<close>): \<open>Connect\<close>, capability negotiation, the loops that run while
  it is up, and how it stops. The goroutines take turns in the steps of \<open>sys_step\<close>: \<open>Connect\<close> is a
  program counter that moves from one blocking operation or send to the next; the reader, the writer and
  the pinger are alive or not. What a \<open>select\<close> takes, what the network does and what the client calls
  is left to the environment. The bytes on the socket are in \<open>Event_Wire\<close>,
  \<open>dial\<close> is in \<open>Event_Dial\<close>, \<open>Loop\<close> in \<open>Event_Loop\<close>. A panic that nobody recovers ends the program: there is
  no step for it.
\<close>

subsection \<open>Ticks\<close>

definition tick_error :: "event_error \<Rightarrow> (('u, 'b, 'l) Connection, unit) act" where
  "tick_error err = (\<lambda>irc. case setError err irc of None \<Rightarrow> (None, irc) | Some irc1 \<Rightarrow> (Some (), irc1))"

text \<open>\<open>sdiv\<close> and \<open>smod\<close> are Go's quotient and remainder, which panic on zero.\<close>

definition processTick :: "int \<Rightarrow> int \<Rightarrow> (('u, 'b, 'l) Connection, unit) act" where
  "processTick now tick =
    (\<lambda>irc. if quit irc \<and> now - quitAt irc \<ge> Timeout irc then tick_error serverDidNotQuit irc
      else if pingSent irc then tick_error ServerTimedOut irc
      else if Timeout irc = 0 \<or> KeepAlive irc sdiv Timeout irc = 0 then (None, irc)
      else if tick smod (KeepAlive irc sdiv Timeout irc) = 0 then
        (let irc1 = irc\<lparr>pingSent := True\<rparr>;
             shouldRenick = (currentNick irc \<noteq> irc_Nick irc)
         in act_then (ping now)
              (if shouldRenick then (\<lambda>irc. act_then (Send ''NICK'' [PreferredNick irc]) (act_return ()) irc)
               else act_return ()) irc1)
      else (Some (), irc))"

subsection \<open>Connect: the configuration\<close>

definition defaultNick :: string where
  "defaultNick = ''ircevent''"

definition package_Version :: string where
  "package_Version = ''ergochat/irc-go''"

text \<open>Durations are in nanoseconds.\<close>

definition time_Minute :: int where
  "time_Minute = 60 * 1000000000"

definition orElse :: "string \<Rightarrow> string \<Rightarrow> string" where
  "orElse s d = (if s = [] then d else s)"

definition connect_stop :: "('u, 'b, 'l) Connection \<Rightarrow> ('u, 'b, 'l) Connection" where
  "connect_stop irc =
    irc\<lparr>running := False, socket := False, currentNick := [], lastError := None, pingSent := False\<rparr>"

definition default_identity :: "('u, 'b, 'l) Connection \<Rightarrow> ('u, 'b, 'l) Connection" where
  "default_identity irc =
    (let irc1 = irc\<lparr>irc_Nick := orElse (irc_Nick irc) defaultNick\<rparr>
     in irc1\<lparr>irc_User := orElse (irc_User irc1) (irc_Nick irc1),
          KeepAlive := (if KeepAlive irc1 = 0 then 4 * time_Minute else KeepAlive irc1),
          Timeout := (if Timeout irc1 = 0 then 1 * time_Minute else Timeout irc1)\<rparr>)"

definition default_sasl :: "('u, 'b, 'l) Connection \<Rightarrow> ('u, 'b, 'l) Connection" where
  "default_sasl irc =
    (let irc1 = irc\<lparr>ReconnectFreq := (if ReconnectFreq irc = 0 then 2 * time_Minute else ReconnectFreq irc),
                  UseSASL := (UseSASL irc \<or> SASLLogin irc \<noteq> [] \<and> SASLPassword irc \<noteq> [])\<rparr>;
         irc2 = (if UseSASL irc1 \<and> \<not> sliceContains ''sasl'' (RequestCaps irc1)
                 then irc1\<lparr>RequestCaps := RequestCaps irc1 @ [''sasl'']\<rparr> else irc1)
     in irc2\<lparr>SASLMech := orElse (SASLMech irc2) ''PLAIN''\<rparr>)"

definition default_limits :: "('u, 'b, 'l) Connection \<Rightarrow> ('u, 'b, 'l) Connection" where
  "default_limits irc =
    irc\<lparr>MaxLineLen := (if MaxLineLen irc = 0 then 512 else MaxLineLen irc), Version := orElse (Version irc) package_Version\<rparr>"

definition connect_config :: "('u, 'b, 'l) Connection \<Rightarrow> event_error option \<times> ('u, 'b, 'l) Connection" where
  "connect_config irc =
    (if quit irc then (Some ClientHasQuit, irc)
     else
       let irc1 = connect_stop irc in
       if Server irc1 = [] then (Some NoServerProvided, irc1)
       else
         let irc2 = default_identity irc1 in
         if KeepAlive irc2 < Timeout irc2 then (Some KeepAliveTooShort, irc2)
         else
           let irc3 = default_sasl irc2 in
           if \<not> (SASLMech irc3 = ''PLAIN'' \<or> SASLMech irc3 = ''EXTERNAL'') then
             (Some (UnsupportedMechanism (SASLMech irc3)), irc3)
           else (None, default_limits irc3))"

text \<open>After a successful dial.\<close>

definition connect_reset :: "('u, 'b, 'l) Connection \<Rightarrow> ('u, 'b, 'l) Connection" where
  "connect_reset irc =
    irc\<lparr>socket := True, running := True, end_chan := OpenChan, pwrite := [],
      capsChan := [], capsChanCap := length (RequestCaps irc), saslChan := [], welcomeChan := 0,
      registered := False, isupportPartial := Some Map.empty, isupport := Map.empty,
      capsAcked := Map.empty, capsAdvertised := None,
      batches := Map.empty, labelCallbacks := Map.empty, labelCounter := 0\<rparr>"

subsection \<open>Connect: negotiation and registration\<close>

datatype timer = Armed | Fired | TimerStopped

text \<open>Where \<open>Connect\<close> is; \<open>Up\<close> and \<open>Drain\<close> wait in \<open>waitForStop\<close>, after success and after failure. While it
  is \<open>Dialing\<close> the client may call \<open>Quit\<close> or \<open>Reconnect\<close>.\<close>

datatype connect_pc =
    Stopped
  | Dialing
  | SendWebIRC
  | SendPass
  | SendLS
  | AwaitCaps timer nat "string list"
  | SendAuth "string list"
  | AwaitSASL "string list"
  | SendEnd "event_error option" "string list"
  | ProcessCaps "event_error option" "string list"
  | SendNick
  | SendUser
  | AwaitWelcome
  | CloseEnd event_error
  | Drain
  | Up

text \<open>What the environment offers: nothing is waited for, a value in the channel, time, or the closed \<open>end\<close>.\<close>

datatype choice = Go | Receive | TimerFires | TimedOut | EndClosed

definition saslError :: "('u, 'b, 'l) Connection \<Rightarrow> event_error option \<Rightarrow> event_error option" where
  "saslError irc err = (if \<not> SASLOptional irc then err else None)"

definition after_caps :: "('u, 'b, 'l) Connection \<Rightarrow> string list \<Rightarrow> connect_pc" where
  "after_caps irc acknowledgedCaps =
    (if UseSASL irc then
       if \<not> sliceContains ''sasl'' acknowledgedCaps then SendEnd (saslError irc (Some SASLFailed)) acknowledgedCaps
       else SendAuth acknowledgedCaps
     else SendEnd None acknowledgedCaps)"

definition send_then :: "connect_pc \<Rightarrow> (('u, 'b, 'l) Connection, 'r) act \<Rightarrow> ('u, 'b, 'l) Connection
    \<Rightarrow> (connect_pc \<times> ('u, 'b, 'l) Connection) option" where
  "send_then p m irc = (case m irc of (None, irc1) \<Rightarrow> None | (Some _, irc1) \<Rightarrow> Some (p, irc1))"

definition end_closed :: "('u, 'b, 'l) Connection \<Rightarrow> bool" where
  "end_closed irc \<longleftrightarrow> end_chan irc = ClosedChan"

fun negotiate_step :: "choice \<Rightarrow> connect_pc \<Rightarrow> ('u, 'b, 'l) Connection \<Rightarrow> (connect_pc \<times> ('u, 'b, 'l) Connection) option" where
  "negotiate_step Go SendLS irc =
    send_then (AwaitCaps Armed (length (RequestCaps irc)) []) (Send ''CAP'' [''LS'', ''302'']) irc"
| "negotiate_step TimerFires (AwaitCaps Armed remaining acked) irc = Some (AwaitCaps Fired remaining acked, irc)"
| "negotiate_step Receive (AwaitCaps t remaining acked) irc =
    (case capsChan irc of
       [] \<Rightarrow> None
     | result # rest \<Rightarrow>
         let irc1 = irc\<lparr>capsChan := rest\<rparr>;
             t1 = (if t = Armed then TimerStopped else t);
             acked1 = (if ack result then acked @ [capName result] else acked)
         in Some (if remaining - 1 > 0 then AwaitCaps t1 (remaining - 1) acked1 else after_caps irc1 acked1, irc1))"
| "negotiate_step TimedOut (AwaitCaps Fired remaining acked) irc = Some (SendEnd None acked, irc)"
| "negotiate_step EndClosed (AwaitCaps t remaining acked) irc =
    (if end_closed irc then Some (SendEnd (Some ServerDisconnected) acked, irc) else None)"
| "negotiate_step Go (SendAuth acked) irc = send_then (AwaitSASL acked) (Send ''AUTHENTICATE'' [SASLMech irc]) irc"
| "negotiate_step Receive (AwaitSASL acked) irc =
    (case saslChan irc of
       [] \<Rightarrow> None
     | res # rest \<Rightarrow> Some (SendEnd (if Failed res then saslError irc (Err res) else None) acked, irc\<lparr>saslChan := rest\<rparr>))"
| "negotiate_step TimedOut (AwaitSASL acked) irc = Some (SendEnd (saslError irc (Some SASLFailed)) acked, irc)"
| "negotiate_step EndClosed (AwaitSASL acked) irc =
    (if end_closed irc then Some (SendEnd (Some ServerDisconnected) acked, irc) else None)"
| "negotiate_step Go (SendEnd err acked) irc = send_then (ProcessCaps err acked) (Send ''CAP'' [''END'']) irc"
| "negotiate_step Go (ProcessCaps err acked) irc =
    Some (case err of None \<Rightarrow> SendNick | Some e \<Rightarrow> CloseEnd e, processAckedCaps acked irc)"
| "negotiate_step _ _ irc = None"

definition realname :: "('u, 'b, 'l) Connection \<Rightarrow> string" where
  "realname irc = (if RealName irc \<noteq> [] then RealName irc else irc_User irc)"

fun connect_step :: "choice \<Rightarrow> connect_pc \<Rightarrow> ('u, 'b, 'l) Connection \<Rightarrow> (connect_pc \<times> ('u, 'b, 'l) Connection) option" where
  "connect_step Go SendWebIRC irc =
    (if 0 < length (WebIRC irc) then send_then SendPass (Send ''WEBIRC'' (WebIRC irc)) irc else Some (SendPass, irc))"
| "connect_step Go SendPass irc =
    (let next = (if length (RequestCaps irc) = 0 then SendNick else SendLS)
     in if 0 < length (Password irc) then send_then next (Send ''PASS'' [Password irc]) irc else Some (next, irc))"
| "connect_step Go SendNick irc = send_then SendUser (Send ''NICK'' [PreferredNick irc]) irc"
| "connect_step Go SendUser irc =
    send_then AwaitWelcome (Send ''USER'' [irc_User irc, ''s'', ''e'', realname irc]) irc"
| "connect_step Receive AwaitWelcome irc =
    (if 0 < welcomeChan irc then Some (Up, irc\<lparr>welcomeChan := welcomeChan irc - 1\<rparr>) else None)"
| "connect_step EndClosed AwaitWelcome irc = (if end_closed irc then Some (CloseEnd ServerDisconnected, irc) else None)"
| "connect_step TimedOut AwaitWelcome irc = Some (CloseEnd ServerTimedOut, irc)"
| "connect_step Go (CloseEnd err) irc = map_option (Pair Drain) (closeEnd irc)"
| "connect_step ch p irc = negotiate_step ch p irc"

text \<open>
  Once an answer to a CAP request has come, nothing but another answer or the end of the connection wakes
  \<open>negotiateCaps\<close>: its timer has been stopped.
\<close>

lemma caps_wait_forever:
  assumes "capsChan irc = []" "\<not> end_closed irc"
  shows "connect_step ch (AwaitCaps TimerStopped remaining acked) irc = None"
  using assms by (cases ch) simp_all

subsection \<open>The goroutines\<close>

definition expire :: "('u, 'b, 'l) client_code \<Rightarrow> bool \<Rightarrow> int \<Rightarrow> 64 word list \<Rightarrow> (('u, 'b, 'l) Connection, unit) act" where
  "expire C force now order =
    (\<lambda>irc. let (failedCallbacks, irc1) = expireBatches force now order irc
           in act_for failedCallbacks (\<lambda>bcb. run_label C bcb None) irc1)"

definition reader_exit :: "(nat \<Rightarrow> nat) \<Rightarrow> ('u, 'b, 'l) client_code \<Rightarrow> string \<Rightarrow> (('u, 'b, 'l) Connection, unit) act" where
  "reader_exit upper C clock =
    (\<lambda>irc. if registered irc then runDisconnectCallbacks upper C clock irc else (Some (), irc))"

record ('u, 'b, 'l) system =
  conn :: "('u, 'b, 'l) Connection"
  pc :: connect_pc
  sock_open :: bool
  reader :: bool
  writer :: bool
  pinger :: bool
  ticks :: int

text \<open>The order in which \<open>range\<close> visits the pending labels is up to the runtime.\<close>

definition label_order :: "64 word list \<Rightarrow> ('u, 'b, 'l) Connection \<Rightarrow> bool" where
  "label_order order irc \<longleftrightarrow> distinct order \<and> set order = dom (labelCallbacks irc)"

text \<open>
  What the client may call at any time. \<open>SendWithLabel\<close>, \<open>SetNick\<close> and \<open>Quit\<close> enter several critical sections: the
  last four rules are these sections on their own, so that other steps may fall in between.
\<close>

inductive api_step :: "(nat \<Rightarrow> nat) \<Rightarrow> ('u, 'b, 'l) Connection \<Rightarrow> ('u, 'b, 'l) Connection \<Rightarrow> bool" for upper where
  message: "api_step upper irc (snd (SendIRCMessage msg tord cord irc))"
| raw: "api_step upper irc (snd (SendRaw m irc))"
| labeled: "api_step upper irc (snd (SendWithLabel now cb tagList tord cord command params irc))"
| set_nick: "api_step upper irc (snd (SetNick n irc))"
| quit: "api_step upper irc (snd (Quit now irc))"
| reconnect: "Reconnect irc = Some irc' \<Longrightarrow> api_step upper irc irc'"
| registry: "registry_step upper irc irc' \<Longrightarrow> api_step upper irc irc'"
| label_registered: "labelNegotiated irc \<Longrightarrow> api_step upper irc (snd (registerLabel now cb irc))"
| label_withdrawn: "api_step upper irc (unregisterLabel label irc)"
| nick_preferred: "api_step upper irc (irc\<lparr>irc_Nick := n\<rparr>)"
| quit_marked: "api_step upper irc (irc\<lparr>quit := True, quitAt := now\<rparr>)"

text \<open>
  The steps of \<open>readLoop\<close>, \<open>writeLoop\<close> and \<open>pingLoop\<close>, and the calls of the client. A goroutine that is gone
  (\<open>wg.Done\<close>) takes no step.
\<close>

inductive goroutine_step :: "(nat \<Rightarrow> nat) \<Rightarrow> ('u, 'b, 'l) client_code \<Rightarrow> ('u, 'b, 'l) system \<Rightarrow> ('u, 'b, 'l) system \<Rightarrow> bool"
  for upper C where
  read_line: "reader s \<Longrightarrow> readLoop_line upper C clock now msg (conn s) = Some (Some (), irc) \<Longrightarrow>
    goroutine_step upper C s (s\<lparr>conn := irc\<rparr>)"
| read_expire: "reader s \<Longrightarrow> batchNegotiated (conn s) \<Longrightarrow> label_order order (conn s) \<Longrightarrow>
    expire C False now order (conn s) = (Some (), irc) \<Longrightarrow>
    goroutine_step upper C s (s\<lparr>conn := irc\<rparr>)"
| read_error: "reader s \<Longrightarrow> setError err (conn s) = Some irc1 \<Longrightarrow> reader_exit upper C clock irc1 = (Some (), irc) \<Longrightarrow>
    goroutine_step upper C s (s\<lparr>conn := irc, reader := False\<rparr>)"
| read_end: "reader s \<Longrightarrow> end_closed (conn s) \<Longrightarrow> reader_exit upper C clock (conn s) = (Some (), irc) \<Longrightarrow>
    goroutine_step upper C s (s\<lparr>conn := irc, reader := False\<rparr>)"
| write_error: "writer s \<Longrightarrow> setError err (conn s) = Some irc \<Longrightarrow>
    goroutine_step upper C s (s\<lparr>conn := irc, writer := False\<rparr>)"
| write_end: "writer s \<Longrightarrow> end_closed (conn s) \<Longrightarrow> goroutine_step upper C s (s\<lparr>writer := False\<rparr>)"
| tick: "pinger s \<Longrightarrow> processTick now (ticks s + 1) (conn s) = (Some (), irc) \<Longrightarrow>
    goroutine_step upper C s (s\<lparr>conn := irc, ticks := ticks s + 1\<rparr>)"
| ping_end: "pinger s \<Longrightarrow> end_closed (conn s) \<Longrightarrow> goroutine_step upper C s (s\<lparr>pinger := False\<rparr>)"
| client: "api_step upper (conn s) irc \<Longrightarrow> goroutine_step upper C s (s\<lparr>conn := irc\<rparr>)"

text \<open>The steps of \<open>Connect\<close>, up to the wait for the goroutines when it has failed.\<close>

inductive Connect_step :: "(nat \<Rightarrow> nat) \<Rightarrow> ('u, 'b, 'l) system \<Rightarrow> ('u, 'b, 'l) system \<Rightarrow> bool" for upper where
  refused: "pc s = Stopped \<Longrightarrow> connect_config (conn s) = (Some err, irc) \<Longrightarrow> Connect_step upper s (s\<lparr>conn := irc\<rparr>)"
| configured: "pc s = Stopped \<Longrightarrow> connect_config (conn s) = (None, irc) \<Longrightarrow>
    Connect_step upper s (s\<lparr>conn := setupCallbacks upper irc, pc := Dialing\<rparr>)"
| dial_failed: "pc s = Dialing \<Longrightarrow> Connect_step upper s (s\<lparr>pc := Stopped\<rparr>)"
| dialed: "pc s = Dialing \<Longrightarrow>
    Connect_step upper s (s\<lparr>conn := connect_reset (conn s), pc := SendWebIRC, sock_open := True,
      reader := True, writer := True, pinger := True, ticks := 0\<rparr>)"
| connect: "connect_step ch (pc s) (conn s) = Some (p, irc) \<Longrightarrow> Connect_step upper s (s\<lparr>pc := p, conn := irc\<rparr>)"

text \<open>
  \<open>waitForStop\<close>, which \<open>Connect\<close> runs when it has failed and \<open>Loop\<close> at the start of each round: the socket is
  closed when there is one, and all the label functions still pending are told.
\<close>

inductive waitForStop :: "('u, 'b, 'l) client_code \<Rightarrow> ('u, 'b, 'l) system \<Rightarrow> ('u, 'b, 'l) system \<Rightarrow> bool" for C where
  stopped: "pc s \<in> {Stopped, Up, Drain} \<Longrightarrow> end_closed (conn s) \<Longrightarrow> \<not> reader s \<Longrightarrow> \<not> writer s \<Longrightarrow> \<not> pinger s \<Longrightarrow>
    label_order order (conn s) \<Longrightarrow> expire C True now order (conn s) = (Some (), irc) \<Longrightarrow>
    waitForStop C s (s\<lparr>conn := irc, pc := Stopped, sock_open := sock_open s \<and> \<not> socket (conn s)\<rparr>)"

inductive sys_step :: "(nat \<Rightarrow> nat) \<Rightarrow> ('u, 'b, 'l) client_code \<Rightarrow> ('u, 'b, 'l) system \<Rightarrow> ('u, 'b, 'l) system \<Rightarrow> bool"
  for upper C where
  goroutine: "goroutine_step upper C s s' \<Longrightarrow> sys_step upper C s s'"
| connecting: "Connect_step upper s s' \<Longrightarrow> sys_step upper C s s'"
| waiting: "waitForStop C s s' \<Longrightarrow> sys_step upper C s s'"

inductive_cases goroutine_stepE: "goroutine_step upper C s s'"
inductive_cases Connect_stepE: "Connect_step upper s s'"
inductive_cases waitForStopE: "waitForStop C s s'"
inductive_cases sys_stepE: "sys_step upper C s s'"

lemmas goroutine_cases = goroutine_stepE [consumes 1, case_names read_line read_expire
  read_error read_end write_error write_end tick ping_end client]
lemmas Connect_cases = Connect_stepE [consumes 1, case_names refused configured dial_failed dialed connect]
lemmas waitForStop_cases = waitForStopE [consumes 1, case_names stopped]
lemmas sys_step_cases = sys_stepE [consumes 1, case_names goroutine connecting waiting]

text \<open>A connection on which the client has set the configuration fields.\<close>

definition new_connection :: "Config \<Rightarrow> ('u, 'b, 'l) Connection" where
  "new_connection cfg = Config.extend cfg (Config.more zero_Connection)"

end
