(* ===== verification/Event_Clients.thy ===== *)
theory Event_Clients
  imports Event_Lifecycle
begin

text \<open>
  What the calls of the client and the steps of the goroutines keep. Two interfaces, on top of those for
  handlers and lines: a predicate on connections that every call of the client keeps, and one that every step
  of every goroutine keeps. Interpreted later with the invariant of a session and with the facts that
  \<open>Loop\<close> rests on.
\<close>

subsection \<open>The tables\<close>

text \<open>An operation on the tables of callbacks and labels that adds no label.\<close>

definition table_op :: "('u, 'b, 'l) Connection \<Rightarrow> ('u, 'b, 'l) Connection \<Rightarrow> bool" where
  "table_op irc irc' \<longleftrightarrow> Protocol.truncate irc' = Protocol.truncate irc \<and> labelCallbacks irc' \<subseteq>\<^sub>m labelCallbacks irc"

lemma truncate_tables [simp]:
  "Protocol.truncate (irc\<lparr>events := x\<rparr>) = Protocol.truncate irc"
  "Protocol.truncate (irc\<lparr>callbackCounter := c\<rparr>) = Protocol.truncate irc"
  "Protocol.truncate (irc\<lparr>batchCallbacks := y\<rparr>) = Protocol.truncate irc"
  "Protocol.truncate (irc\<lparr>labelCounter := c\<rparr>) = Protocol.truncate irc"
  "Protocol.truncate (irc\<lparr>labelCallbacks := z\<rparr>) = Protocol.truncate irc"
  "Protocol.truncate (irc\<lparr>batches := w\<rparr>) = Protocol.truncate irc"
  "Protocol.truncate (irc\<lparr>hasBaseCallbacks := h\<rparr>) = Protocol.truncate irc"
  by (simp_all add: Protocol.truncate_def)

lemma table_op_refl [simp]: "table_op irc irc"
  by (simp add: table_op_def)

lemma table_op_trans: "table_op irc irc1 \<Longrightarrow> table_op irc1 irc2 \<Longrightarrow> table_op irc irc2"
  by (auto simp: table_op_def intro: map_le_trans)

lemma table_op_insert: "table_op irc (snd (insertCallback irc k c pre i))"
  by (simp add: table_op_def insertCallback_def Let_def split: prod.split)

lemma table_op_addCallback [simp]: "table_op irc (snd (addCallback upper irc k c pre i))"
  by (simp add: addCallback_def table_op_insert)

lemma table_op_remove [simp]:
  "table_op irc (removeCallbackNoMutex irc k i)" "table_op irc (removeBatchCallbackNoMutex irc i)"
  by (simp_all add: table_op_def removeCallbackNoMutex_def removeBatchCallbackNoMutex_def Let_def)

lemma table_op_AddConnect [simp]: "table_op irc (snd (AddConnectCallback upper irc f))"
  by (simp add: table_op_def AddConnectCallback_eq Let_def split: prod.split)

lemma table_op_registry: "registry_step upper irc irc' \<Longrightarrow> table_op irc irc'"
proof (induction rule: registry_step.induct)
  case (remove irc cid)
  show ?case
    using table_op_trans [OF table_op_remove(1) table_op_remove(1)] by (auto simp: RemoveCallback_def)
qed (simp_all add: table_op_def AddBatchCallback_def Let_def ClearCallback_def ReplaceCallback_def
    table_op_addCallback [unfolded table_op_def] table_op_AddConnect [unfolded table_op_def] split: option.split)

lemma table_op_add_lib [simp]: "table_op irc (add_lib upper x irc)"
  by (cases x) (simp add: add_lib_def)

lemma table_op_add_libs: "table_op irc (fold (add_lib upper) hs irc)"
  by (induction hs arbitrary: irc) (auto intro: table_op_trans [OF table_op_add_lib])

lemma table_op_setupCallbacks: "table_op irc (setupCallbacks upper irc)"
  unfolding setupCallbacks_eq
  by (auto intro!: table_op_trans [OF _ table_op_add_libs]) (simp add: table_op_def)

lemma table_op_expire: "table_op irc (snd (expireBatches force now order irc))"
  by (auto simp: table_op_def expireBatches_def Let_def map_le_def split: if_splits)

lemma table_op_unregister: "table_op irc (unregisterLabel label irc)"
  by (simp add: table_op_def unregisterLabel_def Let_def map_le_def)

subsection \<open>Predicates kept by the client's calls\<close>

definition polite :: "(nat \<Rightarrow> nat) \<Rightarrow> ('u, 'b, 'l) client_code \<Rightarrow> bool" where
  "polite upper C \<longleftrightarrow> (\<forall>irc. (\<forall>u m. (api_step upper)\<^sup>*\<^sup>* irc (snd (run_user C u m irc))) \<and>
    (\<forall>b a. (api_step upper)\<^sup>*\<^sup>* irc (snd (run_batch C b a irc))) \<and>
    (\<forall>l r. (api_step upper)\<^sup>*\<^sup>* irc (snd (run_label C l r irc))))"

text \<open>
  The states that can be reached. The client's functions may be other ones at each step: what they do may depend on
  variables of the client that change, as long as they are \<open>polite\<close>.
\<close>

inductive sys_reachable :: "(nat \<Rightarrow> nat) \<Rightarrow> Config \<Rightarrow> ('u, 'b, 'l) system \<Rightarrow> bool" for upper cfg where
  start: "sys_reachable upper cfg \<lparr>conn = new_connection cfg, pc = Stopped, sock_open = False, reader = False, writer = False,
    pinger = False, ticks = 0\<rparr>"
| step: "sys_reachable upper cfg s \<Longrightarrow> polite upper C \<Longrightarrow> sys_step upper C s s' \<Longrightarrow> sys_reachable upper cfg s'"

locale kept_by_client = kept P for P :: "('u, 'b, 'l) Connection \<Rightarrow> bool" +
  assumes tables: "P irc \<Longrightarrow> table_op irc irc' \<Longrightarrow> P irc'"
    and labeled: "P irc \<Longrightarrow> P (irc\<lparr>labelCounter := c, labelCallbacks := (labelCallbacks irc)(l \<mapsto> pl)\<rparr>)"
    and preferred: "P irc \<Longrightarrow> P (irc\<lparr>irc_Nick := n\<rparr>)"
    and quitting: "P irc \<Longrightarrow> P (irc\<lparr>quit := True, quitAt := t\<rparr>)"
    and closing: "P irc \<Longrightarrow> closeEndNoMutex irc = Some irc' \<Longrightarrow> P irc'"
begin

lemma keeps_label:
  assumes "P irc" shows "P (snd (SendWithLabel now cb tagList tord cord command params irc))"
proof -
  obtain label irc1 where l: "registerLabel now cb irc = (label, irc1)" by (rule prod.exhaust)
  have i1: "P irc1" using l labeled [OF assms] by (auto simp: registerLabel_def Let_def)
  obtain x irc2 where m: "SendIRCMessage (SetTag (MakeMessage tagList [] command params) ''label'' label) tord cord irc1
      = (x, irc2)" by (rule prod.exhaust)
  from keepsD [OF keeps_message i1] m have i2: "P irc2" by (metis snd_conv)
  from tables [OF i2 table_op_unregister] i2 assms show ?thesis
    by (simp add: SendWithLabel_def l m split: option.split)
qed

lemma keeps_api:
  assumes "api_step upper irc irc'" "P irc" shows "P irc'"
  using assms(1)
proof (cases rule: api_step.cases)
  case (message msg tord cord)
  then show ?thesis using keepsD [OF keeps_message assms(2)] by simp
next
  case (raw m)
  then show ?thesis using keepsD [OF keeps_SendRaw assms(2)] by simp
next
  case (labeled now cb tagList tord cord command params)
  then show ?thesis using keeps_label [OF assms(2)] by simp
next
  case (set_nick n)
  have "keeps (SetNick n)"
    unfolding SetNick_def by (intro keeps_then keeps_modify keeps_Send keeps_return preferred)
  with set_nick assms(2) show ?thesis using keepsD by blast
next
  case (quit now)
  have "keeps (act_then (act_modify (\<lambda>irc. irc\<lparr>quit := True, quitAt := now\<rparr>))
      (act_then (Send ''QUIT'' [m]) (act_return ())))" for m
    by (intro keeps_then keeps_modify keeps_Send keeps_return quitting)
  from keepsD [OF this assms(2)] quit show ?thesis by (simp add: Quit_def Let_def)
next
  case reconnect
  then show ?thesis using closing [OF assms(2)] by (simp add: Reconnect_def closeEnd_def)
next
  case registry
  then show ?thesis using tables [OF assms(2) table_op_registry] by blast
next
  case (label_registered now cb)
  then show ?thesis using labeled [OF assms(2)] by (simp add: registerLabel_def Let_def)
next
  case (label_withdrawn label)
  then show ?thesis using tables [OF assms(2) table_op_unregister] by simp
next
  case nick_preferred
  then show ?thesis using preferred [OF assms(2)] by simp
next
  case quit_marked
  then show ?thesis using quitting [OF assms(2)] by simp
qed

lemma keeps_apis: "(api_step upper)\<^sup>*\<^sup>* irc irc' \<Longrightarrow> P irc \<Longrightarrow> P irc'"
  by (induction rule: rtranclp_induct) (auto intro: keeps_api)

lemma keeps_polite: "polite upper C \<Longrightarrow> client_keeps P C"
  unfolding client_keeps_def polite_def using keeps_apis by blast

end

subsection \<open>Predicates kept by the goroutines\<close>

locale kept_by_goroutines = kept_by_lines P caps + kept_by_client P
  for P :: "('u, 'b, 'l) Connection \<Rightarrow> bool" and caps +
  assumes failing: "P irc \<Longrightarrow> setError err irc = Some irc' \<Longrightarrow> P irc'"
    and pinged: "P irc \<Longrightarrow> P (irc\<lparr>pingSent := True\<rparr>)"
begin

lemma keeps_expire:
  assumes "polite upper C" "P irc" shows "P (snd (expire C force now order irc))"
proof -
  obtain cbs irc1 where e: "expireBatches force now order irc = (cbs, irc1)" by (rule prod.exhaust)
  from tables [OF assms(2)] have i: "P irc1" using table_op_expire [of irc force now order] by (simp add: e)
  have "keeps (act_for cbs (\<lambda>bcb. run_label C bcb None))"
    by (rule keeps_for) (use keeps_polite [OF assms(1)] in \<open>auto simp: keeps_def client_keeps_def\<close>)
  from keepsD [OF this i] show ?thesis by (simp add: expire_def e)
qed

lemma keeps_reader_exit:
  assumes "polite upper C" "P irc" shows "P (snd (reader_exit upper C clock irc))"
  using keepsD [OF keeps_disconnect [OF keeps_polite [OF assms(1)]] assms(2)] assms(2)
  by (simp add: reader_exit_def)

lemma keeps_tick:
  assumes "P irc" shows "P (snd (processTick now tick irc))"
proof -
  have i: "P (irc\<lparr>pingSent := True\<rparr>)" by (rule pinged [OF assms])
  have s: "keeps (act_then (Send c ps) (act_return ()))" for c ps
    by (intro keeps_then keeps_Send keeps_return)
  have "keeps (\<lambda>irc. act_then (Send ''NICK'' [PreferredNick irc]) (act_return ()) irc)"
    unfolding keeps_def using keepsD [OF s] by blast
  then have k: "keeps (act_then (ping now)
      (if c then (\<lambda>irc. act_then (Send ''NICK'' [PreferredNick irc]) (act_return ()) irc) else act_return ()))" for c
    by (auto simp: ping_def intro!: keeps_then [OF s] keeps_return)
  have "P (snd (tick_error err irc))" for err
    using failing [OF assms, of err] assms by (simp add: tick_error_def split: option.split)
  with keepsD [OF k i] assms show ?thesis by (simp add: processTick_def Let_def)
qed

lemma keeps_goroutine:
  assumes "goroutine_step upper C s s'" "polite upper C" "P (conn s)"
  shows "P (conn s')"
  using assms(1)
proof (cases rule: goroutine_cases)
  case (read_line clock now msg irc)
  then show ?thesis using keeps_readLoop_line [OF keeps_polite [OF assms(2)] _ assms(3)] by auto
next
  case (read_expire order now irc)
  then show ?thesis using keeps_expire [OF assms(2,3), of False now order] by simp
next
  case (read_error err irc1 clock irc)
  from keeps_reader_exit [OF assms(2) failing [OF assms(3) read_error(3)], of clock] read_error show ?thesis by simp
next
  case (read_end clock irc)
  with keeps_reader_exit [OF assms(2,3), of clock] show ?thesis by simp
next
  case (write_error err irc)
  then show ?thesis using failing [OF assms(3)] by simp
next
  case (tick now irc)
  then show ?thesis using keeps_tick [OF assms(3), of now "ticks s + 1"] by simp
next
  case (client irc)
  then show ?thesis using keeps_api [OF _ assms(3)] by simp
qed (use assms(3) in simp_all)

end

end
