(* ===== verification/Event_Safety.thy ===== *)
theory Event_Safety
  imports Event_Clients
begin

text \<open>
  What holds of a connection in every reachable state of \<open>sys_step\<close>: the \<open>end\<close> channel is open exactly
  while the connection runs, so that nothing closes it twice; no goroutine stops while it runs; a failed
  \<open>Connect\<close> leaves nothing behind; only requested capabilities are ever acknowledged. Then how a dead
  peer is found out.
\<close>

subsection \<open>The invariant of the connection\<close>

text \<open>
  \<open>caps\<close> are the requested capabilities, \<open>b\<close> says whether the connection may still run, \<open>sk\<close> whether it
  has a socket, \<open>r\<close> whether registration is known to be over, \<open>k\<close> whether the \<open>end\<close> channel has been made.
\<close>

definition proto_inv :: "string list \<Rightarrow> bool \<Rightarrow> bool \<Rightarrow> bool \<Rightarrow> bool \<Rightarrow> 'z Protocol_scheme \<Rightarrow> bool" where
  "proto_inv caps b sk r k irc \<longleftrightarrow> RequestCaps irc = caps \<and> socket irc = sk \<and>
    (running irc \<longleftrightarrow> end_chan irc = OpenChan) \<and> (running irc \<longrightarrow> b \<and> lastError irc = None) \<and>
    (k \<longrightarrow> end_chan irc \<noteq> NilChan) \<and>
    (\<forall>q\<in>set (capsChan irc). capName q \<in> set caps) \<and> length (capsChan irc) \<le> capsChanCap irc \<and>
    dom (capsAcked irc) \<subseteq> set caps \<and>
    (registered irc \<longrightarrow> isupportPartial irc = None) \<and> (0 < welcomeChan irc \<or> r \<longrightarrow> registered irc)"

definition session_inv :: "string list \<Rightarrow> bool \<Rightarrow> bool \<Rightarrow> bool \<Rightarrow> bool \<Rightarrow> ('u, 'b, 'l) Connection \<Rightarrow> bool" where
  "session_inv caps b sk r k irc \<longleftrightarrow> proto_inv caps b sk r k irc \<and> finite (dom (labelCallbacks irc))"

lemmas session_defs = session_inv_def proto_inv_def

lemma finite_fewer: "m \<subseteq>\<^sub>m m' \<Longrightarrow> finite (dom m') \<Longrightarrow> finite (dom m)"
  by (metis finite_subset map_le_implies_dom_le)

lemma session_truncate: "proto_inv caps b sk r k (Protocol.truncate irc) = proto_inv caps b sk r k irc"
  by (simp add: proto_inv_def Protocol.truncate_def)

lemma session_eqI:
  "table_op irc irc' \<Longrightarrow> session_inv caps b sk r k irc \<Longrightarrow> session_inv caps b sk r k irc'"
  unfolding table_op_def session_inv_def by (metis finite_fewer session_truncate)

lemma session_close:
  assumes "session_inv caps b sk r k irc"
  shows "\<exists>irc'. closeEndNoMutex irc = Some irc' \<and> session_inv caps b sk r k irc' \<and> \<not> running irc'"
  using assms by (cases "end_chan irc") (auto simp: closeEndNoMutex_def close_chan_def session_defs)

lemma session_error:
  assumes "session_inv caps b sk r k irc"
  shows "\<exists>irc'. setError err irc = Some irc' \<and> session_inv caps b sk r k irc' \<and> \<not> running irc'"
proof (cases "lastError irc = None")
  case True
  have "end_chan irc = OpenChan" if "running irc" using assms that by (simp add: session_defs)
  with True assms show ?thesis
    by (cases "running irc") (auto simp: setError_def closeEndNoMutex_def close_chan_def session_defs)
qed (use assms in \<open>auto simp: setError_def session_defs\<close>)

interpretation session: kept_by_goroutines "session_inv caps b sk r k" caps
proof unfold_locales
  fix irc irc' :: "('u, 'b, 'l) Connection" and err
  assume i: "session_inv caps b sk r k irc"
  show "session_inv caps b sk r k irc'" if "table_op irc irc'" by (rule session_eqI [OF that i])
  show "session_inv caps b sk r k irc'" if "closeEndNoMutex irc = Some irc'" using session_close [OF i] that by auto
  show "session_inv caps b sk r k irc'" if "setError err irc = Some irc'" using session_error [OF i, of err] that by auto
qed (auto simp: session_defs submitCapResult_def submitSASLResult_def intro: finite_fewer)

subsection \<open>Where Connect is\<close>

fun pc_caps :: "connect_pc \<Rightarrow> string list" where
  "pc_caps (AwaitCaps t n acked) = acked"
| "pc_caps (SendAuth acked) = acked"
| "pc_caps (AwaitSASL acked) = acked"
| "pc_caps (SendEnd err acked) = acked"
| "pc_caps (ProcessCaps err acked) = acked"
| "pc_caps p = []"

definition at_rest :: "connect_pc \<Rightarrow> bool" where
  "at_rest p \<longleftrightarrow> p = Stopped \<or> p = Dialing \<or> p = Drain"

text \<open>Before the first \<open>Connect\<close> has a socket there is no \<open>end\<close> channel.\<close>

definition offline :: "connect_pc \<Rightarrow> bool" where
  "offline p \<longleftrightarrow> p = Stopped \<or> p = Dialing"

lemma offline_simps [simp]: "offline Stopped" "offline Dialing" "p \<noteq> Stopped \<Longrightarrow> p \<noteq> Dialing \<Longrightarrow> \<not> offline p"
  by (simp_all add: offline_def)

lemma at_rest_simps [simp]:
  "at_rest Stopped" "at_rest Dialing" "at_rest Drain" "\<not> at_rest SendWebIRC" "\<not> at_rest SendPass" "\<not> at_rest SendLS"
  "\<not> at_rest (AwaitCaps t n acked)" "\<not> at_rest (SendAuth acked)" "\<not> at_rest (AwaitSASL acked)"
  "\<not> at_rest (SendEnd err acked)" "\<not> at_rest (ProcessCaps err acked)" "\<not> at_rest SendNick"
  "\<not> at_rest SendUser" "\<not> at_rest AwaitWelcome" "\<not> at_rest (CloseEnd e)" "\<not> at_rest Up"
  by (simp_all add: at_rest_def)

definition conn_inv :: "bool \<Rightarrow> connect_pc \<Rightarrow> ('u, 'b, 'l) Connection \<Rightarrow> bool" where
  "conn_inv g p irc \<longleftrightarrow>
    session_inv (RequestCaps irc) (g \<and> \<not> at_rest p) (socket irc) (p = Up) (\<not> offline p) irc \<and>
    set (pc_caps p) \<subseteq> set (RequestCaps irc)"

lemma conn_invI:
  "session_inv caps (g \<and> \<not> at_rest p) sk (p = Up) (\<not> offline p) irc \<Longrightarrow> set (pc_caps p) \<subseteq> set caps \<Longrightarrow> conn_inv g p irc"
  by (auto simp: conn_inv_def session_defs)

text \<open>An operation that keeps the invariant of the connection keeps it where \<open>Connect\<close> is.\<close>

lemma conn_inv_keep:
  assumes "conn_inv g p irc"
    "\<And>caps b sk r k. session_inv caps b sk r k irc \<Longrightarrow> session_inv caps b sk r k irc'"
  shows "conn_inv g p irc' \<and> socket irc' = socket irc"
proof -
  have i: "session_inv (RequestCaps irc) (g \<and> \<not> at_rest p) (socket irc) (p = Up) (\<not> offline p) irc"
    using assms(1) by (simp add: conn_inv_def)
  from assms(2) [OF this] show ?thesis
    using assms(1) by (auto intro: conn_invI simp: conn_inv_def session_defs)
qed

text \<open>The same for one that leaves the connection stopped, when goroutines may have ended.\<close>

lemma conn_inv_stop:
  assumes "conn_inv g p irc" "\<not> running irc'"
    "\<And>caps b sk r k. session_inv caps b sk r k irc \<Longrightarrow> session_inv caps b sk r k irc'"
  shows "conn_inv g' p irc' \<and> socket irc' = socket irc"
proof -
  have "conn_inv g p irc' \<and> socket irc' = socket irc" by (rule conn_inv_keep [OF assms(1,3)])
  with assms(2) show ?thesis by (auto simp: conn_inv_def session_defs)
qed

subsection \<open>Connect\<close>

lemma conn_inv_Stopped:
  "conn_inv g Stopped irc \<longleftrightarrow> \<not> running irc \<and> end_chan irc \<noteq> OpenChan \<and>
    (\<forall>q\<in>set (capsChan irc). capName q \<in> set (RequestCaps irc)) \<and> length (capsChan irc) \<le> capsChanCap irc \<and>
    dom (capsAcked irc) \<subseteq> set (RequestCaps irc) \<and>
    (registered irc \<longrightarrow> isupportPartial irc = None) \<and> (0 < welcomeChan irc \<longrightarrow> registered irc) \<and>
    finite (dom (labelCallbacks irc))"
  unfolding conn_inv_def session_defs by (simp, blast)

lemma inv_stop: "conn_inv g Stopped irc \<Longrightarrow> conn_inv g Stopped (connect_stop irc)"
  by (simp add: conn_inv_Stopped connect_stop_def)

lemma inv_identity: "conn_inv g Stopped irc \<Longrightarrow> conn_inv g Stopped (default_identity irc)"
  by (simp add: conn_inv_Stopped default_identity_def Let_def)

lemma inv_sasl:
  assumes "conn_inv g Stopped irc" shows "conn_inv g Stopped (default_sasl irc)"
proof -
  have "conn_inv g Stopped (irc\<lparr>RequestCaps := RequestCaps irc @ [c]\<rparr>)" for c
    using assms by (auto simp: conn_inv_Stopped)
  then have "conn_inv g Stopped (irc\<lparr>ReconnectFreq := f, UseSASL := u, RequestCaps := RequestCaps irc @ [c], SASLMech := m\<rparr>)"
    for c f u m by (simp add: conn_inv_Stopped)
  moreover have "conn_inv g Stopped (irc\<lparr>ReconnectFreq := f, UseSASL := u, SASLMech := m\<rparr>)" for f u m
    using assms by (simp add: conn_inv_Stopped)
  ultimately show ?thesis by (simp add: default_sasl_def Let_def)
qed

lemma inv_limits: "conn_inv g Stopped irc \<Longrightarrow> conn_inv g Stopped (default_limits irc)"
  by (simp add: conn_inv_Stopped default_limits_def)

lemma config_inv:
  assumes "connect_config irc = (e, irc')" "conn_inv g Stopped irc"
  shows "conn_inv g' Stopped irc' \<and> \<not> running irc'"
proof -
  note i = inv_stop [OF assms(2)]
  note l = i inv_identity [OF i] inv_sasl [OF inv_identity [OF i]] inv_limits [OF inv_sasl [OF inv_identity [OF i]]]
  have "conn_inv g Stopped irc'"
    using assms l by (simp add: connect_config_def Let_def split: if_splits)
  then show ?thesis by (simp add: conn_inv_Stopped)
qed

lemma config_error: "connect_config irc = (None, irc') \<Longrightarrow> lastError irc' = None"
  by (auto simp: connect_config_def connect_stop_def default_identity_def default_sasl_def default_limits_def Let_def
      split: if_splits)

lemma setup_fields:
  "lastError (setupCallbacks upper irc) = lastError irc"
  using table_op_setupCallbacks [of irc upper] unfolding table_op_def by (metis Networking.select_convs(4) Protocol.truncate_def)

lemma reset_inv: "lastError irc = None \<Longrightarrow> conn_inv True SendWebIRC (connect_reset irc)"
  by (simp add: conn_inv_def session_defs connect_reset_def)

lemma send_then_inv:
  assumes "send_then q (Send c ps) irc = Some (p', irc')" "conn_inv g p irc"
    "\<not> at_rest p" "p \<noteq> Up" "\<not> at_rest q" "q \<noteq> Up" "set (pc_caps q) \<subseteq> set (RequestCaps irc)"
  shows "conn_inv g p' irc' \<and> socket irc' = socket irc \<and> \<not> offline p'"
proof -
  obtain r where r: "Send c ps irc = (Some r, irc')" "p' = q"
    using assms(1) by (auto simp: send_then_def split: prod.splits option.splits)
  have k: "session_inv caps b sk u k irc \<Longrightarrow> session_inv caps b sk u k irc'" for caps b sk u k
    using session.keepsD [OF session.keeps_Send, of caps b sk u k irc c ps] r(1) by simp
  from conn_inv_keep [OF assms(2) this] have *: "conn_inv g p irc'" "socket irc' = socket irc" by simp_all
  have "RequestCaps irc' = RequestCaps irc"
    using k [of "RequestCaps irc"] assms(2) by (auto simp: conn_inv_def session_defs)
  with * assms(3-7) show ?thesis by (auto simp: conn_inv_def session_defs r(2) at_rest_def)
qed

lemma conn_inv_pc:
  assumes "conn_inv g p irc" "\<not> at_rest p" "\<not> at_rest q" "q = Up \<longrightarrow> registered irc"
    "set (pc_caps q) \<subseteq> set (RequestCaps irc)"
  shows "conn_inv g q irc"
  using assms by (auto simp: conn_inv_def session_defs at_rest_def)

lemma conn_inv_caps: "conn_inv g p irc \<Longrightarrow> set (pc_caps p) \<subseteq> set (RequestCaps irc)"
  by (simp add: conn_inv_def)

lemma after_caps_rest [simp]:
  "\<not> at_rest (after_caps irc a)" "after_caps irc a \<noteq> Up" "\<not> offline (after_caps irc a)" "pc_caps (after_caps irc a) = a"
  by (simp_all add: after_caps_def)

lemma receive_caps:
  assumes "conn_inv g p irc" "capsChan irc = q # rest"
  shows "conn_inv g p (irc\<lparr>capsChan := rest\<rparr>)" "capName q \<in> set (RequestCaps irc)"
  using assms by (auto simp: conn_inv_def session_defs)

lemma process_inv:
  assumes "conn_inv g p irc" "set acked \<subseteq> set (RequestCaps irc)" shows "conn_inv g p (processAckedCaps acked irc)"
proof -
  have "processAckedCaps acked irc = irc\<lparr>capsAcked := capsAcked (processAckedCaps acked irc),
      capFlags := capFlags (processAckedCaps acked irc)\<rparr>"
    by (simp add: processAckedCaps_def Let_def)
  moreover have "dom (capsAcked (processAckedCaps acked irc)) \<subseteq> set acked \<union> dom (capsAcked irc)"
    by (auto simp: capsAcked_processAckedCaps split: if_splits)
  with assms have "dom (capsAcked (processAckedCaps acked irc)) \<subseteq> set (RequestCaps irc)"
    unfolding conn_inv_def session_defs by blast
  then have "conn_inv g p (irc\<lparr>capsAcked := capsAcked (processAckedCaps acked irc), capFlags := f\<rparr>)" for f
    using assms(1) by (simp add: conn_inv_def session_defs)
  ultimately show ?thesis by metis
qed

lemma negotiate_step_inv:
  assumes "negotiate_step ch p irc = Some (p', irc')" "conn_inv g p irc"
  shows "conn_inv g p' irc' \<and> socket irc' = socket irc \<and> \<not> offline p'"
  using assms
proof (induction ch p irc rule: negotiate_step.induct)
  case (3 t remaining acked irc)
  obtain q rest where q: "capsChan irc = q # rest" using "3.prems"(1) by (auto split: list.splits)
  note r = receive_caps [OF "3.prems"(2) q]
  have acked: "set acked \<subseteq> set (RequestCaps irc)" using "3.prems"(2) by (simp add: conn_inv_def)
  show ?case
    using "3.prems"(1) acked r(2) conn_inv_pc [OF r(1), of p']
    by (auto simp: q Let_def split: if_splits)
next
  case (7 acked irc)
  obtain q rest where q: "saslChan irc = q # rest" using "7.prems"(1) by (auto split: list.splits)
  have "conn_inv g (AwaitSASL acked) (irc\<lparr>saslChan := rest\<rparr>)"
    using "7.prems"(2) by (simp add: conn_inv_def session_defs)
  from conn_inv_pc [OF this, of p'] show ?case
    using "7.prems" by (auto simp: q conn_inv_def)
next
  case (11 err acked irc)
  have acked: "set acked \<subseteq> set (RequestCaps irc)" using "11.prems"(2) by (simp add: conn_inv_def)
  have "RequestCaps (processAckedCaps acked irc) = RequestCaps irc" "socket (processAckedCaps acked irc) = socket irc"
    by (simp_all add: processAckedCaps_def Let_def)
  with conn_inv_pc [OF process_inv [OF "11.prems"(2) acked], of p'] "11.prems"(1) show ?case
    by (auto split: option.splits)
next
  case (1 irc)
  then show ?case using send_then_inv [OF "1.prems"(1) [simplified] "1.prems"(2)] by simp
next
  case (6 acked irc)
  then show ?case using send_then_inv [OF "6.prems"(1) [simplified] "6.prems"(2)] conn_inv_caps [OF "6.prems"(2)] by simp
next
  case (10 err acked irc)
  then show ?case using send_then_inv [OF "10.prems"(1) [simplified] "10.prems"(2)] conn_inv_caps [OF "10.prems"(2)] by simp
next
  case (2 remaining acked irc)
  then show ?case using conn_inv_pc [OF "2.prems"(2), of p'] conn_inv_caps [OF "2.prems"(2)] by auto
next
  case (4 remaining acked irc)
  then show ?case using conn_inv_pc [OF "4.prems"(2), of p'] conn_inv_caps [OF "4.prems"(2)] by auto
next
  case (5 t remaining acked irc)
  then show ?case
    using conn_inv_pc [OF "5.prems"(2), of p'] conn_inv_caps [OF "5.prems"(2)] by (auto split: if_splits)
next
  case (8 acked irc)
  then show ?case using conn_inv_pc [OF "8.prems"(2), of p'] conn_inv_caps [OF "8.prems"(2)] by auto
next
  case (9 acked irc)
  then show ?case
    using conn_inv_pc [OF "9.prems"(2), of p'] conn_inv_caps [OF "9.prems"(2)] by (auto split: if_splits)
qed simp_all

lemma connect_step_inv:
  assumes "connect_step ch p irc = Some (p', irc')" "conn_inv g p irc"
  shows "conn_inv g p' irc' \<and> socket irc' = socket irc \<and> \<not> offline p'"
proof -
  have neg: ?thesis if "negotiate_step ch p irc = Some (p', irc')"
    by (rule negotiate_step_inv [OF that assms(2)])
  show ?thesis
    using assms neg
  proof (induction ch p irc rule: connect_step.induct)
    case (1 irc)
    then show ?case
      using send_then_inv [of _ _ _ irc p' irc' g SendWebIRC] conn_inv_pc [OF "1.prems"(2), of SendPass]
      by (auto split: if_splits)
  next
    case (2 irc)
    then show ?case
      using send_then_inv [of _ _ _ irc p' irc' g SendPass] conn_inv_pc [OF "2.prems"(2), of p']
      by (auto simp: Let_def split: if_splits)
  next
    case (3 irc)
    then show ?case using send_then_inv [OF "3.prems"(1) [simplified] "3.prems"(2)] by simp
  next
    case (4 irc)
    then show ?case using send_then_inv [OF "4.prems"(1) [simplified] "4.prems"(2)] by simp
  next
    case (5 irc)
    from "5.prems"(1) have u: "0 < welcomeChan irc" "p' = Up" "irc' = irc\<lparr>welcomeChan := welcomeChan irc - 1\<rparr>"
      by (auto split: if_splits)
    with "5.prems"(2) show ?case by (auto simp: conn_inv_def session_defs)
  next
    case (6 irc)
    then show ?case using conn_inv_pc [OF "6.prems"(2), of p'] by (auto split: if_splits)
  next
    case (7 irc)
    then show ?case using conn_inv_pc [OF "7.prems"(2), of p'] by auto
  next
    case (8 err irc)
    have i: "session_inv (RequestCaps irc) g (socket irc) False True irc" using "8.prems"(2) by (simp add: conn_inv_def)
    obtain irc1 where c: "closeEndNoMutex irc = Some irc1" "session_inv (RequestCaps irc) g (socket irc) False True irc1"
      "\<not> running irc1" using session_close [OF i] by blast
    then have "session_inv (RequestCaps irc1) False (socket irc1) False True irc1" "socket irc1 = socket irc"
      by (auto simp: session_defs)
    with "8.prems"(1) c(1) show ?case by (auto simp: closeEnd_def conn_inv_def)
  qed simp_all
qed

subsection \<open>Reachable states\<close>

definition all_alive :: "('u, 'b, 'l) system \<Rightarrow> bool" where
  "all_alive s \<longleftrightarrow> reader s \<and> writer s \<and> pinger s \<and> sock_open s"

definition sys_inv :: "('u, 'b, 'l) system \<Rightarrow> bool" where
  "sys_inv s \<longleftrightarrow> conn_inv (all_alive s) (pc s) (conn s) \<and> (sock_open s \<longrightarrow> socket (conn s)) \<and>
    (offline (pc s) \<longrightarrow> \<not> reader s \<and> \<not> writer s \<and> \<not> pinger s \<and> \<not> sock_open s) \<and>
    (pc s = Dialing \<longrightarrow> lastError (conn s) = None)"

lemma setError_stops:
  assumes "sys_inv s" "setError err (conn s) = Some irc"
  shows "\<not> running irc"
proof -
  have "session_inv (RequestCaps (conn s)) (all_alive s \<and> \<not> at_rest (pc s)) (socket (conn s)) (pc s = Up)
    (\<not> offline (pc s)) (conn s)" using assms(1) by (simp add: sys_inv_def conn_inv_def)
  from session_error [OF this, of err] assms(2) show ?thesis by auto
qed

lemma sys_inv_session:
  "sys_inv s \<Longrightarrow> session_inv (RequestCaps (conn s)) (all_alive s \<and> \<not> at_rest (pc s)) (socket (conn s)) (pc s = Up)
    (\<not> offline (pc s)) (conn s)"
  by (simp add: sys_inv_def conn_inv_def)

lemma closed_not_running: "sys_inv s \<Longrightarrow> end_closed (conn s) \<Longrightarrow> \<not> running (conn s)"
  by (simp add: sys_inv_def conn_inv_def session_defs end_closed_def)

lemma stays_stopped:
  assumes "\<And>caps b sk r k. session_inv caps b sk r k irc1 \<Longrightarrow> session_inv caps b sk r k irc"
    "session_inv caps b sk r k irc1" "\<not> running irc1"
  shows "\<not> running irc"
proof -
  have "session_inv caps False sk r k irc1" using assms(2,3) by (simp add: session_defs)
  from assms(1) [OF this] show ?thesis by (auto simp: session_defs)
qed

text \<open>The calls of the client record no error.\<close>

interpretation no_error: kept_by_client "\<lambda>irc. lastError irc = e"
proof unfold_locales
  fix irc irc' :: "('u, 'b, 'l) Connection"
  assume e: "lastError irc = e"
  show "lastError irc' = e" if "table_op irc irc'"
    using that e unfolding table_op_def by (metis Networking.select_convs(4) Protocol.truncate_def)
  show "lastError irc' = e" if "closeEndNoMutex irc = Some irc'"
    using that e by (auto simp: closeEndNoMutex_def split: if_splits Option.bind_splits)
qed simp_all

lemma goroutine_frame:
  assumes "goroutine_step upper C s s'"
  shows "pc s' = pc s" "sock_open s' = sock_open s" "reader s' \<Longrightarrow> reader s" "writer s' \<Longrightarrow> writer s" "pinger s' \<Longrightarrow> pinger s"
  using assms by (cases rule: goroutine_cases; simp)+

lemma goroutine_stops:
  assumes "goroutine_step upper C s s'" "sys_inv s" "polite upper C" "all_alive s" "\<not> all_alive s'"
  shows "\<not> running (conn s')"
proof -
  have keep: "\<not> running irc" if "reader_exit upper C clock irc1 = (Some (), irc)" "\<not> running irc1"
      "session_inv caps b sk r k irc1" for clock irc1 irc caps b sk r k
    using stays_stopped [OF _ that(3,2), of irc] session.keeps_reader_exit [OF assms(3), of _ _ _ _ _ irc1 clock] that(1)
    by simp
  note i = sys_inv_session [OF assms(2)]
  from assms(1) show ?thesis
  proof (cases rule: goroutine_cases)
    case (read_error err irc1 clock irc)
    have "session_inv (RequestCaps (conn s)) (all_alive s \<and> \<not> at_rest (pc s)) (socket (conn s)) (pc s = Up)
      (\<not> offline (pc s)) irc1" by (rule session.failing [OF i read_error(3)])
    with keep [OF read_error(4) setError_stops [OF assms(2) read_error(3)]] read_error(1) show ?thesis by simp
  next
    case (read_end clock irc)
    with keep [OF read_end(4) closed_not_running [OF assms(2) read_end(3)] i] show ?thesis by simp
  next
    case (write_error err irc)
    with setError_stops [OF assms(2) write_error(3)] show ?thesis by simp
  qed (use assms(4,5) closed_not_running [OF assms(2)] in \<open>simp_all add: all_alive_def\<close>)
qed

lemma goroutine_inv:
  assumes "goroutine_step upper C s s'" "sys_inv s" "polite upper C"
  shows "sys_inv s'"
proof -
  note f = goroutine_frame [OF assms(1)]
  note keep = session.keeps_goroutine [OF assms(1,3)]
  have i: "conn_inv (all_alive s) (pc s) (conn s)" using assms(2) by (simp add: sys_inv_def)
  have "conn_inv (all_alive s') (pc s) (conn s') \<and> socket (conn s') = socket (conn s)"
  proof (cases "all_alive s' = all_alive s")
    case True
    with conn_inv_keep [OF i keep] show ?thesis by simp
  next
    case False
    with f have "all_alive s" "\<not> all_alive s'" by (auto simp: all_alive_def)
    from conn_inv_stop [OF i goroutine_stops [OF assms this] keep] show ?thesis by simp
  qed
  moreover have "lastError (conn s') = None" if d: "pc s = Dialing"
  proof -
    from d assms(2) have n: "\<not> reader s" "\<not> writer s" "\<not> pinger s" "lastError (conn s) = None" by (simp_all add: sys_inv_def)
    from assms(1) show ?thesis
    proof (cases rule: goroutine_cases)
      case (client irc)
      with no_error.keeps_api [OF client(2) n(4)] show ?thesis by simp
    qed (use n in simp_all)
  qed
  ultimately show ?thesis using assms(2) f by (auto simp: sys_inv_def)
qed

lemma Connect_inv:
  assumes "Connect_step upper s s'" "sys_inv s"
  shows "sys_inv s'"
  using assms(1)
proof (cases rule: Connect_cases)
  case (refused err irc)
  then show ?thesis
    using assms(2) config_inv [OF refused(3), of "all_alive s" "all_alive s'"] by (auto simp: sys_inv_def all_alive_def)
next
  case (configured irc)
  have "conn_inv False Stopped irc"
    using assms(2) config_inv [OF configured(3), of "all_alive s" False] configured(2) by (simp add: sys_inv_def)
  then have "conn_inv False Stopped (setupCallbacks upper irc)"
    using conn_inv_keep [OF _ session_eqI [OF table_op_setupCallbacks]] by blast
  then have "conn_inv g Dialing (setupCallbacks upper irc)" for g by (simp add: conn_inv_def)
  moreover have "lastError (setupCallbacks upper irc) = None" using configured by (simp add: setup_fields config_error)
  ultimately show ?thesis using assms(2) configured(1,2) by (simp add: sys_inv_def)
next
  case dial_failed
  then show ?thesis using assms(2) by (simp add: sys_inv_def conn_inv_def all_alive_def)
next
  case dialed
  then have "lastError (conn s) = None" using assms(2) by (simp add: sys_inv_def)
  from reset_inv [OF this] show ?thesis
    using dialed(1) by (simp add: sys_inv_def all_alive_def connect_reset_def)
next
  case (connect ch p irc)
  have "conn_inv (all_alive s) p irc" "socket irc = socket (conn s)" "\<not> offline p"
    using connect_step_inv [OF connect(2)] assms(2) unfolding sys_inv_def by blast+
  moreover from this(3) have "p \<noteq> Dialing" by (auto simp: offline_def)
  ultimately show ?thesis using connect(1) assms(2) by (simp add: sys_inv_def all_alive_def)
qed

lemma waitForStop_inv:
  assumes "waitForStop C s s'" "sys_inv s" "polite upper C"
  shows "sys_inv s'"
  using assms(1)
proof (cases rule: waitForStop_cases)
  case (stopped order now irc)
  note s' = stopped(1) and w = stopped(2-6,8)
  have keep: "session_inv caps b sk r k irc" if "session_inv caps b sk r k (conn s)" for caps b sk r k
    using session.keeps_expire [OF assms(3) that, of True now order] w(6) by simp
  have i: "conn_inv (all_alive s) (pc s) (conn s)" using assms(2) by (simp add: sys_inv_def)
  have nr: "\<not> running irc"
    using stays_stopped [OF keep _ closed_not_running [OF assms(2) w(2)]] i by (auto simp: conn_inv_def)
  have "conn_inv False Stopped irc"
    using conn_inv_stop [OF i nr keep] nr by (auto simp: conn_inv_def session_defs)
  then show ?thesis
    using assms(2) s' w(3-5) by (auto simp: sys_inv_def all_alive_def)
qed

lemma sys_inv_step:
  assumes "sys_step upper C s s'" "sys_inv s" "polite upper C"
  shows "sys_inv s'"
  using assms(1)
  by (cases rule: sys_step_cases) (use assms(2,3) goroutine_inv Connect_inv waitForStop_inv in blast)+

lemma new_connection_fields:
  "running (new_connection cfg) = False" "end_chan (new_connection cfg) = NilChan" "capsChan (new_connection cfg) = []"
  "capsAcked (new_connection cfg) = Map.empty" "registered (new_connection cfg) = False"
  "welcomeChan (new_connection cfg) = 0" "labelCallbacks (new_connection cfg) = Map.empty"
  by (simp_all add: new_connection_def zero_Connection_def Config.extend_def)

lemma sys_inv_reachable: "sys_reachable upper cfg s \<Longrightarrow> sys_inv s"
proof (induction rule: sys_reachable.induct)
  case start
  have "conn_inv False Stopped (new_connection cfg)" by (simp add: conn_inv_Stopped new_connection_fields)
  then show ?case by (simp add: sys_inv_def all_alive_def)
next
  case (step s C s')
  then show ?case using sys_inv_step by blast
qed

text \<open>C5. Safety of the life cycle: whatever the network, the server and the client do, in every reachable state
  the \<open>end\<close> channel is open exactly while the connection runs, so that no operation closes it twice; while it
  runs all three goroutines are alive, the socket is open and no error is recorded; once it has stopped every
  goroutine is woken; and between connections nothing is left running or open.\<close>

theorem lifecycle_safe:
  assumes "sys_reachable upper cfg s"
  shows "(running (conn s) \<longleftrightarrow> end_chan (conn s) = OpenChan) \<and>
    closeEnd (conn s) \<noteq> None \<and> setError err (conn s) \<noteq> None \<and>
    (running (conn s) \<longrightarrow> reader s \<and> writer s \<and> pinger s \<and> sock_open s \<and> lastError (conn s) = None) \<and>
    (pc s \<notin> {Stopped, Dialing} \<and> \<not> running (conn s) \<longrightarrow> end_closed (conn s)) \<and>
    (pc s \<in> {Stopped, Dialing} \<longrightarrow> \<not> running (conn s) \<and> \<not> reader s \<and> \<not> writer s \<and> \<not> pinger s \<and> \<not> sock_open s)"
proof -
  have i: "sys_inv s" by (rule sys_inv_reachable [OF assms])
  note j = sys_inv_session [OF i]
  have "closeEnd (conn s) \<noteq> None" "setError err (conn s) \<noteq> None"
    using session_close [OF j] session_error [OF j, of err] by (auto simp: closeEnd_def)
  moreover have "end_closed (conn s)" if "pc s \<notin> {Stopped, Dialing}" "\<not> running (conn s)"
    using j that by (cases "end_chan (conn s)") (auto simp: session_defs end_closed_def)
  ultimately show ?thesis
    using i j by (auto simp: sys_inv_def session_defs all_alive_def)
qed


end
