(* ===== verification/Event_Progress.thy ===== *)
theory Event_Progress
  imports Event_Safety
begin

text \<open>
  Progress: a stopped connection can always be wound down to the state from which \<open>Connect\<close> starts again,
  a peer that has died is found out after a bounded number of ticks, and an example of a connection that
  comes up.
\<close>

subsection \<open>Winding down\<close>

definition limit_ok :: "('u, 'b, 'l) Connection \<Rightarrow> bool" where
  "limit_ok irc \<longleftrightarrow> MaxLineLen irc = 0 \<or> 5 \<le> MaxLineLen irc"

lemma Send_total:
  assumes "limit_ok irc"
  obtains r w where "Send c ps irc = (Some r, irc\<lparr>pwrite := w\<rparr>)" "running irc \<or> w = pwrite irc"
proof (rule SendIRCMessage_cases [of irc "MakeMessage [] [] c ps" "[]" "[]"])
  fix b e
  assume "running irc" "SendIRCMessage (MakeMessage [] [] c ps) [] [] irc = (Some None, irc\<lparr>pwrite := pwrite irc @ [b]\<rparr>)"
  then show thesis by (intro that) (simp_all add: Send_def SendWithTags_def)
next
  fix err
  assume "SendIRCMessage (MakeMessage [] [] c ps) [] [] irc = (Some (Some err), irc)"
  then show thesis by (intro that [of "Some err" "pwrite irc"]) (simp_all add: Send_def SendWithTags_def)
next
  assume "LineBytesStrict (MakeMessage [] [] c ps) [] [] True (MaxLineLen irc) = None"
  moreover have "LineBytesStrict (MakeMessage [] [] c ps) [] [] True (MaxLineLen irc) \<noteq> None"
  proof -
    have "line (MakeMessage [] [] c ps) [] [] MaxlenTagsFromClient 0 0 (MaxLineLen irc) \<noteq> None"
      by (rule line_total) (use assms in \<open>simp add: limit_ok_def\<close>)
    then show ?thesis by (simp add: LineBytesStrict_def)
  qed
  ultimately show thesis by contradiction
qed

lemma send_then_total:
  assumes "limit_ok irc" obtains w where "send_then q (Send c ps) irc = Some (q, irc\<lparr>pwrite := w\<rparr>)"
    "running irc \<or> w = pwrite irc"
proof (rule Send_total [OF assms, of c ps])
  fix r w
  assume "Send c ps irc = (Some r, irc\<lparr>pwrite := w\<rparr>)" "running irc \<or> w = pwrite irc"
  then show thesis by (intro that [of w]) (simp_all add: send_then_def)
qed

definition stopping :: "('u, 'b, 'l) Connection \<Rightarrow> bool" where
  "stopping irc \<longleftrightarrow> \<not> running irc \<and> end_closed irc \<and> \<not> AllowPanic irc \<and> limit_ok irc"

lemma send_stopping: "stopping irc \<Longrightarrow> send_then q (Send c ps) irc = Some (q, irc)"
  using send_then_total [of irc q c ps] by (auto simp: stopping_def)

fun rank :: "connect_pc \<Rightarrow> nat" where
  "rank SendWebIRC = 12"
| "rank SendPass = 11"
| "rank SendLS = 10"
| "rank (AwaitCaps t n acked) = 9"
| "rank (SendAuth acked) = 8"
| "rank (AwaitSASL acked) = 7"
| "rank (SendEnd err acked) = 6"
| "rank (ProcessCaps err acked) = 5"
| "rank SendNick = 4"
| "rank SendUser = 3"
| "rank AwaitWelcome = 2"
| "rank (CloseEnd err) = 1"
| "rank p = 0"

lemma stopping_step:
  assumes "stopping irc" "\<not> offline p" "p \<notin> {Drain, Up}"
  shows "\<exists>ch q irc'. connect_step ch p irc = Some (q, irc') \<and> stopping irc' \<and> rank q < rank p \<and> \<not> offline q"
proof -
  note s = send_stopping [OF assms(1)]
  have e: "end_closed irc" "closeEnd irc = Some irc"
    using assms(1) by (simp_all add: stopping_def closeEnd_def closeEndNoMutex_def)
  have p: "stopping (processAckedCaps acked irc)" for acked
    using assms(1) by (simp add: stopping_def limit_ok_def end_closed_def processAckedCaps_def Let_def)
  show ?thesis
  proof (cases p)
    case SendWebIRC
    then show ?thesis using assms(1) s by (intro exI [of _ Go]) auto
  next
    case SendPass
    then show ?thesis using assms(1) s by (intro exI [of _ Go]) (auto simp: Let_def)
  next
    case (AwaitCaps t n acked)
    then show ?thesis using assms(1) e by (intro exI [of _ EndClosed]) (cases t; auto)
  next
    case (AwaitSASL acked)
    then show ?thesis using assms(1) e by (intro exI [of _ EndClosed]) auto
  next
    case (ProcessCaps err acked)
    then show ?thesis using p by (intro exI [of _ Go]) (auto split: option.split)
  next
    case AwaitWelcome
    then show ?thesis using assms(1) e by (intro exI [of _ EndClosed]) auto
  next
    case (CloseEnd err)
    then show ?thesis using assms(1) e by (intro exI [of _ Go]) auto
  qed (use assms s in \<open>auto intro!: exI [of _ Go]\<close>)
qed

text \<open>The steps of \<open>Connect\<close> once it has a socket.\<close>

definition Connect_online :: "(nat \<Rightarrow> nat) \<Rightarrow> ('u, 'b, 'l) system \<Rightarrow> ('u, 'b, 'l) system \<Rightarrow> bool" where
  "Connect_online upper s s' \<longleftrightarrow> \<not> offline (pc s) \<and> Connect_step upper s s'"

lemma stopping_connect:
  assumes "stopping (conn s)" "\<not> offline (pc s)"
  shows "\<exists>s'. (Connect_online upper)\<^sup>*\<^sup>* s s' \<and> pc s' \<in> {Up, Drain} \<and> stopping (conn s')"
  using assms
proof (induction "rank (pc s)" arbitrary: s rule: less_induct)
  case less
  show ?case
  proof (cases "pc s \<in> {Up, Drain}")
    case True
    with less.prems show ?thesis by blast
  next
    case False
    then obtain ch q irc where step: "connect_step ch (pc s) (conn s) = Some (q, irc)" "stopping irc"
      "rank q < rank (pc s)" "\<not> offline q"
      using stopping_step [OF less.prems(1), of "pc s"] less.prems(2) by auto
    have "Connect_online upper s (s\<lparr>pc := q, conn := irc\<rparr>)"
      using Connect_step.connect [OF step(1)] less.prems(2) by (simp add: Connect_online_def)
    with less.hyps [of "s\<lparr>pc := q, conn := irc\<rparr>"] step show ?thesis
      by (auto intro: converse_rtranclp_into_rtranclp)
  qed
qed

lemma reader_exit_recovers: "\<not> AllowPanic irc \<Longrightarrow> \<exists>irc'. reader_exit upper C clock irc = (Some (), irc')"
  by (simp add: reader_exit_def runDisconnectCallbacks_def recover_def)

lemma expire_calm:
  assumes "\<And>l irc. fst (run_label C l None irc) = Some ()"
  shows "\<exists>irc'. expire C force now order irc = (Some (), irc')"
proof -
  have "\<exists>irc'. act_for cbs (\<lambda>bcb. run_label C bcb None) irc = (Some (), irc')" for cbs irc
  proof (induction cbs arbitrary: irc)
    case (Cons cb cbs)
    obtain irc1 where "run_label C cb None irc = (Some (), irc1)" using assms [of cb irc] by (metis prod.collapse)
    with Cons.IH [of irc1] show ?case by (simp add: act_simps)
  qed (simp add: act_return_def)
  then show ?thesis by (simp add: expire_def split: prod.split)
qed

text \<open>The goroutines leave one after the other.\<close>

lemma writer_leaves:
  assumes "end_closed (conn s)" shows "(goroutine_step upper C)\<^sup>*\<^sup>* s (s\<lparr>writer := False\<rparr>)"
proof (cases "writer s")
  case True
  from goroutine_step.write_end [OF this assms] show ?thesis by (rule r_into_rtranclp)
next
  case False
  then have "s\<lparr>writer := False\<rparr> = s" by simp
  then show ?thesis by simp
qed

lemma pinger_leaves:
  assumes "end_closed (conn s)" shows "(goroutine_step upper C)\<^sup>*\<^sup>* s (s\<lparr>pinger := False\<rparr>)"
proof (cases "pinger s")
  case True
  from goroutine_step.ping_end [OF this assms] show ?thesis by (rule r_into_rtranclp)
next
  case False
  then have "s\<lparr>pinger := False\<rparr> = s" by simp
  then show ?thesis by simp
qed

lemma goroutines_leave:
  assumes "end_closed (conn s)" "\<not> AllowPanic (conn s)"
  obtains irc where "(goroutine_step upper C)\<^sup>*\<^sup>* s (s\<lparr>conn := irc, reader := False, writer := False, pinger := False\<rparr>)"
    "irc = conn s \<or> irc = snd (reader_exit upper C [] (conn s))"
proof -
  let ?t = "s\<lparr>writer := False, pinger := False\<rparr>"
  have t: "(goroutine_step upper C)\<^sup>*\<^sup>* s ?t"
    using writer_leaves [of s upper C] pinger_leaves [of "s\<lparr>writer := False\<rparr>" upper C] assms(1) by auto
  show thesis
  proof (cases "reader s")
    case True
    obtain irc where r: "reader_exit upper C [] (conn s) = (Some (), irc)"
      using reader_exit_recovers [OF assms(2)] by blast
    have "goroutine_step upper C ?t (?t\<lparr>conn := irc, reader := False\<rparr>)"
      using goroutine_step.read_end [of ?t upper C "[]" irc] True assms(1) r by simp
    with t have "(goroutine_step upper C)\<^sup>*\<^sup>* s (?t\<lparr>conn := irc, reader := False\<rparr>)"
      by (rule rtranclp.rtrancl_into_rtrancl)
    moreover have "?t\<lparr>conn := irc, reader := False\<rparr> = s\<lparr>conn := irc, reader := False, writer := False, pinger := False\<rparr>"
      by simp
    ultimately show thesis using that [of irc] r by simp
  next
    case False
    then have "?t = s\<lparr>conn := conn s, reader := False, writer := False, pinger := False\<rparr>" by simp
    with t show thesis using that [of "conn s"] by simp
  qed
qed

text \<open>Once they have left, \<open>waitForStop\<close> returns.\<close>

lemma waitForStop_returns:
  assumes "sys_inv s" "pc s \<in> {Stopped, Up, Drain}" "end_closed (conn s)" "\<not> reader s" "\<not> writer s" "\<not> pinger s"
    "\<forall>l irc. fst (run_label C l None irc) = Some ()"
  obtains s' order where "waitForStop C s s'" "pc s' = Stopped" "conn s' = snd (expire C True 0 order (conn s))"
proof -
  have "finite (dom (labelCallbacks (conn s)))"
    using sys_inv_session [OF assms(1)] by (simp add: session_inv_def)
  then obtain order where o: "label_order order (conn s)"
    by (metis finite_distinct_list label_order_def)
  obtain irc where e: "expire C True 0 order (conn s) = (Some (), irc)"
    using expire_calm [of C True 0 order "conn s"] assms(7) by blast
  from that [OF waitForStop.stopped [OF assms(2-6) o e], of order] e show thesis by simp
qed

lemma sys_inv_steps:
  assumes "(sys_step upper C)\<^sup>*\<^sup>* s t" "sys_inv s" "polite upper C" shows "sys_inv t"
  using assms(1) by (induction rule: rtranclp_induct) (use assms(2,3) sys_inv_step in blast)+

lemma goroutine_sys_steps: "(goroutine_step upper C)\<^sup>*\<^sup>* s t \<Longrightarrow> (sys_step upper C)\<^sup>*\<^sup>* s t"
  by (erule rtranclp_mono [THEN predicate2D, rotated]) (auto intro: sys_step.goroutine)

lemma Connect_sys_steps: "(Connect_online upper)\<^sup>*\<^sup>* s t \<Longrightarrow> (sys_step upper C)\<^sup>*\<^sup>* s t"
  by (erule rtranclp_mono [THEN predicate2D, rotated]) (auto simp: Connect_online_def intro: sys_step.connecting)

lemma stays_closed:
  assumes "sys_inv s" "\<not> running (conn s)" "\<not> offline (pc s)" shows "end_closed (conn s)"
  using sys_inv_session [OF assms(1)] assms(2,3)
  by (cases "end_chan (conn s)") (auto simp: session_defs end_closed_def)

text \<open>All of them: \<open>Connect\<close> runs to its end, the goroutines leave, the wait is over.\<close>

lemma wind_down:
  assumes "sys_inv s" "polite upper C" "\<forall>l irc. fst (run_label C l None irc) = Some ()"
    "stopping (conn s)" "\<not> offline (pc s)"
  obtains t u v where "(Connect_online upper)\<^sup>*\<^sup>* s t" "pc t \<in> {Up, Drain}" "stopping (conn t)" "(goroutine_step upper C)\<^sup>*\<^sup>* t u"
    "pc u = pc t" "waitForStop C u v" "pc v = Stopped" "sys_inv v"
proof -
  from stopping_connect [OF assms(4,5)] obtain t where
    t: "(Connect_online upper)\<^sup>*\<^sup>* s t" "pc t \<in> {Up, Drain}" "stopping (conn t)" by blast
  have it: "sys_inv t" by (rule sys_inv_steps [OF Connect_sys_steps [OF t(1)] assms(1,2)])
  from t(3) have c: "end_closed (conn t)" "\<not> AllowPanic (conn t)" by (simp_all add: stopping_def)
  from goroutines_leave [OF this, of upper C] obtain irc where
    u: "(goroutine_step upper C)\<^sup>*\<^sup>* t (t\<lparr>conn := irc, reader := False, writer := False, pinger := False\<rparr>)"
    by metis
  let ?u = "t\<lparr>conn := irc, reader := False, writer := False, pinger := False\<rparr>"
  have iu: "sys_inv ?u" by (rule sys_inv_steps [OF goroutine_sys_steps [OF u] it assms(2)])
  have "\<not> running (conn ?u)" using sys_inv_session [OF iu] by (auto simp: session_defs all_alive_def)
  with stays_closed [OF iu] t(2) have "end_closed (conn ?u)" by auto
  with t(2) obtain v where v: "waitForStop C ?u v" "pc v = Stopped"
    using waitForStop_returns [OF iu _ _ _ _ _ assms(3)] by auto
  show thesis by (rule that [OF t u _ v waitForStop_inv [OF v(1) iu assms(2)]]) simp
qed


subsection \<open>A dead peer\<close>

text \<open>
  What may happen between two ticks while no PONG arrives: anything that leaves the times of the configuration
  alone, and does not clear the mark of an unanswered PING. \<open>end_ok\<close> holds in every reachable state.
\<close>

definition silent :: "('u, 'b, 'l) Connection \<Rightarrow> ('u, 'b, 'l) Connection \<Rightarrow> bool" where
  "silent irc irc' \<longleftrightarrow> KeepAlive irc' = KeepAlive irc \<and> Timeout irc' = Timeout irc \<and> (pingSent irc \<longrightarrow> pingSent irc')"

definition end_ok :: "('u, 'b, 'l) Connection \<Rightarrow> bool" where
  "end_ok irc \<longleftrightarrow> (running irc \<longleftrightarrow> end_chan irc = OpenChan) \<and> (running irc \<longrightarrow> lastError irc = None)"

lemma Send_frame:
  "pingSent (snd (Send c ps irc)) = pingSent irc" "KeepAlive (snd (Send c ps irc)) = KeepAlive irc"
  "Timeout (snd (Send c ps irc)) = Timeout irc" "running (snd (Send c ps irc)) = running irc"
  unfolding Send_def SendWithTags_def
  by (rule SendIRCMessage_cases [of irc "MakeMessage [] [] c ps" "[]" "[]"]; simp)+

lemma then_frame:
  assumes "\<And>irc. f (snd (m irc)) = f irc" "\<And>irc. f (snd (n irc)) = f irc"
  shows "f (snd (act_then m n irc)) = f irc"
  using assms(1) [of irc] assms(2) [of "snd (m irc)"]
  by (auto simp: act_then_def act_bind_def split: prod.split option.split)

lemma tick_sends_frame:
  assumes "\<And>c ps irc. f (snd (Send c ps irc)) = f irc"
  shows "f (snd (act_then (ping now)
    (if b then (\<lambda>irc. act_then (Send ''NICK'' [PreferredNick irc]) (act_return ()) irc) else act_return ()) irc)) = f irc"
proof -
  have s: "f (snd (act_then (Send c ps) (act_return ()) irc)) = f irc" for c ps irc
    by (rule then_frame) (simp_all add: assms act_return_def)
  have r: "f (snd (act_return () irc)) = f irc" for irc by (simp add: act_return_def)
  show ?thesis unfolding ping_def by (rule then_frame; cases b) (simp_all only: s r if_True if_False)
qed

lemma tick_error_frame:
  assumes "end_ok irc"
  shows "\<not> running (snd (tick_error err irc))" "KeepAlive (snd (tick_error err irc)) = KeepAlive irc"
    "Timeout (snd (tick_error err irc)) = Timeout irc"
  using assms by (cases "running irc"; auto simp: tick_error_def setError_def closeEndNoMutex_def close_chan_def end_ok_def)+

lemma processTick_times:
  assumes "end_ok irc"
  shows "KeepAlive (snd (processTick now tick irc)) = KeepAlive irc" "Timeout (snd (processTick now tick irc)) = Timeout irc"
  by (simp_all add: processTick_def Let_def tick_error_frame [OF assms] tick_sends_frame [of KeepAlive, OF Send_frame(2)]
      tick_sends_frame [of Timeout, OF Send_frame(3)])

lemma processTick_unanswered:
  assumes "end_ok irc" "pingSent irc" shows "\<not> running (snd (processTick now tick irc))"
  using tick_error_frame(1) [OF assms(1)] assms(2) by (simp add: processTick_def)

lemma processTick_pings:
  assumes "end_ok irc" "0 < Timeout irc" "Timeout irc \<le> KeepAlive irc" "(KeepAlive irc sdiv Timeout irc) dvd tick"
  shows "\<not> running (snd (processTick now tick irc)) \<or> pingSent (snd (processTick now tick irc))"
proof -
  have "KeepAlive irc sdiv Timeout irc = KeepAlive irc div Timeout irc"
    using assms(2,3) by (simp add: signed_divide_int_def)
  moreover have "0 < KeepAlive irc div Timeout irc"
    using assms(2,3) by (simp add: pos_imp_zdiv_pos_iff)
  moreover have "tick smod (KeepAlive irc sdiv Timeout irc) = 0"
    using assms(4) by (auto simp: signed_modulo_int_def signed_divide_int_def elim!: dvdE)
  ultimately show ?thesis
    using tick_error_frame(1) [OF assms(1)] assms(2)
    by (simp add: processTick_def Let_def tick_sends_frame [of pingSent, OF Send_frame(1)])
qed

lemma next_multiple:
  fixes m t :: int assumes "0 < m" shows "\<exists>k. 1 \<le> k \<and> k \<le> nat m \<and> m dvd (t + int k)"
proof -
  have "t + (m - t mod m) = m * (t div m + 1)" using mult_div_mod_eq [of m t] by (simp add: algebra_simps)
  then have "m dvd t + (m - t mod m)" by simp
  moreover have "0 \<le> t mod m" "t mod m < m" using assms by simp_all
  ultimately show ?thesis by (intro exI [of _ "nat (m - t mod m)"]) auto
qed

text \<open>C18. A peer that no longer answers is found out: if no PONG arrives, whatever else happens in between, the
  connection is stopped within one more tick than there are ticks in a keep-alive period.\<close>

theorem dead_peer_detected:
  assumes "0 < Timeout (tr 0)" "Timeout (tr 0) \<le> KeepAlive (tr 0)"
    "\<And>i. silent (tr i) (between i) \<and> end_ok (between i) \<and> tr (Suc i) = snd (processTick (now i) (t + int i + 1) (between i))"
  shows "\<exists>i. 1 \<le> i \<and> i \<le> nat (KeepAlive (tr 0) sdiv Timeout (tr 0)) + 1 \<and> \<not> running (tr i)"
proof -
  let ?m = "KeepAlive (tr 0) sdiv Timeout (tr 0)"
  have times: "KeepAlive (tr i) = KeepAlive (tr 0) \<and> Timeout (tr i) = Timeout (tr 0)" for i
  proof (induction i)
    case (Suc i)
    then show ?case using assms(3) [of i] processTick_times [of "between i"] by (auto simp: silent_def)
  qed simp
  have mid: "KeepAlive (between i) = KeepAlive (tr 0) \<and> Timeout (between i) = Timeout (tr 0)" for i
    using assms(3) [of i] times [of i] by (simp add: silent_def)
  have "0 < ?m" using assms(1,2) by (simp add: signed_divide_int_def pos_imp_zdiv_pos_iff)
  from next_multiple [OF this, of t] obtain k where k: "1 \<le> k" "k \<le> nat ?m" "?m dvd (t + int k)" by blast
  then obtain j where j: "k = Suc j" by (cases k) auto
  show ?thesis
  proof (cases "running (tr k)")
    case False
    with k show ?thesis by (intro exI [of _ k]) auto
  next
    case True
    have "?m dvd (t + int j + 1)" using k(3) j by (simp add: algebra_simps)
    then have "\<not> running (tr k) \<or> pingSent (tr k)"
      using processTick_pings [of "between j" "t + int j + 1" "now j"] assms(1,2) assms(3) [of j] mid [of j] j by simp
    with True assms(3) [of k] have "pingSent (between k)" "end_ok (between k)" by (simp_all add: silent_def)
    from processTick_unanswered [OF this(2,1)] assms(3) [of k] have "\<not> running (tr (Suc k))" by simp
    with k show ?thesis by (intro exI [of _ "Suc k"]) auto
  qed
qed

lemma processTick_end_ok:
  assumes "end_ok irc" shows "end_ok (snd (processTick now tick irc))"
proof -
  have err: "end_ok (snd (tick_error e irc))" for e
    using assms by (cases "running irc"; auto simp: tick_error_def setError_def closeEndNoMutex_def close_chan_def end_ok_def)
  have f: "end_chan (snd (Send c ps irc)) = end_chan irc" "lastError (snd (Send c ps irc)) = lastError irc"
    for c ps and irc :: "('a, 'b, 'c) Connection"
    unfolding Send_def SendWithTags_def
    by (rule SendIRCMessage_cases [of irc "MakeMessage [] [] c ps" "[]" "[]"]; simp)+
  have "end_ok (snd (act_then (ping now)
      (if b then (\<lambda>irc. act_then (Send ''NICK'' [PreferredNick irc]) (act_return ()) irc) else act_return ())
      (irc\<lparr>pingSent := True\<rparr>)))" for b
    using assms
    by (simp only: end_ok_def tick_sends_frame [of running, OF Send_frame(4)] tick_sends_frame [of end_chan, OF f(1)]
        tick_sends_frame [of lastError, OF f(2)]) simp
  with err assms show ?thesis by (simp add: processTick_def Let_def)
qed

primrec example_ticks :: "nat \<Rightarrow> (bool, bool, bool) Connection" where
  "example_ticks 0 = zero_Connection\<lparr>running := True, end_chan := OpenChan, lastError := None, KeepAlive := 7, Timeout := 2\<rparr>"
| "example_ticks (Suc i) = snd (processTick 0 (0 + int i + 1) (example_ticks i))"

lemma dead_peer_detected_witness: "\<exists>i. 1 \<le> i \<and> i \<le> 4 \<and> \<not> running (example_ticks i)"
proof -
  have "end_ok (example_ticks i)" for i
  proof (induction i)
    case 0
    show ?case by (simp add: end_ok_def)
  qed (simp add: processTick_end_ok)
  then have "silent (example_ticks i) (example_ticks i) \<and> end_ok (example_ticks i) \<and>
      example_ticks (Suc i) = snd (processTick 0 (0 + int i + 1) (example_ticks i))" for i
    by (simp add: silent_def)
  from dead_peer_detected [of example_ticks example_ticks "\<lambda>_. 0" 0, OF _ _ this] show ?thesis
    by (simp add: signed_divide_int_def)
qed

subsection \<open>A connection that comes up\<close>

definition quiet :: "(bool, bool, bool) client_code" where
  "quiet = \<lparr>run_user = \<lambda>u m. act_return (), run_batch = \<lambda>b a. act_return False, run_label = \<lambda>l a. act_return ()\<rparr>"

lemma polite_quiet: "polite upper quiet"
  by (simp add: polite_def quiet_def act_return_def)

definition example_config :: Config where
  "example_config = \<lparr>Server = ''irc.example.org:6697'', irc_Nick = ''me'', irc_User = [], RealName = [], WebIRC = [], Password = [],
    RequestCaps = [], SASLLogin = [], SASLPassword = [], SASLMech = [], SASLOptional = False,
    QuitMessage = [], Version = [], Timeout = 0, KeepAlive = 0, ReconnectFreq = 0, MaxLineLen = 0,
    UseSASL = False, EnableCTCP = False, AllowPanic = False, AllowTruncation = False\<rparr>"

text \<open>The configuration in effect, up to \<open>connect_config\<close> and \<open>setupCallbacks\<close>.\<close>

definition simple :: "('u, 'b, 'l) Connection \<Rightarrow> bool" where
  "simple irc \<longleftrightarrow> WebIRC irc = [] \<and> Password irc = [] \<and> RequestCaps irc = [] \<and> MaxLineLen irc = 512 \<and>
    \<not> AllowPanic irc \<and> \<not> EnableCTCP irc \<and> \<not> quit irc \<and> \<not> UseSASL irc \<and> SASLLogin irc = [] \<and> SASLMech irc = ''PLAIN'' \<and>
    Server irc \<noteq> [] \<and> Timeout irc = time_Minute \<and> KeepAlive irc = 4 * time_Minute"

lemma simple_configured: "simple irc \<Longrightarrow> \<exists>irc'. connect_config irc = (None, irc') \<and> simple irc'"
  by (simp add: connect_config_def connect_stop_def default_identity_def default_sasl_def default_limits_def orElse_def
      time_Minute_def simple_def Let_def)

text \<open>Nothing but the client changes it.\<close>

interpretation simple: kept_by_lines simple "[]"
  by unfold_locales (simp_all add: simple_def submitCapResult_def submitSASLResult_def)

lemma quiet_keeps: "client_keeps simple quiet"
  by (simp add: client_keeps_def quiet_def act_return_def)

lemma example_configured:
  "\<exists>irc. connect_config (new_connection example_config :: (bool, bool, bool) Connection) = (None, irc) \<and> simple irc \<and>
    \<not> hasBaseCallbacks irc \<and> event_list irc k = []"
  by (simp add: connect_config_def connect_stop_def default_identity_def default_sasl_def default_limits_def orElse_def
      time_Minute_def simple_def new_connection_def Config.extend_def zero_Connection_def example_config_def Let_def
      event_list_def)

lemma simple_table_op: "table_op irc irc' \<Longrightarrow> simple irc \<Longrightarrow> simple irc'"
  unfolding table_op_def simple_def Protocol.truncate_def by simp

lemma simple_reset: "simple irc \<Longrightarrow> simple (connect_reset irc)"
  by (simp add: simple_def connect_reset_def)

lemma event_list_reset: "event_list (connect_reset irc) k = event_list irc k"
  by (simp add: event_list_def connect_reset_def)

lemma realname_pwrite: "realname (irc\<lparr>pwrite := w\<rparr>) = realname irc"
  by (simp add: realname_def)

text \<open>A first connection.\<close>

definition coming_up :: "(nat \<Rightarrow> nat) \<Rightarrow> ('u, 'b, 'l) client_code \<Rightarrow> ('u, 'b, 'l) system \<Rightarrow> ('u, 'b, 'l) system \<Rightarrow> bool" where
  "coming_up upper C s s' \<longleftrightarrow> goroutine_step upper C s s' \<or> Connect_step upper s s'"

definition example_start :: "(bool, bool, bool) system" where
  "example_start = \<lparr>conn = new_connection example_config, pc = Stopped, sock_open = False, reader = False, writer = False,
    pinger = False, ticks = 0\<rparr>"

lemma connect_sends:
  assumes "simple irc" "running irc" "pc s = SendWebIRC" "conn s = irc"
  shows "\<exists>w. (coming_up upper C)\<^sup>*\<^sup>* s (s\<lparr>pc := AwaitWelcome, conn := irc\<lparr>pwrite := w\<rparr>\<rparr>)"
proof -
  have l: "limit_ok (irc\<lparr>pwrite := w\<rparr>)" for w using assms(1) by (simp add: limit_ok_def simple_def)
  have c: "coming_up upper C s1 (s1\<lparr>pc := p, conn := irc1\<rparr>)" if "connect_step Go (pc s1) (conn s1) = Some (p, irc1)" for s1 p irc1
    using Connect_step.connect [OF that] by (simp add: coming_up_def)
  let ?R = "(coming_up upper C)\<^sup>*\<^sup>*"
  have "coming_up upper C s (s\<lparr>pc := SendPass, conn := irc\<rparr>)"
    using c [of s SendPass irc] assms by (simp add: simple_def)
  then have "?R s (s\<lparr>pc := SendPass, conn := irc\<rparr>)" by (rule r_into_rtranclp)
  moreover have "coming_up upper C (s\<lparr>pc := SendPass, conn := irc\<rparr>) (s\<lparr>pc := SendNick, conn := irc\<rparr>)"
    using c [of "s\<lparr>pc := SendPass, conn := irc\<rparr>" SendNick irc] assms(1) by (simp add: simple_def)
  ultimately have r: "?R s (s\<lparr>pc := SendNick, conn := irc\<rparr>)" by (rule rtranclp.rtrancl_into_rtrancl)
  obtain w1 where w1: "send_then SendUser (Send ''NICK'' [PreferredNick irc]) irc = Some (SendUser, irc\<lparr>pwrite := w1\<rparr>)"
    by (rule send_then_total [of irc]) (use l [of "pwrite irc"] in simp)
  obtain w2 where w2: "send_then AwaitWelcome (Send ''USER'' [irc_User irc, ''s'', ''e'', realname irc]) (irc\<lparr>pwrite := w1\<rparr>) =
      Some (AwaitWelcome, irc\<lparr>pwrite := w2\<rparr>)"
    by (rule send_then_total [OF l [of w1]]) simp
  have "coming_up upper C (s\<lparr>pc := SendNick, conn := irc\<rparr>) (s\<lparr>pc := SendUser, conn := irc\<lparr>pwrite := w1\<rparr>\<rparr>)"
    using c [of "s\<lparr>pc := SendNick, conn := irc\<rparr>"] w1 by simp
  with r have "?R s (s\<lparr>pc := SendUser, conn := irc\<lparr>pwrite := w1\<rparr>\<rparr>)" by (rule rtranclp.rtrancl_into_rtrancl)
  moreover have "coming_up upper C (s\<lparr>pc := SendUser, conn := irc\<lparr>pwrite := w1\<rparr>\<rparr>) (s\<lparr>pc := AwaitWelcome, conn := irc\<lparr>pwrite := w2\<rparr>\<rparr>)"
    using c [of "s\<lparr>pc := SendUser, conn := irc\<lparr>pwrite := w1\<rparr>\<rparr>"] w2 by (simp add: realname_pwrite)
  ultimately have "?R s (s\<lparr>pc := AwaitWelcome, conn := irc\<lparr>pwrite := w2\<rparr>\<rparr>)" by (rule rtranclp.rtrancl_into_rtrancl)
  then show ?thesis by blast
qed

lemma welcomed:
  assumes "simple irc" "map pair_callback (event_list irc ''376'') = [Lib HandleRegistration]"
  shows "readLoop_line (\<lambda>c. c) C [] 0 ''376'' irc = Some (Some (), handleRegistration (plain_message ''376'' []) irc)"
proof -
  have p: "ParseLine ''376'' = Some (plain_message ''376'' [], None)" by (simp add: parse_eval)
  have u: "unbatched (plain_message ''376'' [])" by (simp add: unbatched_def GetTag_def zero_Message_def)
  have e: "eventRewriteCTCP (plain_message ''376'' []) = plain_message ''376'' []" by (simp add: eventRewriteCTCP_def)
  obtain q where q: "event_list irc ''376'' = [q]" "pair_callback q = Lib HandleRegistration"
    using assms(2) by (cases "event_list irc ''376''") auto
  have "getCallbacks (\<lambda>c. c) irc ''376'' = [q]"
    by (simp add: getCallbacks_def q ToUpper_ascii ToUpperASCII_def upper_byte_def)
  then have "HandleMessage (\<lambda>c. c) C [] (plain_message ''376'' []) irc =
      (Some (), handleRegistration (plain_message ''376'' []) irc)"
    by (simp add: HandleMessage_def e q run_callback_def act_simps)
  then show ?thesis
    using readLoop_message [OF p u, of "\<lambda>c. c" C "[]" 0 irc] by (simp add: recover_def)
qed

lemma example_path:
  "\<exists>s. (coming_up (\<lambda>c. c) quiet)\<^sup>*\<^sup>* example_start s \<and> pc s = Up \<and> running (conn s) \<and> simple (conn s)"
proof -
  let ?R = "(coming_up (\<lambda>c. c) quiet)\<^sup>*\<^sup>*"
  let ?s0 = "\<lparr>conn = new_connection example_config, pc = Stopped, sock_open = False, reader = False, writer = False,
    pinger = False, ticks = 0\<rparr> :: (bool, bool, bool) system"
  obtain irc where irc: "connect_config (new_connection example_config :: (bool, bool, bool) Connection) = (None, irc)"
    "simple irc" "\<not> hasBaseCallbacks irc" "event_list irc ''376'' = []"
    using example_configured [of "''376''"] by blast
  define irc1 where "irc1 = connect_reset (setupCallbacks (\<lambda>c. c) irc)"
  have s1: "simple irc1"
    unfolding irc1_def by (rule simple_reset [OF simple_table_op [OF table_op_setupCallbacks irc(2)]])
  have cbs: "map pair_callback (event_list irc1 ''376'') = [Lib HandleRegistration]"
    using irc(2-4) by (simp add: irc1_def event_list_reset setupCallbacks_lists simple_def own_before_def own_after_def
        setup_list_def base_callbacks_def final_callbacks_def RPL_ENDOFMOTD_def ERR_NOMOTD_def)
  have up: "running irc1" "\<not> registered irc1" "welcomeChan irc1 = 0"
    by (simp_all add: irc1_def connect_reset_def)
  let ?s1 = "?s0\<lparr>conn := irc1, pc := SendWebIRC, sock_open := True, reader := True, writer := True, pinger := True, ticks := 0\<rparr>"
  let ?d = "?s0\<lparr>conn := setupCallbacks (\<lambda>c. c) irc, pc := Dialing\<rparr>"
  have "coming_up (\<lambda>c. c) quiet ?s0 ?d"
    using Connect_step.configured [of ?s0 irc "\<lambda>c. c"] irc(1) by (simp add: coming_up_def)
  moreover have "coming_up (\<lambda>c. c) quiet ?d ?s1"
    using Connect_step.dialed [of ?d "\<lambda>c. c"] by (simp add: irc1_def coming_up_def)
  ultimately have "?R ?s0 ?s1" by (meson converse_rtranclp_into_rtranclp r_into_rtranclp)
  moreover obtain w where "?R ?s1 (?s1\<lparr>pc := AwaitWelcome, conn := irc1\<lparr>pwrite := w\<rparr>\<rparr>)"
    using connect_sends [OF s1 up(1), of ?s1] by auto
  ultimately have r2: "?R ?s0 (?s1\<lparr>pc := AwaitWelcome, conn := irc1\<lparr>pwrite := w\<rparr>\<rparr>)"
    by (rule rtranclp_trans)
  define irc2 where "irc2 = irc1\<lparr>pwrite := w\<rparr>"
  define s2 where "s2 = ?s1\<lparr>pc := AwaitWelcome, conn := irc2\<rparr>"
  define irc3 where "irc3 = handleRegistration (plain_message ''376'' []) irc2"
  have irc2: "simple irc2" "map pair_callback (event_list irc2 ''376'') = [Lib HandleRegistration]"
    using s1 cbs by (simp_all add: irc2_def simple_def event_list_def)
  have "reader s2" "conn s2 = irc2" by (simp_all add: s2_def)
  with goroutine_step.read_line [of s2 "\<lambda>c. c" quiet "[]" 0 "''376''" irc3] welcomed [OF irc2, of quiet]
  have "coming_up (\<lambda>c. c) quiet s2 (s2\<lparr>conn := irc3\<rparr>)" by (simp add: irc3_def coming_up_def)
  moreover have irc3: "running irc3" "simple irc3" "0 < welcomeChan irc3"
    using up s1 by (simp_all add: irc3_def irc2_def handleRegistration_def Let_def simple_def)
  have "coming_up (\<lambda>c. c) quiet (s2\<lparr>conn := irc3\<rparr>)
      (s2\<lparr>conn := irc3, pc := Up, conn := irc3\<lparr>welcomeChan := welcomeChan irc3 - 1\<rparr>\<rparr>)"
    unfolding coming_up_def by (rule disjI2, rule Connect_step.connect [of Receive]) (use irc3(3) in \<open>simp add: s2_def\<close>)
  moreover have "?R ?s0 s2" using r2 by (simp add: s2_def irc2_def)
  ultimately have "?R ?s0 (s2\<lparr>conn := irc3, pc := Up, conn := irc3\<lparr>welcomeChan := welcomeChan irc3 - 1\<rparr>\<rparr>)"
    by (meson rtranclp.rtrancl_into_rtrancl)
  with irc3 show ?thesis unfolding example_start_def by (intro exI [of _ "s2\<lparr>conn := irc3, pc := Up,
    conn := irc3\<lparr>welcomeChan := welcomeChan irc3 - 1\<rparr>\<rparr>"]) (simp add: simple_def)
qed

lemma example_comes_up:
  "\<exists>s :: (bool, bool, bool) system. sys_reachable (\<lambda>c. c) example_config s \<and> pc s = Up \<and> running (conn s) \<and> simple (conn s)"
proof -
  obtain s where s: "(coming_up (\<lambda>c. c) quiet)\<^sup>*\<^sup>* example_start s" "pc s = Up" "running (conn s)" "simple (conn s)"
    using example_path by blast
  from s(1) have "sys_reachable (\<lambda>c. c) example_config s"
  proof (induction rule: rtranclp_induct)
    case base
    show ?case unfolding example_start_def by (rule sys_reachable.start)
  next
    case (step t u)
    then show ?case by (auto simp: coming_up_def intro: sys_reachable.step [OF _ polite_quiet] sys_step.intros)
  qed
  with s show ?thesis by blast
qed

lemma lifecycle_safe_witness:
  "\<exists>s :: (bool, bool, bool) system. sys_reachable (\<lambda>c. c) example_config s \<and> pc s = Up \<and> reader s \<and> writer s \<and> pinger s \<and> sock_open s \<and>
    end_chan (conn s) = OpenChan \<and> closeEnd (conn s) \<noteq> None"
proof -
  obtain s :: "(bool, bool, bool) system" where s: "sys_reachable (\<lambda>c. c) example_config s" "pc s = Up" "running (conn s)"
    using example_comes_up by blast
  from lifecycle_safe [OF s(1)] s show ?thesis by blast
qed



end
