(* ===== verification/Event_Loop.thy ===== *)
theory Event_Loop
  imports Event_Progress
begin

text \<open>
  \<open>Loop\<close> of \<^verbatim>\<open>ircevent/irc.go\<close>: it waits for the connection to stop, returns after \<open>Quit\<close>, otherwise waits for
  its turn and calls \<open>Connect\<close> again. The client calls \<open>Connect\<close> before \<open>Loop\<close>, on the same goroutine. Time
  only moves forward; the other goroutines and the calls of the client come in between, as before.
\<close>

subsection \<open>The code\<close>

text \<open>Where the client's goroutine is: not in \<open>Loop\<close> yet, or at one of its statements. A timer set by \<open>Loop\<close>
  has its deadline.\<close>

datatype loop_pc =
    Outside
  | InWaitForStop
  | Checking
  | Sleeping int
  | Calling
  | InConnect
  | Returned

text \<open>\<open>lastReconnect\<close> is \<open>None\<close> for the zero time. \<open>calls\<close> records, latest first, when \<open>Loop\<close> called \<open>Connect\<close>
  and whether \<open>Reconnect\<close> had cut the wait short; the code does not read it.\<close>

record ('u, 'b, 'l) program =
  sys :: "('u, 'b, 'l) system"
  loop_at :: loop_pc
  lastReconnect :: "int option"
  time :: int
  calls :: "(int \<times> bool) list"

text \<open>\<open>time.Until(lastReconnect.Add(irc.ReconnectFreq))\<close>; the zero time is long past.\<close>

definition reconnect_delay :: "('u, 'b, 'l) program \<Rightarrow> int \<Rightarrow> int" where
  "reconnect_delay p now =
    (case lastReconnect p of None \<Rightarrow> 0 | Some t \<Rightarrow> t + ReconnectFreq (conn (sys p)) - now)"

definition call_Connect :: "('u, 'b, 'l) program \<Rightarrow> int \<Rightarrow> bool \<Rightarrow> ('u, 'b, 'l) program" where
  "call_Connect p now woken =
    p\<lparr>loop_at := Calling, lastReconnect := Some now, time := now, calls := (now, woken) # calls p\<rparr>"

inductive loop_step :: "(nat \<Rightarrow> nat) \<Rightarrow> ('u, 'b, 'l) client_code \<Rightarrow> ('u, 'b, 'l) program \<Rightarrow> ('u, 'b, 'l) program \<Rightarrow> bool"
  for upper C where
  background: "goroutine_step upper C (sys p) s \<Longrightarrow> loop_step upper C p (p\<lparr>sys := s\<rparr>)"
| call: "loop_at p = Outside \<Longrightarrow> pc (sys p) = Stopped \<Longrightarrow> Connect_step upper (sys p) s \<Longrightarrow>
    loop_step upper C p (p\<lparr>sys := s\<rparr>)"
| run: "loop_at p \<in> {Outside, InConnect} \<Longrightarrow> pc (sys p) \<noteq> Stopped \<Longrightarrow> Connect_step upper (sys p) s \<Longrightarrow>
    loop_step upper C p (p\<lparr>sys := s\<rparr>)"
| clean_up: "loop_at p \<in> {Outside, InConnect} \<Longrightarrow> pc (sys p) = Drain \<Longrightarrow> waitForStop C (sys p) s \<Longrightarrow>
    loop_step upper C p (p\<lparr>sys := s\<rparr>)"
| enter: "loop_at p = Outside \<Longrightarrow> pc (sys p) \<in> {Stopped, Up} \<Longrightarrow>
    loop_step upper C p (p\<lparr>loop_at := InWaitForStop\<rparr>)"
| wait: "loop_at p = InWaitForStop \<Longrightarrow> waitForStop C (sys p) s \<Longrightarrow>
    loop_step upper C p (p\<lparr>sys := s, loop_at := Checking\<rparr>)"
| leave: "loop_at p = Checking \<Longrightarrow> isQuitting (conn (sys p)) \<Longrightarrow>
    loop_step upper C p (p\<lparr>loop_at := Returned\<rparr>)"
| at_once: "loop_at p = Checking \<Longrightarrow> \<not> isQuitting (conn (sys p)) \<Longrightarrow> time p \<le> now \<Longrightarrow> reconnect_delay p now \<le> 0 \<Longrightarrow>
    now \<le> now' \<Longrightarrow> loop_step upper C p (call_Connect p now' False)"
| sleep: "loop_at p = Checking \<Longrightarrow> \<not> isQuitting (conn (sys p)) \<Longrightarrow> time p \<le> now \<Longrightarrow> 0 < reconnect_delay p now \<Longrightarrow>
    loop_step upper C p (p\<lparr>loop_at := Sleeping (now + reconnect_delay p now), time := now\<rparr>)"
| timer: "loop_at p = Sleeping deadline \<Longrightarrow> deadline \<le> now \<Longrightarrow> time p \<le> now \<Longrightarrow>
    loop_step upper C p (call_Connect p now False)"
| woken: "loop_at p = Sleeping deadline \<Longrightarrow> Reconnect (conn (sys p)) = Some irc \<Longrightarrow> time p \<le> now \<Longrightarrow>
    loop_step upper C p (call_Connect (p\<lparr>sys := (sys p)\<lparr>conn := irc\<rparr>\<rparr>) now True)"
| reconnect: "loop_at p = Calling \<Longrightarrow> Connect_step upper (sys p) s \<Longrightarrow>
    loop_step upper C p (p\<lparr>sys := s, loop_at := InConnect\<rparr>)"
| returned: "loop_at p = InConnect \<Longrightarrow> pc (sys p) \<in> {Stopped, Up} \<Longrightarrow>
    loop_step upper C p (p\<lparr>loop_at := InWaitForStop\<rparr>)"

inductive_cases loop_stepE: "loop_step upper C p p'"

lemmas loop_step_cases = loop_stepE [consumes 1, case_names background call run clean_up enter wait leave at_once
  sleep timer woken reconnect returned]

definition new_program :: "Config \<Rightarrow> int \<Rightarrow> ('u, 'b, 'l) program" where
  "new_program cfg t0 =
    \<lparr>sys = \<lparr>conn = new_connection cfg, pc = Stopped, sock_open = False, reader = False, writer = False,
       pinger = False, ticks = 0\<rparr>, loop_at = Outside, lastReconnect = None, time = t0, calls = []\<rparr>"

text \<open>A step with some functions of the client, not the same ones at each step.\<close>

definition run_step :: "(nat \<Rightarrow> nat) \<Rightarrow> ('u, 'b, 'l) program \<Rightarrow> ('u, 'b, 'l) program \<Rightarrow> bool" where
  "run_step upper p p' \<longleftrightarrow> (\<exists>C. polite upper C \<and> loop_step upper C p p')"

definition loop_reachable :: "(nat \<Rightarrow> nat) \<Rightarrow> Config \<Rightarrow> ('u, 'b, 'l) program \<Rightarrow> bool" where
  "loop_reachable upper cfg p \<longleftrightarrow> (\<exists>t0. (run_step upper)\<^sup>*\<^sup>* (new_program cfg t0) p)"

subsection \<open>Loop is a schedule of the steps of the system\<close>

lemma loop_sys_step:
  assumes "loop_step upper C p p'" shows "sys p' = sys p \<or> sys_step upper C (sys p) (sys p')"
  using assms
proof (cases rule: loop_step_cases)
  case (woken deadline irc now)
  have "goroutine_step upper C (sys p) ((sys p)\<lparr>conn := irc\<rparr>)"
    by (intro goroutine_step.client api_step.reconnect woken(3))
  then show ?thesis using woken(1) by (simp add: call_Connect_def sys_step.goroutine)
qed (auto simp: call_Connect_def intro: sys_step.intros)

lemma loop_sys_reachable:
  assumes "loop_reachable upper cfg p" shows "sys_reachable upper cfg (sys p)"
proof -
  obtain t0 where "(run_step upper)\<^sup>*\<^sup>* (new_program cfg t0) p" using assms by (auto simp: loop_reachable_def)
  then show ?thesis
  proof (induction rule: rtranclp_induct)
    case base
    show ?case by (simp add: new_program_def sys_reachable.start)
  next
    case (step q r)
    then obtain C where "polite upper C" "loop_step upper C q r" by (auto simp: run_step_def)
    with loop_sys_step [OF this(2)] step.IH show ?case by (metis sys_reachable.step)
  qed
qed

lemma run_steps: "(loop_step upper C)\<^sup>*\<^sup>* p p' \<Longrightarrow> polite upper C \<Longrightarrow> (run_step upper)\<^sup>*\<^sup>* p p'"
  by (erule rtranclp_mono [THEN predicate2D, rotated]) (auto simp: run_step_def)

subsection \<open>The pace of Loop\<close>

text \<open>
  What stays: the frequency \<open>f\<close>, whether the \<open>end\<close> channel has been made (\<open>e\<close>), and the mark that \<open>Quit\<close>
  leaves (\<open>q\<close>).
\<close>

definition paced :: "string list \<Rightarrow> int \<Rightarrow> bool \<Rightarrow> bool \<Rightarrow> 'z Protocol_scheme \<Rightarrow> bool" where
  "paced caps f e q irc \<longleftrightarrow> RequestCaps irc = caps \<and> ReconnectFreq irc = f \<and> (e \<longleftrightarrow> end_chan irc \<noteq> NilChan) \<and> (q \<longrightarrow> quit irc)"

lemma paced_truncate: "paced caps f e q (Protocol.truncate irc) = paced caps f e q irc"
  by (simp add: paced_def Protocol.truncate_def)

lemma paced_close: "paced caps f e q irc \<Longrightarrow> closeEndNoMutex irc = Some irc' \<Longrightarrow> paced caps f e q irc'"
  by (cases "end_chan irc") (auto simp: closeEndNoMutex_def close_chan_def paced_def split: if_splits)

interpretation pace: kept_by_goroutines "paced caps f e q" caps
proof unfold_locales
  fix irc irc' :: "('u, 'b, 'l) Connection" and err
  assume p: "paced caps f e q irc"
  show "paced caps f e q irc'" if "table_op irc irc'"
    using that p paced_truncate unfolding table_op_def by metis
  show c: "paced caps f e q irc'" if "closeEndNoMutex irc = Some irc'" by (rule paced_close [OF p that])
  have "paced caps f e q (irc\<lparr>lastError := Some err\<rparr>)" using p by (simp add: paced_def)
  from paced_close [OF this] p show "paced caps f e q irc'" if "setError err irc = Some irc'"
    using that by (auto simp: setError_def split: if_splits)
qed (simp_all add: paced_def submitCapResult_def submitSASLResult_def)

lemma paced_send: "send_then q0 (Send c ps) irc = Some (p', irc') \<Longrightarrow> paced caps f e q irc \<Longrightarrow> paced caps f e q irc'"
  using pace.keepsD [OF pace.keeps_Send, of caps f e q irc c ps]
  by (auto simp: send_then_def split: prod.splits option.splits)

lemma paced_process: "paced caps f e q irc \<Longrightarrow> paced caps f e q (processAckedCaps acked irc)"
  by (simp add: paced_def processAckedCaps_def Let_def)

lemma negotiate_paced:
  "negotiate_step ch p irc = Some (p', irc') \<Longrightarrow> paced caps f e q irc \<Longrightarrow> paced caps f e q irc'"
  by (induction ch p irc rule: negotiate_step.induct)
    (auto simp: Let_def paced_process dest: paced_send split: list.splits if_splits, auto simp: paced_def)

lemma connect_paced:
  "connect_step ch p irc = Some (p', irc') \<Longrightarrow> paced caps f e q irc \<Longrightarrow> paced caps f e q irc'"
  by (induction ch p irc rule: connect_step.induct)
    (auto simp: Let_def closeEnd_def dest: paced_send paced_close negotiate_paced simp del: negotiate_step.simps
      split: if_splits, auto simp: paced_def)

text \<open>The frequency that \<open>Connect\<close> sets when the client has set none.\<close>

definition configured_freq :: "int \<Rightarrow> int" where
  "configured_freq f = (if f = 0 then 2 * time_Minute else f)"

lemma configured_freq_twice [simp]: "configured_freq (configured_freq f) = configured_freq f"
  by (simp add: configured_freq_def time_Minute_def)

lemma config_fields:
  "ReconnectFreq (connect_stop irc) = ReconnectFreq irc" "end_chan (connect_stop irc) = end_chan irc" "quit (connect_stop irc) = quit irc"
  "ReconnectFreq (default_identity irc) = ReconnectFreq irc" "end_chan (default_identity irc) = end_chan irc"
  "quit (default_identity irc) = quit irc"
  "ReconnectFreq (default_limits irc) = ReconnectFreq irc" "end_chan (default_limits irc) = end_chan irc"
  "quit (default_limits irc) = quit irc"
  "ReconnectFreq (default_sasl irc) = configured_freq (ReconnectFreq irc)" "end_chan (default_sasl irc) = end_chan irc"
  "quit (default_sasl irc) = quit irc"
  by (simp_all add: connect_stop_def default_identity_def default_limits_def default_sasl_def configured_freq_def Let_def)

lemma config_pace:
  assumes "connect_config irc = (err, irc')"
  shows "ReconnectFreq irc' = ReconnectFreq irc \<or> ReconnectFreq irc' = configured_freq (ReconnectFreq irc)"
    "err = None \<Longrightarrow> ReconnectFreq irc' = configured_freq (ReconnectFreq irc)"
    "end_chan irc' = end_chan irc" "quit irc' = quit irc" "quit irc \<Longrightarrow> err \<noteq> None"
  using assms by (auto simp: connect_config_def Let_def config_fields split: if_splits)

definition pace_inv :: "int \<Rightarrow> ('u, 'b, 'l) system \<Rightarrow> bool" where
  "pace_inv f0 s \<longleftrightarrow> ReconnectFreq (conn s) \<in> {f0, configured_freq f0} \<and>
    (pc s \<noteq> Stopped \<or> end_chan (conn s) \<noteq> NilChan \<longrightarrow> ReconnectFreq (conn s) = configured_freq f0)"

text \<open>What a step leaves behind: a set frequency, an \<open>end\<close> channel and \<open>Quit\<close> are never taken back.\<close>

definition lasting :: "('u, 'b, 'l) system \<Rightarrow> ('u, 'b, 'l) system \<Rightarrow> bool" where
  "lasting s s' \<longleftrightarrow> (end_chan (conn s) \<noteq> NilChan \<longrightarrow> end_chan (conn s') \<noteq> NilChan) \<and> (quit (conn s) \<longrightarrow> quit (conn s'))"

lemma lasting_refl [simp]: "lasting s s"
  by (simp add: lasting_def)

lemma pace_same:
  assumes "pace_inv f0 s" "pc s' \<noteq> Stopped \<longrightarrow> pc s \<noteq> Stopped"
    "\<And>caps f e q. paced caps f e q (conn s) \<Longrightarrow> paced caps f e q (conn s')"
  shows "pace_inv f0 s' \<and> lasting s s'"
proof -
  have "paced (RequestCaps (conn s)) (ReconnectFreq (conn s)) (end_chan (conn s) \<noteq> NilChan) (quit (conn s)) (conn s')"
    by (rule assms(3)) (simp add: paced_def)
  with assms(1,2) show ?thesis by (auto simp: pace_inv_def lasting_def paced_def)
qed

lemma pace_goroutine:
  assumes "goroutine_step upper C s s'" "polite upper C" "pace_inv f0 s" shows "pace_inv f0 s' \<and> lasting s s'"
  by (rule pace_same [OF assms(3) _ pace.keeps_goroutine [OF assms(1,2)]])
    (simp add: goroutine_frame(1) [OF assms(1)])

lemma pace_Connect:
  assumes "Connect_step upper s s'" "pace_inv f0 s" shows "pace_inv f0 s' \<and> lasting s s'"
  using assms(1)
proof (cases rule: Connect_cases)
  case (refused err irc)
  with config_pace [OF refused(3)] assms(2) show ?thesis by (auto simp: pace_inv_def lasting_def)
next
  case (configured irc)
  have p: "paced caps f e q irc \<Longrightarrow> paced caps f e q (setupCallbacks upper irc)" for caps f e q
    by (rule pace.tables [OF _ table_op_setupCallbacks])
  have "paced (RequestCaps irc) (ReconnectFreq irc) (end_chan irc \<noteq> NilChan) (quit irc) (setupCallbacks upper irc)"
    by (rule p) (simp add: paced_def)
  with configured config_pace [OF configured(3)] assms(2) show ?thesis
    by (auto simp: pace_inv_def lasting_def paced_def)
next
  case dialed
  with assms(2) show ?thesis by (simp add: pace_inv_def lasting_def connect_reset_def)
next
  case (connect ch p irc)
  have "pc s \<noteq> Stopped" using connect(2) by (cases ch) auto
  with pace_same [OF assms(2), of s'] connect_paced [OF connect(2)] connect(1) show ?thesis by simp
qed (use assms(2) in \<open>simp add: pace_inv_def lasting_def\<close>)

lemma pace_wait:
  assumes "waitForStop C s s'" "polite upper C" "pace_inv f0 s"
  shows "pace_inv f0 s' \<and> lasting s s' \<and> end_chan (conn s') \<noteq> NilChan"
  using assms(1)
proof (cases rule: waitForStop_cases)
  case (stopped order now irc)
  have k: "paced caps f e q (conn s')" if "paced caps f e q (conn s)" for caps f e q
    using pace.keeps_expire [OF assms(2) that, of True now order] stopped(1,8) by simp
  have "pace_inv f0 s' \<and> lasting s s'" by (rule pace_same [OF assms(3) _ k]) (simp add: stopped(1))
  moreover have "end_chan (conn s) \<noteq> NilChan" using stopped(3) by (simp add: end_closed_def)
  ultimately show ?thesis by (simp add: lasting_def)
qed

text \<open>Two calls of \<open>Connect\<close>, latest first, are a period apart unless \<open>Reconnect\<close> asked for the later one.\<close>

fun spaced :: "int \<Rightarrow> (int \<times> bool) list \<Rightarrow> bool" where
  "spaced f ((t2, woken) # (t1, woken1) # cs) \<longleftrightarrow> (woken \<or> t1 + f \<le> t2) \<and> spaced f ((t1, woken1) # cs)"
| "spaced f _ \<longleftrightarrow> True"

lemma spaced_Cons: "spaced f cs \<Longrightarrow> w \<or> (case cs of [] \<Rightarrow> True | (t1, _) # _ \<Rightarrow> t1 + f \<le> t) \<Longrightarrow> spaced f ((t, w) # cs)"
  by (cases cs) auto

definition loop_inv :: "int \<Rightarrow> ('u, 'b, 'l) program \<Rightarrow> bool" where
  "loop_inv f0 p \<longleftrightarrow> pace_inv f0 (sys p) \<and>
    (loop_at p \<notin> {Outside, InWaitForStop} \<or> calls p \<noteq> [] \<longrightarrow> end_chan (conn (sys p)) \<noteq> NilChan) \<and>
    lastReconnect p = (case calls p of [] \<Rightarrow> None | (t, _) # _ \<Rightarrow> Some t) \<and>
    (\<forall>d. loop_at p = Sleeping d \<longrightarrow> (\<exists>t. lastReconnect p = Some t \<and> d = t + configured_freq f0)) \<and>
    spaced (configured_freq f0) (calls p)"

lemma loop_inv_sys:
  assumes "loop_inv f0 p" "pace_inv f0 s \<and> lasting (sys p) s"
    "l = loop_at p \<or> l \<in> {Outside, InWaitForStop} \<or> l \<in> {Checking, InConnect} \<and> end_chan (conn s) \<noteq> NilChan"
  shows "loop_inv f0 (p\<lparr>sys := s, loop_at := l\<rparr>)"
  using assms by (auto simp: loop_inv_def lasting_def)

lemma loop_inv_call:
  assumes "loop_inv f0 p" "end_chan (conn (sys p)) \<noteq> NilChan"
    "w \<or> (\<forall>t. lastReconnect p = Some t \<longrightarrow> t + configured_freq f0 \<le> now)"
  shows "loop_inv f0 (call_Connect p now w)"
proof -
  have "spaced (configured_freq f0) ((now, w) # calls p)"
    by (rule spaced_Cons) (use assms in \<open>auto simp: loop_inv_def split: list.splits\<close>)
  with assms(1,2) show ?thesis by (simp add: loop_inv_def call_Connect_def)
qed

lemma loop_inv_at:
  assumes "loop_inv f0 p" "loop_at p \<notin> {Outside, InWaitForStop}"
  shows "end_chan (conn (sys p)) \<noteq> NilChan" "ReconnectFreq (conn (sys p)) = configured_freq f0"
  using assms by (auto simp: loop_inv_def pace_inv_def)

lemma loop_inv_step:
  assumes "loop_step upper C p p'" "loop_inv f0 p" "polite upper C" shows "loop_inv f0 p' \<and> lasting (sys p) (sys p')"
proof -
  have i: "pace_inv f0 (sys p)" using assms(2) by (simp add: loop_inv_def)
  note at = loop_inv_at [OF assms(2)]
  have same: "p\<lparr>sys := s\<rparr> = p\<lparr>sys := s, loop_at := loop_at p\<rparr>" "p\<lparr>loop_at := l\<rparr> = p\<lparr>sys := sys p, loop_at := l\<rparr>" for s l
    by simp_all
  have keep: "loop_inv f0 (p\<lparr>sys := s\<rparr>) \<and> lasting (sys p) s" if "pace_inv f0 s \<and> lasting (sys p) s" for s
    using loop_inv_sys [OF assms(2) that, of "loop_at p"] that by simp
  show ?thesis
    using assms(1)
  proof (cases rule: loop_step_cases)
    case (background s)
    with keep [OF pace_goroutine [OF background(2) assms(3) i]] show ?thesis by simp
  next
    case (call s)
    with keep [OF pace_Connect [OF call(4) i]] show ?thesis by simp
  next
    case (run s)
    with keep [OF pace_Connect [OF run(4) i]] show ?thesis by simp
  next
    case (clean_up s)
    from pace_wait [OF clean_up(4) assms(3) i] keep [of s] clean_up(1) show ?thesis by simp
  next
    case enter
    with assms(2) show ?thesis by (simp add: loop_inv_def)
  next
    case (wait s)
    from pace_wait [OF wait(3) assms(3) i] loop_inv_sys [OF assms(2), of s Checking] wait(1) show ?thesis by simp
  next
    case leave
    with assms(2) at(1) show ?thesis by (simp add: loop_inv_def)
  next
    case (at_once now now')
    have "\<forall>t. lastReconnect p = Some t \<longrightarrow> t + configured_freq f0 \<le> now'"
      using at_once(5,6) at(2) at_once(2) by (auto simp: reconnect_delay_def)
    with loop_inv_call [OF assms(2) at(1)] at_once(1,2) show ?thesis by (simp add: call_Connect_def)
  next
    case (sleep now)
    obtain t where "lastReconnect p = Some t" using sleep(5) by (cases "lastReconnect p") (simp_all add: reconnect_delay_def)
    with sleep(1,2) at assms(2) show ?thesis by (simp add: loop_inv_def reconnect_delay_def)
  next
    case (timer deadline now)
    have "\<forall>t. lastReconnect p = Some t \<longrightarrow> t + configured_freq f0 \<le> now"
      using assms(2) timer(2,3) by (auto simp: loop_inv_def)
    with loop_inv_call [OF assms(2) at(1)] timer(1,2) show ?thesis by (simp add: call_Connect_def)
  next
    case (woken deadline irc now)
    have "goroutine_step upper C (sys p) ((sys p)\<lparr>conn := irc\<rparr>)"
      by (intro goroutine_step.client api_step.reconnect woken(3))
    from keep [OF pace_goroutine [OF this assms(3) i]]
    have q: "loop_inv f0 (p\<lparr>sys := (sys p)\<lparr>conn := irc\<rparr>\<rparr>)" "lasting (sys p) ((sys p)\<lparr>conn := irc\<rparr>)" by simp_all
    have "end_chan irc \<noteq> NilChan" using q(2) at(1) woken(2) by (simp add: lasting_def)
    with loop_inv_call [OF q(1), of True now] woken(1) q(2) show ?thesis by (simp add: call_Connect_def)
  next
    case (reconnect s)
    from pace_Connect [OF reconnect(3) i] have s: "pace_inv f0 s \<and> lasting (sys p) s" .
    then have "end_chan (conn s) \<noteq> NilChan" using at(1) reconnect(2) by (simp add: lasting_def)
    with loop_inv_sys [OF assms(2) s, of InConnect] s reconnect(1) show ?thesis by simp
  next
    case returned
    with assms(2) show ?thesis by (simp add: loop_inv_def)
  qed
qed

lemma new_connection_freq [simp]: "ReconnectFreq (new_connection cfg) = ReconnectFreq cfg"
  by (simp add: new_connection_def Config.extend_def)

lemma new_program_inv: "loop_inv (ReconnectFreq cfg) (new_program cfg t0)"
  by (simp add: loop_inv_def pace_inv_def new_program_def new_connection_fields)

lemma loop_inv_steps:
  assumes "(run_step upper)\<^sup>*\<^sup>* p p'" "loop_inv f0 p"
  shows "loop_inv f0 p' \<and> lasting (sys p) (sys p')"
  using assms(1)
proof (induction rule: rtranclp_induct)
  case (step q r)
  then obtain C where "polite upper C" "loop_step upper C q r" by (auto simp: run_step_def)
  with step.IH loop_inv_step [OF this(2) _ this(1)] show ?case by (auto simp: lasting_def)
qed (simp add: assms(2))

lemma loop_inv_reachable:
  assumes "loop_reachable upper cfg p" shows "loop_inv (ReconnectFreq cfg) p"
proof -
  obtain t0 where "(run_step upper)\<^sup>*\<^sup>* (new_program cfg t0) p" using assms(1) by (auto simp: loop_reachable_def)
  from loop_inv_steps [OF this new_program_inv] show ?thesis ..
qed

subsection \<open>After Quit\<close>

lemma Connect_Stopped:
  assumes "Connect_step upper s s'" "pc s = Stopped" "quit (conn s)" shows "pc s' = Stopped"
  using assms(1)
proof (cases rule: Connect_cases)
  case (configured irc)
  with config_pace(5) [OF configured(3)] assms(3) show ?thesis by simp
next
  case (connect ch p irc)
  with assms(2) show ?thesis by (cases ch) auto
qed (use assms(2) in simp_all)

lemma quit_stays_stopped:
  assumes "loop_step upper C p p'" "pc (sys p) = Stopped" "quit (conn (sys p))" shows "pc (sys p') = Stopped"
  using assms(1)
  by (cases rule: loop_step_cases)
    (use assms(2,3) Connect_Stopped in \<open>auto simp: call_Connect_def goroutine_frame(1) elim: waitForStopE\<close>)

text \<open>Where \<open>Connect\<close> is, by where \<open>Loop\<close> is.\<close>

definition places :: "('u, 'b, 'l) program \<Rightarrow> bool" where
  "places p \<longleftrightarrow> (loop_at p = InWaitForStop \<longrightarrow> pc (sys p) \<in> {Stopped, Up}) \<and>
    (loop_at p \<notin> {Outside, InWaitForStop, InConnect} \<longrightarrow> pc (sys p) = Stopped)"

lemma places_step: "loop_step upper C p p' \<Longrightarrow> places p \<Longrightarrow> places p'"
  by (cases rule: loop_step_cases)
    (auto simp: places_def call_Connect_def goroutine_frame(1) elim: waitForStopE)

lemma places_steps: "(run_step upper)\<^sup>*\<^sup>* p p' \<Longrightarrow> places p \<Longrightarrow> places p'"
  by (induction rule: rtranclp_induct) (auto simp: run_step_def intro: places_step)

lemma loop_backgrounds: "(goroutine_step upper C)\<^sup>*\<^sup>* s s' \<Longrightarrow> sys p = s \<Longrightarrow> (loop_step upper C)\<^sup>*\<^sup>* p (p\<lparr>sys := s'\<rparr>)"
proof (induction rule: rtranclp_induct)
  case (step t u)
  from step.IH [OF step.prems] loop_step.background [of upper C "p\<lparr>sys := t\<rparr>" u] step(2)
  show ?case by (auto intro: rtranclp.rtrancl_into_rtrancl)
next
  case base
  then show ?case by (cases p) simp
qed

lemma loop_connects:
  "(Connect_online upper)\<^sup>*\<^sup>* s s' \<Longrightarrow> sys p = s \<Longrightarrow> loop_at p = InConnect \<Longrightarrow> (loop_step upper C)\<^sup>*\<^sup>* p (p\<lparr>sys := s'\<rparr>)"
proof (induction rule: rtranclp_induct)
  case (step t u)
  from step(2) have "pc t \<noteq> Stopped" "Connect_step upper t u" by (auto simp: Connect_online_def)
  with loop_step.run [of "p\<lparr>sys := t\<rparr>" upper u C] step.prems have "loop_step upper C (p\<lparr>sys := t\<rparr>) (p\<lparr>sys := u\<rparr>)" by simp
  with step.IH [OF step.prems] show ?case by (rule rtranclp.rtrancl_into_rtrancl)
next
  case base
  then show ?case by (cases p) simp
qed

text \<open>What \<open>Loop\<close> needs in order to return: the invariants, and the mark of \<open>Quit\<close>.\<close>

definition quitting_inv :: "int \<Rightarrow> ('u, 'b, 'l) program \<Rightarrow> bool" where
  "quitting_inv f0 p \<longleftrightarrow> sys_inv (sys p) \<and> loop_inv f0 p \<and> places p \<and> quit (conn (sys p)) \<and> end_chan (conn (sys p)) \<noteq> NilChan"

lemma quitting_step:
  assumes "loop_step upper C p p'" "quitting_inv f0 p" "polite upper C" shows "quitting_inv f0 p'"
proof -
  have "sys_inv (sys p')" using loop_sys_step [OF assms(1)] sys_inv_step [OF _ _ assms(3)] assms(2)
    by (auto simp: quitting_inv_def)
  with loop_inv_step [OF assms(1) _ assms(3)] places_step [OF assms(1)] assms(2) show ?thesis
    by (auto simp: quitting_inv_def lasting_def)
qed

lemma quitting_steps:
  "(loop_step upper C)\<^sup>*\<^sup>* p p' \<Longrightarrow> quitting_inv f0 p \<Longrightarrow> polite upper C \<Longrightarrow> quitting_inv f0 p'"
  by (induction rule: rtranclp_induct) (auto intro: quitting_step)

lemma at_rest_closed:
  assumes "quitting_inv f0 p" "at_rest (pc (sys p))" shows "end_closed (conn (sys p))"
  using assms sys_inv_session [of "sys p"]
  by (cases "end_chan (conn (sys p))") (auto simp: quitting_inv_def session_defs end_closed_def)

text \<open>From the wait: the goroutines leave, the wait ends, and \<open>Loop\<close> sees the mark.\<close>

lemma wait_returns:
  assumes "quitting_inv f0 p" "polite upper C" "\<forall>l irc. fst (run_label C l None irc) = Some ()"
    "loop_at p = InWaitForStop" "pc (sys p) = Up \<longrightarrow> end_closed (conn (sys p)) \<and> \<not> AllowPanic (conn (sys p))"
  shows "\<exists>p'. (loop_step upper C)\<^sup>*\<^sup>* p p' \<and> loop_at p' = Returned"
proof -
  have w: "\<exists>p'. (loop_step upper C)\<^sup>*\<^sup>* t p' \<and> loop_at p' = Returned"
    if "quitting_inv f0 t" "loop_at t = InWaitForStop" "end_closed (conn (sys t))"
      "\<not> reader (sys t)" "\<not> writer (sys t)" "\<not> pinger (sys t)" for t
  proof -
    have "pc (sys t) \<in> {Stopped, Up, Drain}" "sys_inv (sys t)"
      using that(1,2) by (auto simp: quitting_inv_def places_def)
    with waitForStop_returns [OF _ _ that(3-6) assms(3)] obtain s where "waitForStop C (sys t) s" by metis
    then have 1: "loop_step upper C t (t\<lparr>sys := s, loop_at := Checking\<rparr>)" (is "loop_step _ _ t ?u")
      using that(2) by (intro loop_step.wait)
    have "isQuitting (conn (sys ?u))"
      using quitting_step [OF 1 that(1) assms(2)] by (simp add: quitting_inv_def isQuitting_def)
    then have "loop_step upper C ?u (?u\<lparr>loop_at := Returned\<rparr>)" by (intro loop_step.leave) simp_all
    with 1 show ?thesis by (auto intro!: exI [of _ "?u\<lparr>loop_at := Returned\<rparr>"] intro: rtranclp.rtrancl_into_rtrancl)
  qed
  show ?thesis
  proof (cases "pc (sys p) = Up")
    case False
    with assms(1,4) have s: "pc (sys p) = Stopped" by (auto simp: quitting_inv_def places_def)
    with at_rest_closed [OF assms(1)] have "end_closed (conn (sys p))" by simp
    with w [OF assms(1,4)] s assms(1) show ?thesis by (auto simp: quitting_inv_def sys_inv_def)
  next
    case True
    with assms(5) obtain irc where
      "(goroutine_step upper C)\<^sup>*\<^sup>* (sys p) ((sys p)\<lparr>conn := irc, reader := False, writer := False, pinger := False\<rparr>)"
      using goroutines_leave [of "sys p" upper C] by metis
    from loop_backgrounds [OF this refl] have
      b: "(loop_step upper C)\<^sup>*\<^sup>* p (p\<lparr>sys := (sys p)\<lparr>conn := irc, reader := False, writer := False, pinger := False\<rparr>\<rparr>)"
      (is "(loop_step _ _)\<^sup>*\<^sup>* p ?t") .
    have q: "quitting_inv f0 ?t" by (rule quitting_steps [OF b assms(1,2)])
    then have i: "sys_inv (sys ?t)" by (simp add: quitting_inv_def)
    have "\<not> running (conn (sys ?t))" using sys_inv_session [OF i] by (auto simp: session_defs all_alive_def)
    with stays_closed [OF i] True have "end_closed (conn (sys ?t))" by simp
    with w [OF q] assms(4) obtain p' where "(loop_step upper C)\<^sup>*\<^sup>* ?t p'" "loop_at p' = Returned" by auto
    with b show ?thesis by (meson rtranclp_trans)
  qed
qed

text \<open>From \<open>Connect\<close>: it runs to its end first.\<close>

lemma connect_returns:
  assumes "quitting_inv f0 p" "polite upper C" "\<forall>l irc. fst (run_label C l None irc) = Some ()"
    "loop_at p = InConnect" "end_closed (conn (sys p))" "\<not> AllowPanic (conn (sys p))" "limit_ok (conn (sys p))"
  shows "\<exists>p'. (loop_step upper C)\<^sup>*\<^sup>* p p' \<and> loop_at p' = Returned"
proof -
  let ?R = "(loop_step upper C)\<^sup>*\<^sup>*"
  have ret: "\<exists>p'. ?R t p' \<and> loop_at p' = Returned"
    if "quitting_inv f0 t" "loop_at t = InConnect" "pc (sys t) = Stopped \<or>
      pc (sys t) = Up \<and> end_closed (conn (sys t)) \<and> \<not> AllowPanic (conn (sys t))" for t
  proof -
    have 1: "loop_step upper C t (t\<lparr>loop_at := InWaitForStop\<rparr>)" (is "loop_step _ _ t ?u")
      using that(2,3) by (intro loop_step.returned) auto
    from wait_returns [OF quitting_step [OF 1 that(1) assms(2)] assms(2,3)] that(3) obtain p' where
      "?R ?u p'" "loop_at p' = Returned" by auto
    with 1 show ?thesis by (meson converse_rtranclp_into_rtranclp)
  qed
  consider "pc (sys p) = Stopped" | "pc (sys p) = Dialing" | "\<not> offline (pc (sys p))" by (auto simp: offline_def)
  then show ?thesis
  proof cases
    case 1
    with ret [OF assms(1,4)] show ?thesis by blast
  next
    case 2
    then have s: "loop_step upper C p (p\<lparr>sys := (sys p)\<lparr>pc := Stopped\<rparr>\<rparr>)" (is "loop_step _ _ p ?u")
      using assms(4) by (intro loop_step.run Connect_step.dial_failed) simp_all
    from ret [OF quitting_step [OF s assms(1,2)]] assms(4) obtain p' where "?R ?u p'" "loop_at p' = Returned" by auto
    with s show ?thesis by (meson converse_rtranclp_into_rtranclp)
  next
    case 3
    have i: "sys_inv (sys p)" using assms(1) by (simp add: quitting_inv_def)
    then have "\<not> running (conn (sys p))" using closed_not_running assms(5) by blast
    with assms(5-7) have "stopping (conn (sys p))" by (simp add: stopping_def)
    from wind_down [OF i assms(2,3) this 3] obtain t u v where
      t: "(Connect_online upper)\<^sup>*\<^sup>* (sys p) t" "pc t \<in> {Up, Drain}" "stopping (conn t)"
      and u: "(goroutine_step upper C)\<^sup>*\<^sup>* t u" "pc u = pc t"
      and v: "waitForStop C u v" "pc v = Stopped" "sys_inv v"
      by metis
    have r: "?R p (p\<lparr>sys := t\<rparr>)" by (rule loop_connects [OF t(1) refl assms(4)])
    note q = quitting_steps [OF r assms(1,2)]
    have "\<exists>p'. ?R (p\<lparr>sys := t\<rparr>) p' \<and> loop_at p' = Returned"
    proof (cases "pc t = Up")
      case True
      with ret [OF q] assms(4) t(3) show ?thesis by (simp add: stopping_def)
    next
      case False
      have 1: "?R (p\<lparr>sys := t\<rparr>) (p\<lparr>sys := u\<rparr>)" using loop_backgrounds [OF u(1), of "p\<lparr>sys := t\<rparr>"] by simp
      moreover have 2: "loop_step upper C (p\<lparr>sys := u\<rparr>) (p\<lparr>sys := v\<rparr>)"
        using loop_step.clean_up [of "p\<lparr>sys := u\<rparr>" C v upper] assms(4) False t(2) u(2) v(1) by simp
      ultimately have 3: "?R (p\<lparr>sys := t\<rparr>) (p\<lparr>sys := v\<rparr>)" by (rule rtranclp.rtrancl_into_rtrancl)
      from ret [OF quitting_steps [OF 3 q assms(2)]] assms(4) v(2) obtain p' where
        "?R (p\<lparr>sys := v\<rparr>) p'" "loop_at p' = Returned" by auto
      with 3 show ?thesis by (meson rtranclp_trans)
    qed
    with r show ?thesis by (meson rtranclp_trans)
  qed
qed

lemma loop_returns:
  assumes "quitting_inv f0 p" "polite upper C" "\<forall>l irc. fst (run_label C l None irc) = Some ()"
    "loop_at p \<noteq> Outside" "end_closed (conn (sys p))" "\<not> AllowPanic (conn (sys p))" "limit_ok (conn (sys p))"
  shows "\<exists>p'. (loop_step upper C)\<^sup>*\<^sup>* p p' \<and> loop_at p' = Returned"
proof -
  let ?R = "(loop_step upper C)\<^sup>*\<^sup>*"
  have quit: "quit (conn (sys p))" using assms(1) by (simp add: quitting_inv_def)
  have calling: "\<exists>p'. ?R t p' \<and> loop_at p' = Returned"
    if "quitting_inv f0 t" "loop_at t = Calling" "conn (sys t) = conn (sys p)" for t
  proof -
    have c: "connect_config (conn (sys t)) = (Some ClientHasQuit, conn (sys t))" "pc (sys t) = Stopped"
      using that quit by (simp_all add: connect_config_def quitting_inv_def places_def)
    then have "Connect_step upper (sys t) ((sys t)\<lparr>conn := conn (sys t)\<rparr>)" by (intro Connect_step.refused)
    then have 1: "loop_step upper C t (t\<lparr>sys := (sys t)\<lparr>conn := conn (sys t)\<rparr>, loop_at := InConnect\<rparr>)" (is "loop_step _ _ t ?u")
      using that(2) by (intro loop_step.reconnect)
    from connect_returns [OF quitting_step [OF 1 that(1) assms(2)] assms(2,3)] that(3) assms(5-7) obtain p' where
      "?R ?u p'" "loop_at p' = Returned" by auto
    with 1 show ?thesis by (meson converse_rtranclp_into_rtranclp)
  qed
  show ?thesis
  proof (cases "loop_at p")
    case InWaitForStop
    with wait_returns [OF assms(1-3)] assms(5,6) show ?thesis by blast
  next
    case Checking
    then have "loop_step upper C p (p\<lparr>loop_at := Returned\<rparr>)"
      using quit by (intro loop_step.leave) (simp_all add: isQuitting_def)
    then show ?thesis by (intro exI [of _ "p\<lparr>loop_at := Returned\<rparr>"]) auto
  next
    case (Sleeping deadline)
    have 1: "loop_step upper C p (call_Connect p (max deadline (time p)) False)" (is "loop_step _ _ p ?u")
      by (rule loop_step.timer [OF Sleeping]) simp_all
    from calling [OF quitting_step [OF 1 assms(1,2)]] obtain p' where "?R ?u p'" "loop_at p' = Returned"
      by (auto simp: call_Connect_def)
    with 1 show ?thesis by (meson converse_rtranclp_into_rtranclp)
  next
    case Calling
    with calling [OF assms(1)] show ?thesis by blast
  next
    case InConnect
    with connect_returns [OF assms(1-3)] assms(5-7) show ?thesis by blast
  qed (use assms(4) in auto)
qed

lemma quitting_reachable:
  assumes "loop_reachable upper cfg p" "quit (conn (sys p))" "end_closed (conn (sys p))"
  shows "quitting_inv (ReconnectFreq cfg) p"
proof -
  obtain t0 where "(run_step upper)\<^sup>*\<^sup>* (new_program cfg t0) p" using assms(1) by (auto simp: loop_reachable_def)
  from places_steps [OF this] have "places p" by (simp add: places_def new_program_def)
  with assms sys_inv_reachable [OF loop_sys_reachable [OF assms(1)]] loop_inv_reachable [OF assms(1)]
  show ?thesis by (simp add: quitting_inv_def end_closed_def)
qed

subsection \<open>An example\<close>

lemma simple_reader_exit: "simple irc \<Longrightarrow> simple (snd (reader_exit upper quiet clock irc))"
  using simple.keepsD [OF simple.keeps_disconnect [OF quiet_keeps], of irc upper clock] by (simp add: reader_exit_def)

lemma simple_expire:
  assumes "simple irc" shows "simple (snd (expire quiet force now order irc))"
proof -
  have "act_for cbs (\<lambda>bcb. run_label quiet bcb None) irc = (Some (), irc)" for cbs irc
    by (induction cbs) (simp_all add: act_simps quiet_def)
  then have "snd (expire quiet force now order irc) = snd (expireBatches force now order irc)"
    by (simp add: expire_def case_prod_beta)
  with simple_table_op [OF table_op_expire assms] show ?thesis by simp
qed

lemma loop_reachable_steps:
  "loop_reachable upper cfg p \<Longrightarrow> (run_step upper)\<^sup>*\<^sup>* p p' \<Longrightarrow> loop_reachable upper cfg p'"
  unfolding loop_reachable_def by (meson rtranclp_trans)

lemma example_step:
  "loop_reachable (\<lambda>c. c) cfg p \<Longrightarrow> loop_step (\<lambda>c. c) quiet p p' \<Longrightarrow> loop_reachable (\<lambda>c. c) cfg p'"
  by (rule loop_reachable_steps [OF _ run_steps [OF _ polite_quiet]]) blast+

text \<open>The program of the example at rest: \<open>Connect\<close> is not running, and would go ahead.\<close>

abbreviation example_reachable :: "(bool, bool, bool) program \<Rightarrow> bool" where
  "example_reachable \<equiv> loop_reachable (\<lambda>c. c) example_config"

definition at_peace :: "(bool, bool, bool) program \<Rightarrow> bool" where
  "at_peace p \<longleftrightarrow> example_reachable p \<and> pc (sys p) = Stopped \<and> simple (conn (sys p)) \<and> end_chan (conn (sys p)) \<noteq> NilChan"

lemma example_sys_inv: "example_reachable p \<Longrightarrow> sys_inv (sys p)"
  by (rule sys_inv_reachable [OF loop_sys_reachable])

lemma stopped_closed:
  assumes "sys_inv s" "pc s = Stopped" "end_chan (conn s) \<noteq> NilChan" shows "end_closed (conn s)"
  using sys_inv_session [OF assms(1)] assms(2,3)
  by (cases "end_chan (conn s)") (auto simp: session_defs end_closed_def)

lemma example_wait:
  assumes "example_reachable p" "loop_at p = InWaitForStop" "simple (conn (sys p))" "end_closed (conn (sys p))"
    "pc (sys p) \<in> {Stopped, Up}" "\<not> reader (sys p)" "\<not> writer (sys p)" "\<not> pinger (sys p)"
  obtains p' where "at_peace p'" "loop_at p' = Checking" "calls p' = calls p"
proof -
  have c: "\<forall>l irc. fst (run_label quiet l None irc) = Some ()" by (simp add: quiet_def act_return_def)
  have "pc (sys p) \<in> {Stopped, Up, Drain}" using assms(5) by auto
  from waitForStop_returns [OF example_sys_inv [OF assms(1)] this assms(4,6-8) c] obtain s order where
    w: "waitForStop quiet (sys p) s" "pc s = Stopped" "conn s = snd (expire quiet True 0 order (conn (sys p)))" by metis
  have "pace_inv (ReconnectFreq example_config) (sys p)"
    using loop_inv_reachable [OF assms(1)] by (simp add: loop_inv_def)
  from pace_wait [OF w(1) polite_quiet this] have "end_chan (conn s) \<noteq> NilChan" by simp
  moreover have "example_reachable (p\<lparr>sys := s, loop_at := Checking\<rparr>)"
    by (rule example_step [OF assms(1) loop_step.wait [OF assms(2) w(1)]])
  ultimately show thesis
    using that [of "p\<lparr>sys := s, loop_at := Checking\<rparr>"] w simple_expire [OF assms(3)] by (simp add: at_peace_def)
qed

lemma example_calls:
  assumes "at_peace p" "loop_at p = Checking"
  obtains p' t where "at_peace p'" "loop_at p' = Calling" "calls p' = (t, False) # calls p"
proof -
  have q: "\<not> isQuitting (conn (sys p))" using assms(1) by (simp add: at_peace_def simple_def isQuitting_def)
  show thesis
  proof (cases "reconnect_delay p (time p) \<le> 0")
    case True
    from loop_step.at_once [OF assms(2) q order_refl True order_refl]
    show thesis using assms(1) that [of "call_Connect p (time p) False"]
      by (auto simp: at_peace_def call_Connect_def intro: example_step)
  next
    case False
    let ?d = "time p + reconnect_delay p (time p)" and ?q = "p\<lparr>loop_at := Sleeping (time p + reconnect_delay p (time p))\<rparr>"
    have 1: "loop_step (\<lambda>c. c) quiet p (p\<lparr>loop_at := Sleeping ?d, time := time p\<rparr>)"
      using False by (intro loop_step.sleep [OF assms(2) q]) simp_all
    have 2: "loop_step (\<lambda>c. c) quiet ?q (call_Connect ?q ?d False)"
      using False by (intro loop_step.timer [where deadline = ?d]) simp_all
    have "example_reachable (call_Connect ?q ?d False)"
      using example_step [OF example_step [OF _ 1], of example_config] 2 assms(1) by (simp add: at_peace_def)
    with assms(1) show thesis using that [of "call_Connect ?q ?d False"] by (simp add: at_peace_def call_Connect_def)
  qed
qed

lemma example_fails:
  assumes "at_peace p" "loop_at p = Calling"
  obtains p' where "at_peace p'" "loop_at p' = InWaitForStop" "calls p' = calls p"
proof -
  let ?s = "sys p"
  obtain irc where irc: "connect_config (conn ?s) = (None, irc)" "simple irc"
    using simple_configured assms(1) unfolding at_peace_def by blast
  let ?irc = "setupCallbacks (\<lambda>c. c) irc"
  have 1: "Connect_step (\<lambda>c. c) ?s (?s\<lparr>conn := ?irc, pc := Dialing\<rparr>)"
    using assms(1) irc(1) by (intro Connect_step.configured) (simp_all add: at_peace_def)
  let ?p1 = "p\<lparr>sys := ?s\<lparr>conn := ?irc, pc := Dialing\<rparr>, loop_at := InConnect\<rparr>"
  let ?p2 = "?p1\<lparr>sys := (sys ?p1)\<lparr>pc := Stopped\<rparr>\<rparr>"
  have r1: "loop_step (\<lambda>c. c) quiet p ?p1" by (rule loop_step.reconnect [OF assms(2) 1])
  have "Connect_step (\<lambda>c. c) (sys ?p1) ((sys ?p1)\<lparr>pc := Stopped\<rparr>)" by (rule Connect_step.dial_failed) simp
  then have r2: "loop_step (\<lambda>c. c) quiet ?p1 ?p2" by (intro loop_step.run) simp_all
  have r3: "loop_step (\<lambda>c. c) quiet ?p2 (?p2\<lparr>loop_at := InWaitForStop\<rparr>)" by (rule loop_step.returned) simp_all
  have e: "example_reachable p" "loop_inv (ReconnectFreq example_config) p"
    using assms(1) loop_inv_reachable by (auto simp: at_peace_def)
  have e3: "example_reachable (?p2\<lparr>loop_at := InWaitForStop\<rparr>)"
    by (rule example_step [OF example_step [OF example_step [OF e(1) r1] r2] r3])
  have "loop_inv (ReconnectFreq example_config) ?p2"
    using loop_inv_step [OF r2 _ polite_quiet] loop_inv_step [OF r1 e(2) polite_quiet] by blast
  then have "end_chan ?irc \<noteq> NilChan" by (simp add: loop_inv_def)
  moreover have "simple ?irc" by (rule simple_table_op [OF table_op_setupCallbacks irc(2)])
  ultimately show thesis using that [OF _ _ _, of "?p2\<lparr>loop_at := InWaitForStop\<rparr>"] e3 by (simp add: at_peace_def)
qed

lemma example_at_peace: "\<exists>p. at_peace p \<and> loop_at p = Checking \<and> calls p = []"
proof -
  let ?init = "new_program example_config 0 :: (bool, bool, bool) program"
  have start: "example_reachable ?init" unfolding loop_reachable_def by blast
  obtain s where s: "(coming_up (\<lambda>c. c) quiet)\<^sup>*\<^sup>* example_start s" "pc s = Up" "running (conn s)" "simple (conn s)"
    using example_path by blast
  have up: "example_reachable (?init\<lparr>sys := t\<rparr>)" if "(coming_up (\<lambda>c. c) quiet)\<^sup>*\<^sup>* example_start t" for t
    using that
  proof (induction rule: rtranclp_induct)
    case base
    have "?init\<lparr>sys := example_start\<rparr> = ?init" by (simp add: new_program_def example_start_def)
    with start show ?case by simp
  next
    case (step t u)
    have "loop_at (?init\<lparr>sys := t\<rparr>) = Outside" by (simp add: new_program_def)
    with step(2) have "loop_step (\<lambda>c. c) quiet (?init\<lparr>sys := t\<rparr>) (?init\<lparr>sys := u\<rparr>)"
      using loop_step.background [of "\<lambda>c. c" quiet "?init\<lparr>sys := t\<rparr>" u] loop_step.call [of "?init\<lparr>sys := t\<rparr>" "\<lambda>c. c" u quiet]
        loop_step.run [of "?init\<lparr>sys := t\<rparr>" "\<lambda>c. c" u quiet]
      by (auto simp: coming_up_def)
    with step.IH show ?case by (rule example_step)
  qed
  let ?p = "?init\<lparr>sys := s, loop_at := InWaitForStop\<rparr>"
  have "loop_at (?init\<lparr>sys := s\<rparr>) = Outside" by (simp add: new_program_def)
  then have "loop_step (\<lambda>c. c) quiet (?init\<lparr>sys := s\<rparr>) ?p"
    using loop_step.enter [of "?init\<lparr>sys := s\<rparr>" "\<lambda>c. c" quiet] s(2) by simp
  then have r: "example_reachable ?p" by (rule example_step [OF up [OF s(1)]])
  note i = sys_inv_session [OF example_sys_inv [OF r]]
  then have o: "end_chan (conn s) = OpenChan" using s(3) by (simp add: session_defs)
  let ?irc = "(conn s)\<lparr>running := False, end_chan := ClosedChan\<rparr>"
  have "Reconnect (conn s) = Some ?irc"
    using s(3) o by (simp add: Reconnect_def closeEnd_def closeEndNoMutex_def close_chan_def)
  then have "goroutine_step (\<lambda>c. c) quiet s (s\<lparr>conn := ?irc\<rparr>)"
    by (intro goroutine_step.client api_step.reconnect)
  then have r1: "example_reachable (?p\<lparr>sys := s\<lparr>conn := ?irc\<rparr>\<rparr>)"
    using example_step [OF r] loop_step.background [of "\<lambda>c. c" quiet ?p] by simp
  have c: "end_closed ?irc" "\<not> AllowPanic ?irc" "simple ?irc" using s(4) by (simp_all add: end_closed_def simple_def)
  obtain irc where g: "(goroutine_step (\<lambda>c. c) quiet)\<^sup>*\<^sup>* (s\<lparr>conn := ?irc\<rparr>)
      (s\<lparr>conn := irc, reader := False, writer := False, pinger := False\<rparr>)"
    "irc = ?irc \<or> irc = snd (reader_exit (\<lambda>c. c) quiet [] ?irc)"
  proof (rule goroutines_leave [of "s\<lparr>conn := ?irc\<rparr>" "\<lambda>c. c" quiet])
    show "end_closed (conn (s\<lparr>conn := ?irc\<rparr>))" "\<not> AllowPanic (conn (s\<lparr>conn := ?irc\<rparr>))" using c(1,2) by simp_all
    fix irc1
    assume "(goroutine_step (\<lambda>c. c) quiet)\<^sup>*\<^sup>* (s\<lparr>conn := ?irc\<rparr>)
        (s\<lparr>conn := ?irc, conn := irc1, reader := False, writer := False, pinger := False\<rparr>)"
      "irc1 = conn (s\<lparr>conn := ?irc\<rparr>) \<or> irc1 = snd (reader_exit (\<lambda>c. c) quiet [] (conn (s\<lparr>conn := ?irc\<rparr>)))"
    then show thesis by (intro that [of irc1]) simp_all
  qed
  let ?u = "s\<lparr>conn := irc, reader := False, writer := False, pinger := False\<rparr>"
  have r2: "example_reachable (?p\<lparr>sys := ?u\<rparr>)"
    using loop_reachable_steps [OF r1 run_steps [OF loop_backgrounds [OF g(1)] polite_quiet]] by simp
  have iu: "sys_inv ?u" using example_sys_inv [OF r2] by simp
  have "\<not> running irc" using sys_inv_session [OF iu] by (auto simp: session_defs all_alive_def)
  with stays_closed [OF iu] s(2) have "end_closed irc" by simp
  moreover have "simple irc" using g(2) c(3) simple_reader_exit [OF c(3)] by auto
  ultimately obtain p' where "at_peace p'" "loop_at p' = Checking" "calls p' = calls (?p\<lparr>sys := ?u\<rparr>)"
    using example_wait [OF r2] s(2) by auto
  then show ?thesis by (intro exI [of _ p']) (simp add: new_program_def)
qed

subsection \<open>Properties\<close>

text \<open>C30. The pace of reconnection: in every run, whatever the network and the client do, two successive calls of
  \<open>Connect\<close> by \<open>Loop\<close> are at least the configured period apart (two minutes if none was set), unless
  \<open>Reconnect\<close> cut the wait for the later one short.\<close>

theorem reconnect_spacing:
  assumes "loop_reachable upper cfg p"
  shows "spaced (if ReconnectFreq cfg = 0 then 120000000000 else ReconnectFreq cfg) (calls p)"
proof -
  have "configured_freq f = (if f = 0 then 120000000000 else f)" for f
    by (simp add: configured_freq_def time_Minute_def)
  with loop_inv_reachable [OF assms] show ?thesis by (simp only: loop_inv_def)
qed

text \<open>C28. \<open>Quit\<close> is final: its mark is never taken back, and once the connection of that time has ended, nothing
  is dialed, opened or started any more.\<close>

theorem Quit_is_final:
  assumes "loop_reachable upper cfg p" "quit (conn (sys p))" "(run_step upper)\<^sup>*\<^sup>* p p'"
  shows "quit (conn (sys p')) \<and>
    (pc (sys p) = Stopped \<longrightarrow> pc (sys p') = Stopped \<and> \<not> running (conn (sys p')) \<and> \<not> sock_open (sys p') \<and>
      \<not> reader (sys p') \<and> \<not> writer (sys p') \<and> \<not> pinger (sys p'))"
proof -
  note r = loop_reachable_steps [OF assms(1,3)]
  have q: "quit (conn (sys t))" if "(run_step upper)\<^sup>*\<^sup>* p t" for t
    using loop_inv_steps [OF that loop_inv_reachable [OF assms(1)]] assms(2) by (simp add: lasting_def)
  have "pc (sys p') = Stopped" if "pc (sys p) = Stopped"
    using assms(3)
  proof (induction rule: rtranclp_induct)
    case (step y z)
    with quit_stays_stopped [OF _ step(3) q [OF step(1)]] show ?case by (auto simp: run_step_def)
  qed (rule that)
  moreover have i: "sys_inv (sys p')" by (rule sys_inv_reachable [OF loop_sys_reachable [OF r]])
  ultimately show ?thesis
    using q [OF assms(3)] sys_inv_session [OF i] by (auto simp: sys_inv_def session_defs)
qed


lemma reconnect_spacing_witness:
  "\<exists>p t1 t2. example_reachable p \<and> calls p = [(t2, False), (t1, False)] \<and> t1 + 120000000000 \<le> t2"
proof -
  obtain p where p: "at_peace p" "loop_at p = Checking" "calls p = []" using example_at_peace by blast
  obtain p1 t1 where p1: "at_peace p1" "loop_at p1 = Calling" "calls p1 = [(t1, False)]"
    using example_calls [OF p(1,2)] p(3) by metis
  obtain p2 where p2: "at_peace p2" "loop_at p2 = InWaitForStop" "calls p2 = [(t1, False)]"
    using example_fails [OF p1(1,2)] p1(3) by metis
  have r2: "example_reachable p2" "pc (sys p2) = Stopped" "simple (conn (sys p2))" "end_chan (conn (sys p2)) \<noteq> NilChan"
    using p2(1) by (simp_all add: at_peace_def)
  note i = example_sys_inv [OF r2(1)]
  have "\<not> reader (sys p2)" "\<not> writer (sys p2)" "\<not> pinger (sys p2)" using i r2(2) by (simp_all add: sys_inv_def)
  with example_wait [OF r2(1) p2(2) r2(3) stopped_closed [OF i r2(2,4)]] r2(2) obtain p3 where
    p3: "at_peace p3" "loop_at p3 = Checking" "calls p3 = [(t1, False)]" using p2(3) by auto
  obtain p4 t2 where p4: "at_peace p4" "calls p4 = [(t2, False), (t1, False)]"
    using example_calls [OF p3(1,2)] p3(3) by metis
  then have r: "example_reachable p4" by (simp add: at_peace_def)
  from reconnect_spacing [OF r] r p4(2) show ?thesis by (auto simp: example_config_def)
qed

text \<open>\<open>Quit\<close> just before \<open>Connect\<close> is called again.\<close>

lemma Quit_stopped:
  assumes "limit_ok irc" "\<not> running irc"
  shows "snd (Quit now irc) = irc\<lparr>quit := True, quitAt := now\<rparr>"
proof -
  have "snd (Send c ps (irc\<lparr>quit := True, quitAt := now\<rparr>)) = irc\<lparr>quit := True, quitAt := now\<rparr>" for c ps
    by (rule Send_total [of "irc\<lparr>quit := True, quitAt := now\<rparr>" c ps]) (use assms in \<open>auto simp: limit_ok_def\<close>)
  then show ?thesis
    by (simp add: Quit_def Let_def act_simps case_prod_beta split: option.split)
qed

lemma example_quits:
  "\<exists>p. example_reachable p \<and> loop_at p = Calling \<and> pc (sys p) = Stopped \<and> quit (conn (sys p)) \<and>
    end_closed (conn (sys p)) \<and> \<not> AllowPanic (conn (sys p)) \<and> limit_ok (conn (sys p))"
proof -
  obtain p where "at_peace p" "loop_at p = Checking" using example_at_peace by blast
  then obtain p1 where p1: "at_peace p1" "loop_at p1 = Calling" using example_calls by metis
  then have r: "example_reachable p1" "pc (sys p1) = Stopped" "simple (conn (sys p1))" "end_chan (conn (sys p1)) \<noteq> NilChan"
    by (simp_all add: at_peace_def)
  note i = example_sys_inv [OF r(1)]
  have c: "end_closed (conn (sys p1))" by (rule stopped_closed [OF i r(2,4)])
  have l: "limit_ok (conn (sys p1))" using r(3) by (simp add: limit_ok_def simple_def)
  let ?irc = "(conn (sys p1))\<lparr>quit := True, quitAt := 0\<rparr>"
  have "api_step (\<lambda>c. c) (conn (sys p1)) (snd (Quit 0 (conn (sys p1))))" by (rule api_step.quit)
  then have "goroutine_step (\<lambda>c. c) quiet (sys p1) ((sys p1)\<lparr>conn := ?irc\<rparr>)"
    using Quit_stopped [OF l closed_not_running [OF i c], of 0] by (metis goroutine_step.client)
  from example_step [OF r(1) loop_step.background [OF this]] p1(2) r(2,3) c l show ?thesis
    by (intro exI [of _ "p1\<lparr>sys := (sys p1)\<lparr>conn := ?irc\<rparr>\<rparr>"]) (simp add: end_closed_def limit_ok_def simple_def)
qed

lemma Quit_is_final_witness:
  "\<exists>p p'. example_reachable p \<and> quit (conn (sys p)) \<and> loop_at p = Calling \<and> loop_step (\<lambda>c. c) quiet p p' \<and>
    loop_at p' = InConnect \<and> pc (sys p') = Stopped \<and> \<not> sock_open (sys p')"
proof -
  obtain p where p: "example_reachable p" "loop_at p = Calling" "pc (sys p) = Stopped" "quit (conn (sys p))"
    using example_quits by blast
  then have "connect_config (conn (sys p)) = (Some ClientHasQuit, conn (sys p))" by (simp add: connect_config_def)
  from loop_step.reconnect [OF p(2) Connect_step.refused [OF p(3) this]] obtain p' where
    s: "loop_step (\<lambda>c. c) quiet p p'" "loop_at p' = InConnect" by fastforce
  have "(run_step (\<lambda>c. c))\<^sup>*\<^sup>* p p'" using s(1) run_steps [OF _ polite_quiet] by blast
  from Quit_is_final [OF p(1,4) this] p s show ?thesis by blast
qed


end
