(* ===== verification/Event_Wire.thy ===== *)
theory Event_Wire
  imports Event_Dispatch Reader
begin

text \<open>
  The bytes between two connections (\<^verbatim>\<open>ircevent/irc.go\<close>): \<open>writeLoop\<close> writes what was queued,
  \<open>readMsgLoop\<close> cuts what the network brings into lines with \<^verbatim>\<open>ircreader\<close> and hands them to \<open>readLoop\<close>.
  The two ends of the network are parameters with the contracts of \<open>io.Writer\<close> and \<open>io.Reader\<close>. The write
  deadlines and the log are left out.
\<close>

subsection \<open>The code\<close>

text \<open>\<open>conn.Write\<close>: the number of bytes written, the error, and the connection's next state.\<close>

type_synonym 'w conn_write = "'w \<Rightarrow> string \<Rightarrow> (nat \<times> io_error option) \<times> 'w"

text \<open>\<open>queue\<close> is what \<open>writeLoop\<close> takes from \<open>pwrite\<close> before \<open>end\<close> is closed; the result is the error it
  passes to \<open>setError\<close>.\<close>

fun writeLoop :: "'w conn_write \<Rightarrow> string list \<Rightarrow> 'w \<Rightarrow> io_error option \<times> 'w" where
  "writeLoop wr [] w = (None, w)"
| "writeLoop wr (b # queue) w =
    (if length b = 0 then writeLoop wr queue w
     else case wr w b of
            ((_, None), w1) \<Rightarrow> writeLoop wr queue w1
          | ((_, Some err), w1) \<Rightarrow> (Some err, w1))"

definition maxlenTags :: int where
  "maxlenTags = 8192"

text \<open>
  \<open>taken\<close> is how often the other end of \<open>msgChan\<close> and \<open>errChan\<close> receives before \<open>end\<close> is closed. The result
  is the messages and the error handed over; \<open>None\<close>: a call of \<open>ReadLine\<close> panics or never returns.
\<close>

fun readMsgLoop_from :: "'c conn_read \<Rightarrow> nat \<Rightarrow> Reader \<Rightarrow> 'c \<Rightarrow> (string list \<times> read_error option) option" where
  "readMsgLoop_from rd taken cc c =
    (case ReadLine rd cc c of
       None \<Rightarrow> None
     | Some (Inr msg, cc1, c1) \<Rightarrow>
         (case taken of
            0 \<Rightarrow> Some ([], None)
          | Suc n \<Rightarrow> map_option (\<lambda>(msgs, err). (msg # msgs, err)) (readMsgLoop_from rd n cc1 c1))
     | Some (Inl err, cc1, c1) \<Rightarrow> Some ([], if taken = 0 then None else Some err))"

declare readMsgLoop_from.simps [simp del]

definition readMsgLoop :: "'c conn_read \<Rightarrow> 'c \<Rightarrow> int \<Rightarrow> nat \<Rightarrow> (string list \<times> read_error option) option" where
  "readMsgLoop rd sock maxLineLen taken =
    readMsgLoop_from rd taken (Initialize 1024 (maxLineLen + maxlenTags)) sock"

text \<open>The lines that \<open>readLoop\<close> receives, each with the time and the clock of its handling.\<close>

fun readLoop_lines :: "(nat \<Rightarrow> nat) \<Rightarrow> ('u, 'b, 'l) client_code \<Rightarrow> (string \<times> int) list \<Rightarrow> string list
    \<Rightarrow> ('u, 'b, 'l) Connection \<Rightarrow> (unit option \<times> ('u, 'b, 'l) Connection) option" where
  "readLoop_lines upper C ((clock, now) # clocks) (msg # msgs) irc =
    (case readLoop_line upper C clock now msg irc of
       Some (Some _, irc1) \<Rightarrow> readLoop_lines upper C clocks msgs irc1
     | r \<Rightarrow> r)"
| "readLoop_lines upper C _ _ irc = Some (Some (), irc)"

subsection \<open>The contract of the network\<close>

definition io_sink :: "'w conn_write \<Rightarrow> ('w \<Rightarrow> string) \<Rightarrow> bool" where
  "io_sink wr sent \<longleftrightarrow> (\<forall>w b n e w'. wr w b = ((n, e), w') \<longrightarrow>
    n \<le> length b \<and> sent w' = sent w @ take n b \<and> (e = None \<longrightarrow> n = length b))"

lemma writeLoop_sent:
  assumes "io_sink wr sent" "writeLoop wr queue w = (None, w')"
  shows "sent w' = sent w @ concat queue"
  using assms(2)
proof (induction queue arbitrary: w)
  case (Cons b queue)
  show ?case
  proof (cases "b = []")
    case False
    obtain n e w1 where wr: "wr w b = ((n, e), w1)" by (metis prod.exhaust)
    with Cons.prems False have e: "e = None" "writeLoop wr queue w1 = (None, w')" by (auto split: option.splits)
    from assms(1) wr e(1) have "sent w1 = sent w @ b" by (force simp: io_sink_def)
    with Cons.IH [OF e(2)] show ?thesis by simp
  qed (use Cons in simp)
qed simp

text \<open>An error of the network stops the loop; what was written is a prefix of what was queued.\<close>

lemma writeLoop_prefix:
  assumes "io_sink wr sent"
  shows "\<exists>written rest. concat queue = written @ rest \<and> sent (snd (writeLoop wr queue w)) = sent w @ written"
proof (induction queue arbitrary: w)
  case (Cons b queue)
  show ?case
  proof (cases "b = []")
    case False
    obtain n e w1 where wr: "wr w b = ((n, e), w1)" by (metis prod.exhaust)
    with assms have s: "n \<le> length b" "sent w1 = sent w @ take n b" "e = None \<longrightarrow> n = length b"
      unfolding io_sink_def by blast+
    show ?thesis
    proof (cases e)
      case None
      from Cons.IH [of w1] obtain written rest where
        "concat queue = written @ rest" "sent (snd (writeLoop wr queue w1)) = sent w1 @ written" by blast
      with None wr s False show ?thesis by (intro exI [of _ "b @ written"] exI [of _ rest]) simp
    next
      case (Some err)
      with wr s False show ?thesis
        by (intro exI [of _ "take n b"] exI [of _ "drop n b @ concat queue"]) simp
    qed
  qed (use Cons in simp)
qed simp


text \<open>The reader hands over exactly the lines of the stream.\<close>

lemma readMsgLoop_from_lines:
  assumes "read_lines rd n cc c = Some (msgs, cc', c')" "ReadLine rd cc' c' \<noteq> None"
  shows "readMsgLoop_from rd n cc c = Some (msgs, None)"
  using assms
proof (induction n arbitrary: cc c msgs)
  case 0
  then show ?case by (subst readMsgLoop_from.simps) (auto split: option.splits sum.splits)
next
  case (Suc n)
  from Suc.prems(1) obtain msg cc1 c1 msgs1 where
    r: "ReadLine rd cc c = Some (Inr msg, cc1, c1)" "read_lines rd n cc1 c1 = Some (msgs1, cc', c')" "msgs = msg # msgs1"
    by (auto split: option.splits sum.splits Option.bind_splits)
  from Suc.IH [OF r(2) Suc.prems(2)] r(1,3) show ?case by (subst readMsgLoop_from.simps) simp
qed


lemma stream_ok_Initialize:
  "1024 \<le> m \<Longrightarrow> m \<le> 2 ^ 62 \<Longrightarrow> stream_ok remaining (Initialize 1024 m) c"
  using reader_inv_Initialize [of 1024 m] by (simp add: stream_ok_def Initialize_def)

lemma readMsgLoop_lines:
  assumes "io_stream rd remaining" "0 \<le> n" "n \<le> 2 ^ 61"
    "\<forall>body\<in>set bodies. CHR 0x0A \<notin> set body \<and> CHR 0x0D \<notin> set body \<and> int (length body) + 1 < n + maxlenTags"
    "remaining c = concat (map (\<lambda>body. body @ [CHR 0x0D, CHR 0x0A]) bodies)"
  shows "readMsgLoop rd c n (length bodies) = Some (bodies, None)"
proof -
  let ?cc = "Initialize 1024 (n + maxlenTags)" and ?raws = "map (\<lambda>body. body @ [CHR 0x0D]) bodies"
  have ok: "stream_ok remaining ?cc c" using assms(2,3) by (intro stream_ok_Initialize) (simp_all add: maxlenTags_def)
  have "pending ?cc @ remaining c = concat (map (\<lambda>l. l @ [CHR 0x0A]) ?raws) @ []"
    using assms(5) by (simp add: pending_def Initialize_def comp_def)
  moreover have "list_all (\<lambda>l. CHR 0x0A \<notin> set l \<and> int (length l) < maxSize ?cc) ?raws"
    using assms(4) by (auto simp: list_all_iff Initialize_def)
  ultimately obtain cc' c' where r: "read_lines rd (length ?raws) ?cc c = Some (map chomp ?raws, cc', c')"
    "stream_ok remaining cc' c'"
    using read_lines_stream [OF assms(1) ok] by blast
  have "ReadLine rd cc' c' \<noteq> None"
    using ReadLine_spec [OF assms(1), of cc' c'] r(2) unfolding stream_ok_def by fastforce
  moreover have "map chomp ?raws = bodies" by (simp add: comp_def chomp_def TrimSuffix_def HasSuffix_single)
  ultimately show ?thesis
    using readMsgLoop_from_lines [of rd "length bodies" ?cc c bodies cc' c'] r(1) by (simp add: readMsgLoop_def)
qed

subsection \<open>Sending several messages\<close>

text \<open>All of them are accepted, one after the other.\<close>

fun sends :: "(Message \<times> (string \<times> string) list \<times> (string \<times> string) list) list \<Rightarrow> ('u, 'b, 'l) Connection
    \<Rightarrow> ('u, 'b, 'l) Connection option" where
  "sends [] irc = Some irc"
| "sends ((msg, tord, cord) # msgs) irc =
    (case SendIRCMessage msg tord cord irc of
       (Some None, irc1) \<Rightarrow> sends msgs irc1
     | _ \<Rightarrow> None)"

lemma line_limits_irrelevant:
  assumes "line m tord cord a b c n = Some (bytes, None)"
  shows "LineBytes m tord cord = Some (bytes, None)"
proof -
  have ne: "bytes \<noteq> []" using line_None_not_Nil [OF assms] .
  note D = line_resultD [OF assms ne]
  from assms ne show ?thesis
  proof (rule line_shape)
    fix t buf
    assume t: "\<And>buf. line_params (forceTrailing m) (Params m) buf = Inr (buf @ t)"
      and b: "line_truncate (fst (line_tags tord cord) @ source_text m @ Command m @ t)
        (int (length (fst (line_tags tord cord)))) n = Some (buf, None)"
      "clean buf" "bytes = buf @ [CHR 0x0D, CHR 0x0A]"
    have eq: "fst (line_tags tord cord) @ source_text m @ Command m @ t = buf"
      using b(1) by (simp add: line_truncate_def Let_def split: if_splits Option.bind_splits)
    have "LineBytes m tord cord =
      (let tagBuf = fst (line_tags tord cord) in
       map_option (\<lambda>(buf, err). if clean buf then (buf @ [CHR 0x0D, CHR 0x0A], err) else ([], Some ErrorLineContainsBadChar))
         (line_truncate (tagBuf @ source_text m @ Command m @ t) (int (length tagBuf)) 0))"
      unfolding LineBytes_def by (rule line_without_error [OF D(1,2) _ _ _ t]) simp_all
    then show ?thesis using b(2,3) unfolding Let_def eq by (simp add: line_truncate_def)
  qed
qed


lemma ParseLine_line_end:
  assumes "clean body" shows "ParseLine (body @ [CHR 0x0D, CHR 0x0A]) = ParseLine body"
proof -
  have "TrimSuffix (TrimSuffix (body @ [CHR 0x0D, CHR 0x0A]) [CHR 0x0A]) [CHR 0x0D] = body"
    using TrimSuffix_append [of "body @ [CHR 0x0D]" "[CHR 0x0A]"] TrimSuffix_append [of body "[CHR 0x0D]"] by simp
  moreover have "TrimSuffix (TrimSuffix body [CHR 0x0A]) [CHR 0x0D] = body"
    using assms by (simp add: clean_def TrimSuffix_single_absent)
  ultimately show ?thesis unfolding ParseLine_def parseLine_def by (simp only:)
qed

text \<open>What an accepted message becomes.\<close>

lemma queued_line:
  assumes "SendIRCMessage m tord cord irc = (Some None, irc1)" "\<not> AllowTruncation irc" "2 \<le> MaxLineLen irc"
    "printable m" "is_order (tags m) tord" "is_order (clientOnlyTags m) cord"
  obtains body where "irc1 = irc\<lparr>pwrite := pwrite irc @ [body @ [CHR 0x0D, CHR 0x0A]]\<rparr>" "clean body"
    "ParseLine body = Some (m\<lparr>forceTrailing := False\<rparr>, None)" "int (length body) + 2 \<le> 4096 + MaxLineLen irc"
proof (rule SendIRCMessage_cases [of irc m tord cord])
  fix b e
  assume q: "line m tord cord MaxlenTagsFromClient 0 0 (MaxLineLen irc) = Some (b, e)"
    "e = None \<or> AllowTruncation irc \<and> e = Some ErrorBodyTooLong"
    "SendIRCMessage m tord cord irc = (Some None, irc\<lparr>pwrite := pwrite irc @ [b]\<rparr>)"
  with assms(2) have l: "line m tord cord MaxlenTagsFromClient 0 0 (MaxLineLen irc) = Some (b, None)" by simp
  then have b: "LineBytes m tord cord = Some (b, None)" by (rule line_limits_irrelevant)
  from line_one_line [OF l] obtain body where body: "b = body @ [CHR 0x0D, CHR 0x0A]" "clean body" by auto
  from Parse_LineBytes [OF assms(4-6)] b have "ParseLine b = Some (m\<lparr>forceTrailing := False\<rparr>, None)" by auto
  moreover have "int (length b) \<le> 4096 + MaxLineLen irc"
    using strict_limits [of m tord cord True "MaxLineLen irc" b None] l assms(3) body(1)
    by (fastforce simp: LineBytesStrict_def)
  ultimately show thesis
    using body q(3) assms(1) by (intro that [of body]) (simp_all add: ParseLine_line_end)
qed (simp_all add: assms(1))


text \<open>And when a message is accepted: the limits suffice if the tags fit, and the body at its longest.\<close>

lemma SendIRCMessage_printable:
  assumes "printable m" "Source m = []" "is_order (tags m) tord" "is_order (clientOnlyTags m) cord"
    "int (length (fst (line_tags tord cord))) \<le> 4096"
    "running irc" "MaxLineLen irc = 0 \<or> int (room_for (Command m) (Params m)) \<le> MaxLineLen irc"
  obtains b where "SendIRCMessage m tord cord irc = (Some None, irc\<lparr>pwrite := pwrite irc @ [b]\<rparr>)"
    "ParseLine b = Some (m\<lparr>forceTrailing := False\<rparr>, None)"
proof (rule Parse_LineBytes [OF assms(1,3,4)])
  fix b
  assume b: "LineBytes m tord cord = Some (b, None)" "ParseLine b = Some (m\<lparr>forceTrailing := False\<rparr>, None)"
  then have l: "line m tord cord 0 0 0 0 = Some (b, None)" by (simp add: LineBytes_def)
  have ne: "b \<noteq> []" using line_None_not_Nil [OF l] .
  note D = line_resultD [OF l ne]
  have "LineBytesStrict m tord cord True (MaxLineLen irc) = Some (b, None)"
  proof (rule line_shape [OF l ne])
    fix t buf
    assume t: "\<And>buf. line_params (forceTrailing m) (Params m) buf = Inr (buf @ t)"
      and c: "line_truncate (fst (line_tags tord cord) @ source_text m @ Command m @ t)
        (int (length (fst (line_tags tord cord)))) 0 = Some (buf, None)" "clean buf" "b = buf @ [CHR 0x0D, CHR 0x0A]"
    have buf: "buf = fst (line_tags tord cord) @ source_text m @ Command m @ t"
      using c(1) by (simp add: line_truncate_def)
    have "int (length t) \<le> int (sum_list (map (\<lambda>p. length p + 2) (Params m)))"
      using line_params_length [OF t [of "[]"]] by simp
    then have "line_truncate buf (int (length (fst (line_tags tord cord)))) (MaxLineLen irc) = Some (buf, None)"
      using assms(2,7) by (auto simp: line_truncate_def buf source_text_def room_for_def)
    with c(2,3) show ?thesis
      using line_without_error [OF D(1,2) _ _ _ t, of MaxlenTagsFromClient 0 0 "MaxLineLen irc"] assms(5)
      by (simp add: LineBytesStrict_def buf Let_def MaxlenTagsFromClient_def MaxlenClientTagData_def)
  qed
  with b(2) show thesis
    using assms(6) by (intro that [of b]) (simp_all add: SendIRCMessage_def sendInternal_def)
qed


type_synonym outgoing = "Message \<times> (string \<times> string) list \<times> (string \<times> string) list"

definition printable_outgoing :: "outgoing \<Rightarrow> bool" where
  "printable_outgoing x \<longleftrightarrow> (case x of (m, tord, cord) \<Rightarrow>
    printable m \<and> is_order (tags m) tord \<and> is_order (clientOnlyTags m) cord)"

text \<open>A message as it arrives: whether it was sent with a forced colon cannot be seen.\<close>

definition arrived :: "outgoing \<Rightarrow> Message" where
  "arrived x = (fst x)\<lparr>forceTrailing := False\<rparr>"

lemma sends_bodies:
  assumes "sends ms irc = Some irc'" "\<not> AllowTruncation irc" "2 \<le> MaxLineLen irc" "\<forall>x\<in>set ms. printable_outgoing x"
  shows "\<exists>bodies. pwrite irc' = pwrite irc @ map (\<lambda>body. body @ [CHR 0x0D, CHR 0x0A]) bodies \<and>
    map ParseLine bodies = map (\<lambda>x. Some (arrived x, None)) ms \<and>
    (\<forall>body\<in>set bodies. clean body \<and> int (length body) + 2 \<le> 4096 + MaxLineLen irc)"
  using assms
proof (induction ms arbitrary: irc)
  case (Cons x ms)
  obtain m tord cord where x: "x = (m, tord, cord)" by (rule prod_cases3)
  from Cons.prems(1) obtain irc1 where s: "SendIRCMessage m tord cord irc = (Some None, irc1)" "sends ms irc1 = Some irc'"
    by (auto simp: x split: prod.splits option.splits)
  have pr: "printable m" "is_order (tags m) tord" "is_order (clientOnlyTags m) cord"
    using Cons.prems(4) by (simp_all add: x printable_outgoing_def)
  from s(1) Cons.prems(2,3) pr obtain body where
    b: "irc1 = irc\<lparr>pwrite := pwrite irc @ [body @ [CHR 0x0D, CHR 0x0A]]\<rparr>" "clean body"
    "ParseLine body = Some (m\<lparr>forceTrailing := False\<rparr>, None)" "int (length body) + 2 \<le> 4096 + MaxLineLen irc"
    by (rule queued_line)
  from Cons.IH [OF s(2)] Cons.prems(2-4) obtain bodies where
    "pwrite irc' = pwrite irc1 @ map (\<lambda>body. body @ [CHR 0x0D, CHR 0x0A]) bodies"
    "map ParseLine bodies = map (\<lambda>x. Some (arrived x, None)) ms"
    "\<forall>body\<in>set bodies. clean body \<and> int (length body) + 2 \<le> 4096 + MaxLineLen irc"
    by (auto simp: b(1))
  with b show ?case by (intro exI [of _ "body # bodies"]) (simp add: x arrived_def)
qed simp

text \<open>The callbacks run on the messages, when each of the lines parses.\<close>

fun handle_messages :: "(nat \<Rightarrow> nat) \<Rightarrow> ('u, 'b, 'l) client_code \<Rightarrow> (string \<times> int) list \<Rightarrow> Message list
    \<Rightarrow> ('u, 'b, 'l) Connection \<Rightarrow> (unit option \<times> ('u, 'b, 'l) Connection) option" where
  "handle_messages upper C ((clock, now) # clocks) (m # ms) irc =
    (case runCallbacks upper C clock now m irc of
       Some (Some _, irc1) \<Rightarrow> handle_messages upper C clocks ms irc1
     | r \<Rightarrow> r)"
| "handle_messages upper C _ _ irc = Some (Some (), irc)"

lemma readLoop_lines_messages:
  "map ParseLine msgs = map (\<lambda>x. Some (f x, None)) ms \<Longrightarrow>
    readLoop_lines upper C clocks msgs irc = handle_messages upper C clocks (map f ms) irc"
proof (induction msgs arbitrary: ms clocks irc)
  case (Cons msg msgs)
  then obtain x xs where ms: "ms = x # xs" "ParseLine msg = Some (f x, None)"
    "map ParseLine msgs = map (\<lambda>x. Some (f x, None)) xs" by (cases ms) auto
  then show ?case
    by (cases clocks) (auto simp: readLoop_line_def Cons.IH [OF ms(3)] split: option.splits)
qed simp

subsection \<open>Properties\<close>



definition example_sender :: "(bool, bool, bool) Connection" where
  "example_sender = zero_Connection\<lparr>running := True, MaxLineLen := 512\<rparr>"

definition example_messages :: "outgoing list" where
  "example_messages = [(plain_message ''JOIN'' [''#c''], [], []), (plain_message ''PART'' [''#c''], [], [])]"

definition example_reads :: "string list" where
  "example_reads = [''JO'', ''IN #c'' @ [CHR 0x0D], [CHR 0x0A] @ ''PART #c'' @ [CHR 0x0D, CHR 0x0A]]"

lemma plain_fields [simp]:
  "Command (plain_message c ps) = c" "Params (plain_message c ps) = ps" "Source (plain_message c ps) = []"
  "forceTrailing (plain_message c ps) = False" "tags (plain_message c ps) = Map.empty"
  "clientOnlyTags (plain_message c ps) = Map.empty"
  by (simp_all add: zero_Message_def)

lemma example_line:
  "LineBytesStrict (plain_message ''JOIN'' [''#c'']) [] [] True 512 = Some (''JOIN #c'' @ [CHR 0x0D, CHR 0x0A], None)"
  "LineBytesStrict (plain_message ''PART'' [''#c'']) [] [] True 512 = Some (''PART #c'' @ [CHR 0x0D, CHR 0x0A], None)"
  by (simp_all add: LineBytesStrict_def MaxlenTagsFromClient_def MaxlenClientTagData_def line_def line_tags_def
      line_truncate_def paramRequiresTrailing_def forbidden_def go_eval)

lemma example_sends:
  "sends example_messages example_sender = Some (example_sender\<lparr>pwrite :=
    pwrite example_sender @ [''JOIN #c'' @ [CHR 0x0D, CHR 0x0A], ''PART #c'' @ [CHR 0x0D, CHR 0x0A]]\<rparr>)"
  by (simp add: example_messages_def SendIRCMessage_def example_line sendInternal_def example_sender_def)

lemma example_printable: "\<forall>x\<in>set example_messages. printable_outgoing x"
proof -
  have "printable (plain_message ''JOIN'' [''#c''])" "printable (plain_message ''PART'' [''#c''])"
    by (intro printable_plain; simp add: command_ok_def upper_byte_def clean_def char_eval)+
  then show ?thesis by (simp add: example_messages_def printable_outgoing_def is_order_def)
qed

definition example_client :: "(bool, bool, bool) client_code" where
  "example_client = \<lparr>run_user = \<lambda>_ m. act_then (SendRaw (Command m)) (act_return ()),
    run_batch = \<lambda>_ _. act_return False, run_label = \<lambda>_ _. act_return ()\<rparr>"


end
