(* ===== verification/Event_Dial.thy ===== *)
theory Event_Dial
  imports Event_Handlers
begin

text \<open>
  \<open>dial\<close> of \<^verbatim>\<open>ircevent/irc.go\<close>: a TCP connection, made by the client's \<open>DialContext\<close> if there is one, and TLS on top of it.
  The dialers and the handshake are parameters; \<open>net.SplitHostPort\<close> is modelled. A \<open>tls.Config\<close> is reduced to
  the two fields that the code reads and writes. The deadline of the context is left out.
  What the network does may change between calls: it has a state of its own.
\<close>

subsection \<open>The code\<close>

record TLSConfig =
  ServerName :: string
  InsecureSkipVerify :: bool

type_synonym ('w, 'c) dialer = "'w \<Rightarrow> string \<Rightarrow> string \<Rightarrow> (string + 'c) \<times> 'w"

type_synonym ('w, 'c) tls_handshake = "'w \<Rightarrow> TLSConfig \<Rightarrow> 'c \<Rightarrow> string option \<times> 'w"

record ('w, 'c) dial_config =
  DialContext :: "('w, 'c) dialer option"
  UseTLS :: bool
  TLS_Config :: "TLSConfig option"

text \<open>\<open>net.SplitHostPort\<close>: the port is behind the last colon; a host with colons is in brackets.\<close>

definition SplitHostPort :: "string \<Rightarrow> (string \<times> string) option" where
  "SplitHostPort hostport =
    (case LastIndexByte hostport (CHR '':'') of
       None \<Rightarrow> None
     | Some i \<Rightarrow>
         let port = drop (i + 1) hostport in
         if hostport ! 0 = CHR ''['' then
           (case IndexByte hostport (CHR '']'') of
              None \<Rightarrow> None
            | Some close \<Rightarrow>
                if close + 1 \<noteq> i then None
                else if IndexByte (drop 1 hostport) (CHR ''['') \<noteq> None then None
                else if IndexByte (drop (close + 1) hostport) (CHR '']'') \<noteq> None then None
                else Some (drop 1 (take close hostport), port))
         else
           if IndexByte (take i hostport) (CHR '':'') \<noteq> None then None
           else if IndexByte hostport (CHR ''['') \<noteq> None then None
           else if IndexByte hostport (CHR '']'') \<noteq> None then None
           else Some (take i hostport, port))"

definition tls_name :: "string \<Rightarrow> string" where
  "tls_name server = (case SplitHostPort server of Some (host, _) \<Rightarrow> host | None \<Rightarrow> server)"

definition tls_config :: "string \<Rightarrow> TLSConfig option \<Rightarrow> TLSConfig" where
  "tls_config server cfg =
    (let c = (case cfg of None \<Rightarrow> \<lparr>ServerName = [], InsecureSkipVerify = False\<rparr> | Some c \<Rightarrow> c)
     in if ServerName c = [] \<and> \<not> InsecureSkipVerify c then c\<lparr>ServerName := tls_name server\<rparr> else c)"

text \<open>A socket: the TCP connection, or TLS with the configuration of its handshake.\<close>

datatype 'c dialed_socket = TCPSocket 'c | TLSSocket TLSConfig 'c

text \<open>
  The result, the TCP connection closed if there is one, the configuration as it is left (the code writes to the
  client's own \<open>tls.Config\<close>), and the state of the network.
\<close>

definition dial :: "('w, 'c) dialer \<Rightarrow> ('w, 'c) tls_handshake \<Rightarrow> string \<Rightarrow> ('w, 'c) dial_config \<Rightarrow> 'w
    \<Rightarrow> (string + 'c dialed_socket) \<times> 'c option \<times> ('w, 'c) dial_config \<times> 'w" where
  "dial netDialer handshake server cfg w =
    (let dialContext = (case DialContext cfg of None \<Rightarrow> netDialer | Some d \<Rightarrow> d);
         cfg1 = cfg\<lparr>DialContext := Some dialContext\<rparr>
     in case dialContext w ''tcp'' server of
          (Inl err, w1) \<Rightarrow> (Inl err, None, cfg1, w1)
        | (Inr sock, w1) \<Rightarrow>
            if \<not> UseTLS cfg1 then (Inr (TCPSocket sock), None, cfg1, w1)
            else
              let c = tls_config server (TLS_Config cfg1);
                  cfg2 = cfg1\<lparr>TLS_Config := Some c\<rparr>
              in case handshake w1 c sock of
                   (Some err, w2) \<Rightarrow> (Inl err, Some sock, cfg2, w2)
                 | (None, w2) \<Rightarrow> (Inr (TLSSocket c sock), None, cfg2, w2))"

text \<open>Successive calls, one for each connection and reconnection.\<close>

fun dials :: "('w, 'c) dialer \<Rightarrow> ('w, 'c) tls_handshake \<Rightarrow> string list \<Rightarrow> ('w, 'c) dial_config \<Rightarrow> 'w
    \<Rightarrow> (string + 'c dialed_socket) list" where
  "dials netDialer handshake [] cfg w = []"
| "dials netDialer handshake (server # servers) cfg w =
    (case dial netDialer handshake server cfg w of
       (r, _, cfg1, w1) \<Rightarrow> r # dials netDialer handshake servers cfg1 w1)"

subsection \<open>Host and port\<close>

lemma LastIndexByte_append: "c \<notin> set b \<Longrightarrow> LastIndexByte (a @ c # b) c = Some (length a)"
  using IndexByte_append [of c "rev b" "rev a"] by (simp add: LastIndexByte_def)

definition unbracketed :: "string \<Rightarrow> bool" where
  "unbracketed s \<longleftrightarrow> CHR ''['' \<notin> set s \<and> CHR '']'' \<notin> set s"

lemma SplitHostPort_name:
  assumes "CHR '':'' \<notin> set host" "CHR '':'' \<notin> set port" "unbracketed host" "unbracketed port" "host \<noteq> []"
  shows "SplitHostPort (host @ '':'' @ port) = Some (host, port)"
proof -
  have "(host @ CHR '':'' # port) ! 0 \<noteq> CHR ''[''" using assms(3,5) by (cases host) (auto simp: unbracketed_def)
  with assms LastIndexByte_append [of "CHR '':''" port host] show ?thesis
    by (simp add: SplitHostPort_def unbracketed_def)
qed

text \<open>An IPv6 address is written in brackets.\<close>

lemma SplitHostPort_address:
  assumes "CHR '':'' \<notin> set port" "unbracketed host" "unbracketed port"
  shows "SplitHostPort (''['' @ host @ '']:'' @ port) = Some (host, port)"
proof -
  have l: "LastIndexByte (CHR ''['' # host @ CHR '']'' # CHR '':'' # port) (CHR '':'') = Some (length host + 2)"
    using LastIndexByte_append [of "CHR '':''" port "CHR ''['' # host @ [CHR '']'']"] assms(1) by simp
  have r: "IndexByte (CHR ''['' # host @ CHR '']'' # CHR '':'' # port) (CHR '']'') = Some (length host + 1)"
    using IndexByte_append [of "CHR '']''" "CHR ''['' # host" "CHR '':'' # port"] assms(2) by (simp add: unbracketed_def)
  from assms show ?thesis
    by (simp add: SplitHostPort_def l r unbracketed_def del: IndexByte.simps)
qed

subsection \<open>The name that is verified\<close>

text \<open>The client has left the verification to the library, or the library has filled in the name \<open>n\<close>.\<close>

definition verifies :: "('w, 'c) dial_config \<Rightarrow> string \<Rightarrow> bool" where
  "verifies cfg n \<longleftrightarrow> UseTLS cfg \<and> (\<forall>c. TLS_Config cfg = Some c \<longrightarrow> \<not> InsecureSkipVerify c \<and> ServerName c = n)"

definition verified :: "string + 'c dialed_socket \<Rightarrow> string \<Rightarrow> bool" where
  "verified r n \<longleftrightarrow> (case r of
     Inl _ \<Rightarrow> True
   | Inr (TCPSocket _) \<Rightarrow> False
   | Inr (TLSSocket c _) \<Rightarrow> \<not> InsecureSkipVerify c \<and> ServerName c = n)"

lemma dial_named:
  assumes "dial netDialer handshake server cfg w = (r, x, cfg', w')" "TLS_Config cfg \<noteq> None" "verifies cfg n" "n \<noteq> []"
  shows "verified r n \<and> verifies cfg' n \<and> TLS_Config cfg' \<noteq> None"
  using assms
  by (auto simp: dial_def verifies_def verified_def tls_config_def Let_def split: option.splits sum.splits prod.splits if_splits)

lemma dials_named:
  "TLS_Config cfg \<noteq> None \<Longrightarrow> verifies cfg n \<Longrightarrow> n \<noteq> [] \<Longrightarrow>
    r \<in> set (dials netDialer handshake servers cfg w) \<Longrightarrow> verified r n"
proof (induction servers arbitrary: cfg w)
  case (Cons server servers)
  obtain r1 x cfg1 w1 where d: "dial netDialer handshake server cfg w = (r1, x, cfg1, w1)" by (metis prod_cases4)
  from dial_named [OF d Cons.prems(1-3)] Cons.prems(3,4) Cons.IH [of cfg1 w1] show ?case by (auto simp: d)
qed simp

lemma dial_fresh:
  assumes "dial netDialer handshake server cfg w = (r, x, cfg', w')" "verifies cfg []" "tls_name server \<noteq> []"
  shows "(\<exists>err. r = Inl err \<and> verifies cfg' []) \<or>
    verified r (tls_name server) \<and> verifies cfg' (tls_name server) \<and> TLS_Config cfg' \<noteq> None"
  using assms
  by (auto simp: dial_def verifies_def verified_def tls_config_def Let_def split: option.splits sum.splits prod.splits if_splits)

lemma dials_fresh:
  "verifies cfg [] \<Longrightarrow> \<forall>server\<in>set servers. tls_name server \<noteq> [] \<Longrightarrow> servers \<noteq> [] \<Longrightarrow>
    \<exists>server\<in>set servers. \<forall>r\<in>set (dials netDialer handshake servers cfg w). verified r (tls_name server)"
proof (induction servers arbitrary: cfg w)
  case (Cons server servers)
  obtain r x cfg1 w1 where d: "dial netDialer handshake server cfg w = (r, x, cfg1, w1)" by (metis prod_cases4)
  from dial_fresh [OF d Cons.prems(1)] Cons.prems(2) consider
      (refused) err where "r = Inl err" "verifies cfg1 []"
    | (named) "verified r (tls_name server)" "verifies cfg1 (tls_name server)" "TLS_Config cfg1 \<noteq> None" by auto
  then show ?case
  proof cases
    case refused
    then have "verified r n" for n by (simp add: verified_def)
    with refused Cons.IH [OF refused(2), of w1] Cons.prems(2) show ?thesis
      by (cases "servers = []") (auto simp: d)
  next
    case named
    with dials_named [OF named(3,2)] Cons.prems(2) show ?thesis by (auto simp: d)
  qed
qed simp

subsection \<open>Properties\<close>


text \<open>A network on which every connection and every handshake succeeds.\<close>

definition open_dialer :: "(nat, nat) dialer" where
  "open_dialer w network address = (Inr w, w + 1)"

definition open_handshake :: "(nat, nat) tls_handshake" where
  "open_handshake w c k = (None, w)"

definition tls_only :: "(nat, nat) dial_config" where
  "tls_only = \<lparr>DialContext = None, UseTLS = True, TLS_Config = None\<rparr>"

lemma SplitHostPort_example:
  "SplitHostPort ''a.net:6697'' = Some (''a.net'', ''6697'')" "SplitHostPort ''b.net:6697'' = Some (''b.net'', ''6697'')"
  by (simp_all add: SplitHostPort_def LastIndexByte_def)


text \<open>
  The name stays when the server changes: \<open>dial\<close> has written it into the client's configuration, and a connection
  to another host is verified against the name of the first.
\<close>

lemma dial_name_sticks:
  "map (\<lambda>r. case r of Inr (TLSSocket c _) \<Rightarrow> Some (ServerName c) | _ \<Rightarrow> None)
     (dials open_dialer open_handshake [''a.net:6697'', ''b.net:6697''] tls_only 0) = [Some ''a.net'', Some ''a.net'']"
  by (simp add: dial_def open_dialer_def open_handshake_def tls_only_def tls_config_def tls_name_def SplitHostPort_example Let_def)

end
