(* ===== verification/Event_Labeled.thy ===== *)
theory Event_Labeled
  imports Event_Batch
begin

text \<open>
  \<open>GetLabeledResponse\<close> of \<^verbatim>\<open>ircevent/irc.go\<close>: a labeled send whose function stores the response and closes a
  channel, on which the caller waits. Each call has a response of its own, named by a number, which also
  stands for its function in the table of labels.
\<close>

subsection \<open>The code\<close>

text \<open>The variables \<open>batch\<close> and \<open>done\<close> of a call.\<close>

record response =
  resp_batch :: "addr option"
  resp_done :: chan_state

definition new_response :: response where
  "new_response = \<lparr>resp_batch = None, resp_done = OpenChan\<rparr>"

text \<open>The function passed to \<open>SendWithLabel\<close>; a second call would close the channel again and panic.\<close>

definition response_callback :: "addr option \<Rightarrow> response \<Rightarrow> response go" where
  "response_callback b r = do { d \<leftarrow> close_chan (resp_done r); Some (r\<lparr>resp_batch := b, resp_done := d\<rparr>) }"

text \<open>The call up to the wait, and its result once it no longer waits (\<open>None\<close>: it still does).\<close>

definition GetLabeledResponse :: "int \<Rightarrow> nat \<Rightarrow> (string \<times> string) list \<Rightarrow> (string \<times> string) list \<Rightarrow> (string \<times> string) list
    \<Rightarrow> string \<Rightarrow> string list \<Rightarrow> (('u, 'b, nat) Connection, event_error option) act" where
  "GetLabeledResponse now r tagList tord cord command params = SendWithLabel now r tagList tord cord command params"

definition labeled_result :: "event_error option \<Rightarrow> response \<Rightarrow> (addr option \<times> event_error option) option" where
  "labeled_result err r =
    (if err \<noteq> None then Some (None, err)
     else if resp_done r \<noteq> ClosedChan then None
     else Some (resp_batch r, if resp_batch r = None then Some NoLabeledResponse else None))"

text \<open>The calls of the functions, in order, on the responses.\<close>

fun respond :: "(nat \<times> addr option) list \<Rightarrow> (nat \<Rightarrow> response) \<Rightarrow> (nat \<Rightarrow> response) go" where
  "respond [] rs = Some rs"
| "respond ((r, b) # calls) rs = do { v \<leftarrow> response_callback b (rs r); respond calls (rs(r := v)) }"

subsection \<open>Properties\<close>

lemma respond_distinct:
  assumes "distinct (map fst calls)" "\<forall>r\<in>set (map fst calls). resp_done (rs r) = OpenChan"
  shows "\<exists>rs'. respond calls rs = Some rs' \<and>
    (\<forall>r. rs' r = (case map_of calls r of None \<Rightarrow> rs r | Some b \<Rightarrow> (rs r)\<lparr>resp_batch := b, resp_done := ClosedChan\<rparr>))"
  using assms
proof (induction calls arbitrary: rs)
  case (Cons call calls)
  obtain r b where c: "call = (r, b)" by fastforce
  let ?v = "(rs r)\<lparr>resp_batch := b, resp_done := ClosedChan\<rparr>"
  have s: "response_callback b (rs r) = Some ?v"
    using Cons.prems(2) by (simp add: c response_callback_def close_chan_def)
  have "r \<notin> set (map fst calls)" using Cons.prems(1) by (simp add: c)
  then have "map_of calls r = None" by (simp add: map_of_eq_None_iff)
  moreover have "\<forall>x\<in>set (map fst calls). resp_done ((rs(r := ?v)) x) = OpenChan"
    using Cons.prems \<open>r \<notin> set (map fst calls)\<close> by (auto simp: c)
  ultimately show ?case using Cons.IH [of "rs(r := ?v)"] Cons.prems(1) s by (fastforce simp: c split: option.split)
qed simp



end
