(* ===== verification/Event_Numerics.thy ===== *)
theory Event_Numerics
  imports Event_Handlers
begin

text \<open>
  \<^verbatim>\<open>ircevent/numerics.go\<close>: the names of the numeric replies, in the order of the file, and which of them the
  package registers handlers for.
\<close>

definition numerics :: "(string \<times> string) list" where
  "numerics =
    [(''RPL_WELCOME'', ''001''), (''RPL_YOURHOST'', ''002''), (''RPL_CREATED'', ''003''),
     (''RPL_MYINFO'', ''004''), (''RPL_ISUPPORT'', ''005''), (''RPL_SNOMASKIS'', ''008''),
     (''RPL_BOUNCE'', ''010''), (''RPL_TRACELINK'', ''200''), (''RPL_TRACECONNECTING'', ''201''),
     (''RPL_TRACEHANDSHAKE'', ''202''), (''RPL_TRACEUNKNOWN'', ''203''), (''RPL_TRACEOPERATOR'', ''204''),
     (''RPL_TRACEUSER'', ''205''), (''RPL_TRACESERVER'', ''206''), (''RPL_TRACESERVICE'', ''207''),
     (''RPL_TRACENEWTYPE'', ''208''), (''RPL_TRACECLASS'', ''209''), (''RPL_TRACERECONNECT'', ''210''),
     (''RPL_STATSLINKINFO'', ''211''), (''RPL_STATSCOMMANDS'', ''212''), (''RPL_ENDOFSTATS'', ''219''),
     (''RPL_UMODEIS'', ''221''), (''RPL_SERVLIST'', ''234''), (''RPL_SERVLISTEND'', ''235''),
     (''RPL_STATSUPTIME'', ''242''), (''RPL_STATSOLINE'', ''243''), (''RPL_LUSERCLIENT'', ''251''),
     (''RPL_LUSEROP'', ''252''), (''RPL_LUSERUNKNOWN'', ''253''), (''RPL_LUSERCHANNELS'', ''254''),
     (''RPL_LUSERME'', ''255''), (''RPL_ADMINME'', ''256''), (''RPL_ADMINLOC1'', ''257''),
     (''RPL_ADMINLOC2'', ''258''), (''RPL_ADMINEMAIL'', ''259''), (''RPL_TRACELOG'', ''261''),
     (''RPL_TRACEEND'', ''262''), (''RPL_TRYAGAIN'', ''263''), (''RPL_LOCALUSERS'', ''265''),
     (''RPL_GLOBALUSERS'', ''266''), (''RPL_WHOISCERTFP'', ''276''), (''RPL_AWAY'', ''301''),
     (''RPL_USERHOST'', ''302''), (''RPL_ISON'', ''303''), (''RPL_UNAWAY'', ''305''),
     (''RPL_NOWAWAY'', ''306''), (''RPL_WHOISUSER'', ''311''), (''RPL_WHOISSERVER'', ''312''),
     (''RPL_WHOISOPERATOR'', ''313''), (''RPL_WHOWASUSER'', ''314''), (''RPL_ENDOFWHO'', ''315''),
     (''RPL_WHOISIDLE'', ''317''), (''RPL_ENDOFWHOIS'', ''318''), (''RPL_WHOISCHANNELS'', ''319''),
     (''RPL_LIST'', ''322''), (''RPL_LISTEND'', ''323''), (''RPL_CHANNELMODEIS'', ''324''),
     (''RPL_UNIQOPIS'', ''325''), (''RPL_CREATIONTIME'', ''329''), (''RPL_WHOISACCOUNT'', ''330''),
     (''RPL_NOTOPIC'', ''331''), (''RPL_TOPIC'', ''332''), (''RPL_TOPICTIME'', ''333''),
     (''RPL_WHOISBOT'', ''335''), (''RPL_WHOISACTUALLY'', ''338''), (''RPL_INVITING'', ''341''),
     (''RPL_SUMMONING'', ''342''), (''RPL_INVITELIST'', ''346''), (''RPL_ENDOFINVITELIST'', ''347''),
     (''RPL_EXCEPTLIST'', ''348''), (''RPL_ENDOFEXCEPTLIST'', ''349''), (''RPL_VERSION'', ''351''),
     (''RPL_WHOREPLY'', ''352''), (''RPL_NAMREPLY'', ''353''), (''RPL_WHOSPCRPL'', ''354''),
     (''RPL_LINKS'', ''364''), (''RPL_ENDOFLINKS'', ''365''), (''RPL_ENDOFNAMES'', ''366''),
     (''RPL_BANLIST'', ''367''), (''RPL_ENDOFBANLIST'', ''368''), (''RPL_ENDOFWHOWAS'', ''369''),
     (''RPL_INFO'', ''371''), (''RPL_MOTD'', ''372''), (''RPL_ENDOFINFO'', ''374''),
     (''RPL_MOTDSTART'', ''375''), (''RPL_ENDOFMOTD'', ''376''), (''RPL_WHOISMODES'', ''379''),
     (''RPL_YOUREOPER'', ''381''), (''RPL_REHASHING'', ''382''), (''RPL_YOURESERVICE'', ''383''),
     (''RPL_TIME'', ''391''), (''RPL_USERSSTART'', ''392''), (''RPL_USERS'', ''393''),
     (''RPL_ENDOFUSERS'', ''394''), (''RPL_NOUSERS'', ''395''), (''ERR_UNKNOWNERROR'', ''400''),
     (''ERR_NOSUCHNICK'', ''401''), (''ERR_NOSUCHSERVER'', ''402''), (''ERR_NOSUCHCHANNEL'', ''403''),
     (''ERR_CANNOTSENDTOCHAN'', ''404''), (''ERR_TOOMANYCHANNELS'', ''405''), (''ERR_WASNOSUCHNICK'', ''406''),
     (''ERR_TOOMANYTARGETS'', ''407''), (''ERR_NOSUCHSERVICE'', ''408''), (''ERR_NOORIGIN'', ''409''),
     (''ERR_NORECIPIENT'', ''411''), (''ERR_NOTEXTTOSEND'', ''412''), (''ERR_NOTOPLEVEL'', ''413''),
     (''ERR_WILDTOPLEVEL'', ''414''), (''ERR_BADMASK'', ''415''), (''ERR_INPUTTOOLONG'', ''417''),
     (''ERR_UNKNOWNCOMMAND'', ''421''), (''ERR_NOMOTD'', ''422''), (''ERR_NOADMININFO'', ''423''),
     (''ERR_FILEERROR'', ''424''), (''ERR_NONICKNAMEGIVEN'', ''431''), (''ERR_ERRONEUSNICKNAME'', ''432''),
     (''ERR_NICKNAMEINUSE'', ''433''), (''ERR_NICKCOLLISION'', ''436''), (''ERR_UNAVAILRESOURCE'', ''437''),
     (''ERR_USERNOTINCHANNEL'', ''441''), (''ERR_NOTONCHANNEL'', ''442''), (''ERR_USERONCHANNEL'', ''443''),
     (''ERR_NOLOGIN'', ''444''), (''ERR_SUMMONDISABLED'', ''445''), (''ERR_USERSDISABLED'', ''446''),
     (''ERR_NOTREGISTERED'', ''451''), (''ERR_NEEDMOREPARAMS'', ''461''), (''ERR_ALREADYREGISTRED'', ''462''),
     (''ERR_NOPERMFORHOST'', ''463''), (''ERR_PASSWDMISMATCH'', ''464''), (''ERR_YOUREBANNEDCREEP'', ''465''),
     (''ERR_YOUWILLBEBANNED'', ''466''), (''ERR_KEYSET'', ''467''), (''ERR_INVALIDUSERNAME'', ''468''),
     (''ERR_LINKCHANNEL'', ''470''), (''ERR_CHANNELISFULL'', ''471''), (''ERR_UNKNOWNMODE'', ''472''),
     (''ERR_INVITEONLYCHAN'', ''473''), (''ERR_BANNEDFROMCHAN'', ''474''), (''ERR_BADCHANNELKEY'', ''475''),
     (''ERR_BADCHANMASK'', ''476''), (''ERR_NEEDREGGEDNICK'', ''477''), (''ERR_BANLISTFULL'', ''478''),
     (''ERR_NOPRIVILEGES'', ''481''), (''ERR_CHANOPRIVSNEEDED'', ''482''), (''ERR_CANTKILLSERVER'', ''483''),
     (''ERR_RESTRICTED'', ''484''), (''ERR_UNIQOPPRIVSNEEDED'', ''485''), (''ERR_NOOPERHOST'', ''491''),
     (''ERR_UMODEUNKNOWNFLAG'', ''501''), (''ERR_USERSDONTMATCH'', ''502''), (''ERR_HELPNOTFOUND'', ''524''),
     (''ERR_CANNOTSENDRP'', ''573''), (''RPL_WHOWASIP'', ''652''), (''RPL_WHOISSECURE'', ''671''),
     (''ERR_INVALIDMODEPARAM'', ''696''), (''ERR_LISTMODEALREADYSET'', ''697''), (''ERR_LISTMODENOTSET'', ''698''),
     (''RPL_HELPSTART'', ''704''), (''RPL_HELPTXT'', ''705''), (''RPL_ENDOFHELP'', ''706''),
     (''ERR_NOPRIVS'', ''723''), (''RPL_MONONLINE'', ''730''), (''RPL_MONOFFLINE'', ''731''),
     (''RPL_MONLIST'', ''732''), (''RPL_ENDOFMONLIST'', ''733''), (''ERR_MONLISTFULL'', ''734''),
     (''RPL_LOGGEDIN'', ''900''), (''RPL_LOGGEDOUT'', ''901''), (''ERR_NICKLOCKED'', ''902''),
     (''RPL_SASLSUCCESS'', ''903''), (''ERR_SASLFAIL'', ''904''), (''ERR_SASLTOOLONG'', ''905''),
     (''ERR_SASLABORTED'', ''906''), (''ERR_SASLALREADY'', ''907''), (''RPL_SASLMECHS'', ''908'')]"

definition numeric :: "string \<Rightarrow> string" where
  "numeric name = the (map_of numerics name)"

text \<open>
  Every code has three digits, and they are listed in increasing order: no code has two names.
\<close>

lemma numerics_codes: "list_all (\<lambda>(_, c). length c = 3 \<and> list_all (\<lambda>d. d \<in> set ''0123456789'') c) numerics"
  by (simp add: numerics_def)

definition code_value :: "string \<Rightarrow> nat" where
  "code_value c = foldl (\<lambda>n d. 10 * n + (of_char d - 48)) 0 c"

lemma numerics_successive: "successively (<) (map (\<lambda>(_, c). code_value c) numerics)"
  by (simp add: numerics_def code_value_def)

lemma numerics_increasing: "sorted_wrt (<) (map (\<lambda>(_, c). code_value c) numerics)"
  using numerics_successive by (simp add: successively_conv_sorted_wrt transp_def)

lemma numerics_distinct: "distinct (map snd numerics)"
proof -
  have "map (\<lambda>(_, c). code_value c) numerics = map code_value (map snd numerics)" by auto
  then have "distinct (map code_value (map snd numerics))"
    using numerics_increasing by (metis strict_sorted_iff)
  then show ?thesis by (simp only: distinct_map)
qed

text \<open>The numeric names under which \<open>setupCallbacks\<close> and \<open>setupSASLCallbacks\<close> register, in their order.\<close>

lemma handled_numerics:
  "numeric ''ERR_NICKNAMEINUSE'' = ''433''" "numeric ''ERR_UNAVAILRESOURCE'' = ''437''"
  "numeric ''RPL_WELCOME'' = ''001''" "numeric ''RPL_ISUPPORT'' = ''005''"
  "numeric ''RPL_ENDOFMOTD'' = ''376''" "numeric ''ERR_NOMOTD'' = ''422''"
  "numeric ''RPL_LOGGEDOUT'' = ''901''" "numeric ''ERR_NICKLOCKED'' = ''902''"
  "numeric ''RPL_SASLSUCCESS'' = ''903''" "numeric ''ERR_SASLFAIL'' = ''904''"
  "numeric ''ERR_SASLALREADY'' = ''907''"
  by code_simp+

lemma base_callbacks_numeric:
  "map fst base_callbacks =
    [''PING'', ''PONG'', numeric ''ERR_NICKNAMEINUSE'', numeric ''ERR_UNAVAILRESOURCE'', numeric ''RPL_WELCOME'',
     numeric ''RPL_ISUPPORT'', ''NICK'', ''ERROR'', ''CAP'']"
  by (simp add: base_callbacks_def handled_numerics)

lemma sasl_callbacks_numeric:
  "map fst sasl_callbacks =
    [''AUTHENTICATE'', numeric ''RPL_LOGGEDOUT'', numeric ''ERR_NICKLOCKED'', numeric ''RPL_SASLSUCCESS'',
     numeric ''ERR_SASLFAIL'', numeric ''ERR_SASLALREADY'']"
  by (simp add: sasl_callbacks_def handled_numerics)

end
