(* ===== verification/Event_Label_Race.thy ===== *)
theory Event_Label_Race
  imports Event_Labeled Event_Lifecycle
begin

text \<open>
  \<open>SendWithLabel\<close> of \<^verbatim>\<open>ircevent/irc.go\<close>, critical section by critical section: the label is registered, the
  message is sent, and the label is taken back if that failed. Other calls, received lines and expiry come in
  between. Then what happens when a reconnection does.
\<close>

subsection \<open>The code\<close>

text \<open>The call up to the send: the message, with its label.\<close>

definition label_prepare :: "int \<Rightarrow> 'l \<Rightarrow> (string \<times> string) list \<Rightarrow> string \<Rightarrow> string list \<Rightarrow> ('u, 'b, 'l) Connection
    \<Rightarrow> (event_error + string \<times> Message) \<times> ('u, 'b, 'l) Connection" where
  "label_prepare now callback tagList command params irc =
    (if \<not> labelNegotiated irc then (Inl CapabilityNotNegotiated, irc)
     else
       let (label, irc1) = registerLabel now callback irc
       in (Inr (label, SetTag (MakeMessage tagList [] command params) ''label'' label), irc1))"

text \<open>What it does with the result of the send.\<close>

definition label_finish :: "string \<Rightarrow> event_error option \<Rightarrow> ('u, 'b, 'l) Connection \<Rightarrow> ('u, 'b, 'l) Connection" where
  "label_finish label err irc = (if err \<noteq> None then unregisterLabel label irc else irc)"

lemma SendWithLabel_sections:
  "SendWithLabel now callback tagList tord cord command params irc =
    (case label_prepare now callback tagList command params irc of
       (Inl err, irc1) \<Rightarrow> (Some (Some err), irc1)
     | (Inr (label, msg), irc1) \<Rightarrow>
         (case SendIRCMessage msg tord cord irc1 of
            (None, irc2) \<Rightarrow> (None, irc2)
          | (Some err, irc2) \<Rightarrow> (Some err, label_finish label err irc2)))"
  by (auto simp: SendWithLabel_def label_prepare_def label_finish_def Let_def case_prod_unfold split: option.split)

subsection \<open>Interleaved calls\<close>

text \<open>
  \<open>flight\<close> are the calls between registration and end, each with its label and function; the lists are the
  functions of the calls that were sent, of those that failed, and the functions called, in order.
\<close>

record 'l race =
  flight :: "(64 word \<times> 'l) list"
  sent :: "'l list"
  failed :: "'l list"
  called :: "'l list"

inductive label_race :: "('u, 'b, 'l) Connection \<Rightarrow> 'l race \<Rightarrow> bool" where
  connected: "labelCallbacks irc = Map.empty \<Longrightarrow> label_race irc \<lparr>flight = [], sent = [], failed = [], called = []\<rparr>"
| prepared: "label_race irc r \<Longrightarrow> labelCounter irc + 1 \<noteq> 0 \<Longrightarrow>
    label_prepare now cb tagList command params irc = (Inr (serializeLabel label, msg), irc') \<Longrightarrow>
    label_race irc' (r\<lparr>flight := (label, cb) # flight r\<rparr>)"
| succeeded: "label_race irc r \<Longrightarrow> flight r = before @ (label, cb) # after \<Longrightarrow>
    label_race (label_finish (serializeLabel label) None irc) (r\<lparr>flight := before @ after, sent := sent r @ [cb]\<rparr>)"
| broken: "label_race irc r \<Longrightarrow> flight r = before @ (label, cb) # after \<Longrightarrow>
    label_race (label_finish (serializeLabel label) (Some err) irc) (r\<lparr>flight := before @ after, failed := failed r @ [cb]\<rparr>)"
| received: "label_race irc r \<Longrightarrow> route now msg irc = (CallLabel cb b, irc') \<Longrightarrow>
    label_race irc' (r\<lparr>called := called r @ [cb]\<rparr>)"
| received_other: "label_race irc r \<Longrightarrow> route now msg irc = (eff, irc') \<Longrightarrow> (\<nexists>cb b. eff = CallLabel cb b) \<Longrightarrow>
    label_race irc' r"
| expired: "label_race irc r \<Longrightarrow> distinct order \<Longrightarrow> set order = dom (labelCallbacks irc) \<Longrightarrow>
    expireBatches force now order irc = (cbs, irc') \<Longrightarrow> label_race irc' (r\<lparr>called := called r @ cbs\<rparr>)"
| elsewhere: "label_race irc r \<Longrightarrow> labelCallbacks irc' = labelCallbacks irc \<Longrightarrow> labelCounter irc' = labelCounter irc \<Longrightarrow>
    label_race irc' r"

text \<open>Every registration is accounted for: its function has been called, is pending, or was withdrawn by a call that failed.\<close>

definition accounted :: "('u, 'b, 'l) Connection \<Rightarrow> 'l race \<Rightarrow> bool" where
  "accounted irc r \<longleftrightarrow> (\<exists>withdrawn. withdrawn \<subseteq># mset (failed r) \<and>
    mset (map snd (flight r)) + mset (sent r) + mset (failed r) =
      mset (called r) + pending_callbacks (labelCallbacks irc) + withdrawn)"

definition flight_ok :: "('u, 'b, 'l) Connection \<Rightarrow> 'l race \<Rightarrow> bool" where
  "flight_ok irc r \<longleftrightarrow> distinct (map fst (flight r)) \<and>
    (\<forall>label cb. (label, cb) \<in> set (flight r) \<longrightarrow> label \<noteq> 0 \<and> label \<le> labelCounter irc \<and>
      (\<forall>lc. labelCallbacks irc label = Some lc \<longrightarrow> pl_callback lc = cb))"

definition race_inv :: "('u, 'b, 'l) Connection \<Rightarrow> 'l race \<Rightarrow> bool" where
  "race_inv irc r \<longleftrightarrow> labels_inv irc \<and> accounted irc r \<and> flight_ok irc r"

lemma race_inv_frame:
  "labelCallbacks irc' = labelCallbacks irc \<Longrightarrow> labelCounter irc' = labelCounter irc \<Longrightarrow> race_inv irc r \<Longrightarrow> race_inv irc' r"
  by (simp add: race_inv_def accounted_def flight_ok_def labels_inv_def)

lemma map_le_SomeD: "m \<subseteq>\<^sub>m m' \<Longrightarrow> m l = Some x \<Longrightarrow> m' l = Some x"
  by (metis domI map_le_def)

text \<open>Entries taken out of the table leave the calls in flight as they are.\<close>

lemma flight_ok_le:
  assumes "flight_ok irc r" "labelCallbacks irc' \<subseteq>\<^sub>m labelCallbacks irc" "labelCounter irc' = labelCounter irc"
    "distinct (map fst (flight r'))" "set (flight r') \<subseteq> set (flight r)"
  shows "flight_ok irc' r'"
proof -
  have "label \<noteq> 0 \<and> label \<le> labelCounter irc' \<and> (\<forall>lc. labelCallbacks irc' label = Some lc \<longrightarrow> pl_callback lc = cb)"
    if "(label, cb) \<in> set (flight r')" for label cb
  proof -
    have "(label, cb) \<in> set (flight r)" using that assms(5) by blast
    with assms(1) have "label \<noteq> 0" "label \<le> labelCounter irc" "labelCallbacks irc label = Some lc \<Longrightarrow> pl_callback lc = cb" for lc
      by (auto simp: flight_ok_def)
    with map_le_SomeD [OF assms(2), of label] assms(3) show ?thesis by simp
  qed
  with assms(4) show ?thesis by (simp add: flight_ok_def)
qed

lemma race_inv_called:
  assumes "race_inv irc r" "labelCallbacks irc' \<subseteq>\<^sub>m labelCallbacks irc" "labelCounter irc' = labelCounter irc"
    "pending_callbacks (labelCallbacks irc) = mset cbs + pending_callbacks (labelCallbacks irc')"
  shows "race_inv irc' (r\<lparr>called := called r @ cbs\<rparr>)"
proof -
  have "accounted irc' (r\<lparr>called := called r @ cbs\<rparr>)"
    using assms(1) by (simp add: race_inv_def accounted_def assms(4) ac_simps)
  moreover have "flight_ok irc' (r\<lparr>called := called r @ cbs\<rparr>)"
    by (rule flight_ok_le [OF _ assms(2,3), of r]) (use assms(1) in \<open>simp_all add: race_inv_def flight_ok_def\<close>)
  moreover have "labels_inv irc'" using labels_inv_shrink [OF _ assms(3,2)] assms(1) by (simp add: race_inv_def)
  ultimately show ?thesis by (simp add: race_inv_def)
qed

lemma label_prepare_cases:
  assumes "label_prepare now cb tagList command params irc = (Inr (serializeLabel label, msg), irc')"
  shows "label = labelCounter irc + 1" "labelCounter irc' = label"
    "labelCallbacks irc' = (labelCallbacks irc)(label \<mapsto> \<lparr>pl_createdAt = now, pl_callback = cb\<rparr>)"
    "msg = SetTag (MakeMessage tagList [] command params) ''label'' (serializeLabel label)"
proof -
  have l: "serializeLabel (labelCounter irc + 1) = serializeLabel label"
    using assms by (auto simp: label_prepare_def registerLabel_def Let_def split: if_splits)
  from arg_cong [OF this, of deserializeLabel] show n: "label = labelCounter irc + 1"
    by (simp add: label_inverse)
  from assms show "labelCounter irc' = label"
    "labelCallbacks irc' = (labelCallbacks irc)(label \<mapsto> \<lparr>pl_createdAt = now, pl_callback = cb\<rparr>)"
    "msg = SetTag (MakeMessage tagList [] command params) ''label'' (serializeLabel label)"
    by (auto simp: n label_prepare_def registerLabel_def Let_def split: if_splits)
qed

lemma race_inv_prepared:
  assumes "race_inv irc r" "labelCounter irc + 1 \<noteq> 0"
    "label_prepare now cb tagList command params irc = (Inr (serializeLabel label, msg), irc')"
  shows "race_inv irc' (r\<lparr>flight := (label, cb) # flight r\<rparr>)"
proof -
  note c = label_prepare_cases [OF assms(3)]
  have inv: "labels_inv irc" and ok: "flight_ok irc r" using assms(1) by (simp_all add: race_inv_def)
  have less: "labelCounter irc < label" and n: "label \<noteq> 0" using assms(2) unfolding c(1) by (unat_arith, simp)
  have fresh: "labelCallbacks irc label = None"
    using next_label_fresh [OF inv assms(2)] by (simp add: c(1))
  have "pending_callbacks (labelCallbacks irc') = add_mset cb (pending_callbacks (labelCallbacks irc))"
    using pending_insert [of "labelCallbacks irc" label] fresh inv unfolding c(3) by (simp add: labels_inv_def)
  then have "accounted irc' (r\<lparr>flight := (label, cb) # flight r\<rparr>)"
    using assms(1) by (simp add: race_inv_def accounted_def)
  moreover have "\<forall>l\<in>dom (labelCallbacks irc). l \<noteq> 0 \<and> l \<le> label"
    using inv less unfolding labels_inv_def by (meson less_imp_le order_trans)
  then have "labels_inv irc'" using inv n unfolding labels_inv_def c(3) c(2) by simp
  moreover have "flight_ok irc' (r\<lparr>flight := (label, cb) # flight r\<rparr>)"
  proof -
    have old: "l \<noteq> 0" "l < label" "labelCallbacks irc l = Some lc \<Longrightarrow> pl_callback lc = f"
      if "(l, f) \<in> set (flight r)" for l f lc
      using ok that less by (auto simp: flight_ok_def intro: le_less_trans)
    then have new: "label \<notin> fst ` set (flight r)" by force
    have "l \<noteq> 0 \<and> l \<le> label \<and> (\<forall>lc. labelCallbacks irc' l = Some lc \<longrightarrow> pl_callback lc = f)"
      if "(l, f) \<in> set ((label, cb) # flight r)" for l f
    proof (cases "(l, f) = (label, cb)")
      case True
      with n show ?thesis by (simp add: c(3))
    next
      case False
      with that have "(l, f) \<in> set (flight r)" by auto
      with old(1,2) [OF this] old(3) [OF this] show ?thesis unfolding c(3) by (simp add: less_imp_le)
    qed
    moreover have "distinct (map fst (flight r))" using ok by (simp add: flight_ok_def)
    ultimately show ?thesis using new unfolding flight_ok_def c(2) by simp
  qed
  ultimately show ?thesis by (simp add: race_inv_def)
qed

lemma race_inv_sent:
  assumes "race_inv irc r" "flight r = before @ (label, cb) # after"
  shows "race_inv irc (r\<lparr>flight := before @ after, sent := sent r @ [cb]\<rparr>)"
proof -
  have "accounted irc (r\<lparr>flight := before @ after, sent := sent r @ [cb]\<rparr>)"
    using assms by (simp add: race_inv_def accounted_def)
  moreover have "flight_ok irc (r\<lparr>flight := before @ after, sent := sent r @ [cb]\<rparr>)"
    by (rule flight_ok_le [of irc r]) (use assms in \<open>auto simp: race_inv_def flight_ok_def\<close>)
  ultimately show ?thesis using assms(1) by (simp add: race_inv_def)
qed

lemma unregister_labels:
  "labelCounter (unregisterLabel (serializeLabel label) irc) = labelCounter irc"
  "label \<noteq> 0 \<Longrightarrow> labelCallbacks (unregisterLabel (serializeLabel label) irc) = (labelCallbacks irc)(label := None)"
  by (simp_all add: unregisterLabel_def Let_def label_inverse)

lemma accounted_broken:
  assumes "accounted irc r" "flight r = before @ (label, cb) # after" "finite (dom (labelCallbacks irc))" "label \<noteq> 0"
    "\<And>lc. labelCallbacks irc label = Some lc \<Longrightarrow> pl_callback lc = cb"
  shows "accounted (unregisterLabel (serializeLabel label) irc) (r\<lparr>flight := before @ after, failed := failed r @ [cb]\<rparr>)"
proof -
  let ?m = "(labelCallbacks irc)(label := None)"
  obtain w where w: "w \<subseteq># mset (failed r)"
    "add_mset cb (mset (map snd before) + mset (map snd after) + mset (sent r) + mset (failed r)) =
      mset (called r) + pending_callbacks (labelCallbacks irc) + w"
    using assms(1) unfolding accounted_def assms(2) by (auto simp: ac_simps)
  have "\<exists>w'. w' \<subseteq># add_mset cb (mset (failed r)) \<and>
    mset (called r) + pending_callbacks (labelCallbacks irc) + w = mset (called r) + pending_callbacks ?m + w'"
  proof (cases "labelCallbacks irc label")
    case None
    then have "?m = labelCallbacks irc" by auto
    moreover have "w \<subseteq># add_mset cb (mset (failed r))"
      by (metis w(1) add_mset_add_single mset_subset_eq_add_left subset_mset.order_trans)
    ultimately show ?thesis by auto
  next
    case (Some lc)
    from pending_remove [OF assms(3) Some] assms(5) [OF Some]
    have "pending_callbacks (labelCallbacks irc) + w = pending_callbacks ?m + add_mset cb w" by simp
    then show ?thesis using w(1) by (metis add.assoc mset_subset_eq_add_mset_cancel)
  qed
  then show ?thesis
    using w(2) by (auto simp: accounted_def unregister_labels(2) [OF assms(4)])
qed

lemma race_inv_broken:
  assumes "race_inv irc r" "flight r = before @ (label, cb) # after"
  shows "race_inv (unregisterLabel (serializeLabel label) irc) (r\<lparr>flight := before @ after, failed := failed r @ [cb]\<rparr>)"
proof -
  let ?irc' = "unregisterLabel (serializeLabel label) irc"
  have ok: "labels_inv irc" "accounted irc r" "flight_ok irc r" using assms(1) by (simp_all add: race_inv_def)
  then have n: "label \<noteq> 0" and own: "labelCallbacks irc label = Some lc \<Longrightarrow> pl_callback lc = cb" for lc
    using assms(2) by (auto simp: flight_ok_def)
  have le: "labelCallbacks ?irc' \<subseteq>\<^sub>m labelCallbacks irc" by (auto simp: unregister_labels n map_le_def)
  have "accounted ?irc' (r\<lparr>flight := before @ after, failed := failed r @ [cb]\<rparr>)"
    using accounted_broken [OF ok(2) assms(2) _ n own] ok(1) by (simp add: labels_inv_def)
  moreover have "flight_ok ?irc' (r\<lparr>flight := before @ after, failed := failed r @ [cb]\<rparr>)"
    by (rule flight_ok_le [OF ok(3) le unregister_labels(1)]) (use ok(3) assms(2) in \<open>auto simp: flight_ok_def\<close>)
  moreover have "labels_inv ?irc'" using labels_inv_shrink [OF ok(1) unregister_labels(1) le] .
  ultimately show ?thesis by (simp add: race_inv_def)
qed

lemma label_race_inv: "label_race irc r \<Longrightarrow> race_inv irc r"
proof (induction rule: label_race.induct)
  case (connected irc)
  then show ?case by (simp add: race_inv_def accounted_def flight_ok_def labels_inv_def)
next
  case (prepared irc r now cb tagList command params label msg irc')
  show ?case by (rule race_inv_prepared [OF prepared.IH prepared.hyps(2,3)])
next
  case succeeded
  then show ?case using race_inv_sent by (simp add: label_finish_def)
next
  case broken
  then show ?case using race_inv_broken by (simp add: label_finish_def)
next
  case (received irc r now msg cb b irc')
  from label_effect_route [of now msg irc] received.hyps(2) obtain l lc where
    l: "labelCallbacks irc l = Some lc" "pl_callback lc = cb" "labelCallbacks irc' = (labelCallbacks irc)(l := None)"
    and c: "labelCounter irc' = labelCounter irc" by (auto simp: label_effect_def)
  have "finite (dom (labelCallbacks irc))" using received.IH by (simp add: race_inv_def labels_inv_def)
  from pending_remove [OF this l(1)] have
    "pending_callbacks (labelCallbacks irc) = mset [cb] + pending_callbacks (labelCallbacks irc')" by (simp add: l(2,3))
  moreover have "labelCallbacks irc' \<subseteq>\<^sub>m labelCallbacks irc" by (auto simp: map_le_def l(3))
  ultimately show ?case using race_inv_called [OF received.IH _ c] by blast
next
  case (received_other irc r now msg eff irc')
  from label_effect_route [of now msg irc] received_other.hyps(2,3)
  have "labelCallbacks irc' = labelCallbacks irc" "labelCounter irc' = labelCounter irc"
    by (auto simp: label_effect_def split: effect.splits)
  then show ?case using received_other.IH by (rule race_inv_frame)
next
  case (expired irc r order force now cbs irc')
  note e = expire_labels [OF expired.hyps(2-4)]
  show ?case by (rule race_inv_called [OF expired.IH e(2,3,1)])
next
  case elsewhere
  then show ?case using race_inv_frame by blast
qed

subsection \<open>Properties\<close>

text \<open>C33. Labeled calls may overlap: however the sections of concurrent calls of \<open>SendWithLabel\<close> are interleaved with
  received lines and expiry, until the forced expiry that ends the connection, the function of a call that was
  sent (or is still on its way) has been called exactly once, and that of a call that failed at most once.\<close>

theorem labels_interleaved:
  assumes "label_race irc r" "distinct order" "set order = dom (labelCallbacks irc)"
    "expireBatches True now order irc = (cbs, irc')"
  shows "mset (sent r) + mset (map snd (flight r)) \<subseteq># mset (called r @ cbs) \<and>
    mset (called r @ cbs) \<subseteq># mset (sent r) + mset (map snd (flight r)) + mset (failed r)"
proof -
  note e = expire_labels [OF assms(2-4)]
  from label_race_inv [OF assms(1)] obtain w where w: "w \<subseteq># mset (failed r)"
    "mset (map snd (flight r)) + mset (sent r) + mset (failed r) =
      mset (called r) + pending_callbacks (labelCallbacks irc) + w"
    unfolding race_inv_def accounted_def by blast
  have all: "mset (sent r) + mset (map snd (flight r)) + mset (failed r) = mset (called r @ cbs) + w"
    using w(2) e(1,4) by (simp add: ac_simps)
  obtain v where "mset (failed r) = w + v" using w(1) by (auto simp: mset_subset_eq_exists_conv)
  with all have "mset (sent r) + mset (map snd (flight r)) + v = mset (called r @ cbs)"
    by (simp add: ac_simps)
  then have "mset (sent r) + mset (map snd (flight r)) \<subseteq># mset (called r @ cbs)"
    by (metis mset_subset_eq_add_left)
  with all show ?thesis by (metis mset_subset_eq_add_left)
qed

text \<open>Two calls overlap; the second is refused after the first has been sent.\<close>

lemma ex_race:
  obtains irc :: "(bool, bool, nat) Connection" where
    "label_race irc \<lparr>flight = [], sent = [0], failed = [1], called = []\<rparr>" "dom (labelCallbacks irc) = {1}"
proof -
  let ?p = "\<lambda>cb irc. label_prepare 5 cb [] ''WHOIS'' [''n''] (irc :: (bool, bool, nat) Connection)"
  define irc1 where "irc1 = snd (?p 0 ex_running)"
  define irc2 where "irc2 = snd (?p 1 irc1)"
  have neg: "labelNegotiated irc1"
    using ex_running_ok(1) by (simp add: irc1_def label_prepare_def registerLabel_def Let_def labelNegotiated_def)
  have p1: "\<exists>m. ?p 0 ex_running = (Inr (serializeLabel 1, m), irc1)"
    using ex_running_ok(1,3) [where 'l = nat] by (simp add: irc1_def label_prepare_def registerLabel_def Let_def)
  then obtain m1 where m1: "?p 0 ex_running = (Inr (serializeLabel 1, m1), irc1)" by blast
  have c1: "labelCounter irc1 = 1" "dom (labelCallbacks irc1) = {1}"
    using label_prepare_cases(2,3) [OF m1] by (simp_all add: ex_running_ok(2))
  have p2: "\<exists>m. ?p 1 irc1 = (Inr (serializeLabel 2, m), irc2)"
    using neg c1 by (simp add: irc2_def label_prepare_def registerLabel_def Let_def)
  then obtain m2 where m2: "?p 1 irc1 = (Inr (serializeLabel 2, m2), irc2)" by blast
  note c2 = label_prepare_cases(3) [OF m2]
  have "label_race irc1 \<lparr>flight = [(1, 0)], sent = [], failed = [], called = []\<rparr>"
    using label_race.prepared [OF label_race.connected [OF ex_running_ok(2)] _ m1] by (simp add: ex_running_ok(3))
  from label_race.prepared [OF this _ m2]
  have "label_race irc2 \<lparr>flight = [(2, 1), (1, 0)], sent = [], failed = [], called = []\<rparr>"
    by (simp add: c1)
  from label_race.succeeded [OF this, of "[(2, 1)]" 1 0 "[]"]
  have "label_race irc2 \<lparr>flight = [(2, 1)], sent = [0], failed = [], called = []\<rparr>" by (simp add: label_finish_def)
  from label_race.broken [OF this, of "[]" 2 1 "[]" ClientDisconnected]
  have "label_race (unregisterLabel (serializeLabel 2) irc2) \<lparr>flight = [], sent = [0], failed = [1], called = []\<rparr>"
    by (simp add: label_finish_def)
  moreover have "dom (labelCallbacks (unregisterLabel (serializeLabel 2) irc2)) = {1}"
    using c1(2) by (auto simp: unregister_labels c2)
  ultimately show thesis by (rule that)
qed

lemma labels_interleaved_witness:
  "\<exists>irc :: (bool, bool, nat) Connection. label_race irc \<lparr>flight = [], sent = [0], failed = [1], called = []\<rparr> \<and>
    {#0#} \<subseteq># mset (fst (expireBatches True 9 [1] irc))"
proof (rule ex_race)
  fix irc :: "(bool, bool, nat) Connection"
  assume h: "label_race irc \<lparr>flight = [], sent = [0], failed = [1], called = []\<rparr>" and d: "dom (labelCallbacks irc) = {1}"
  obtain cbs irc' where e: "expireBatches True 9 [1] irc = (cbs, irc')" by fastforce
  from labels_interleaved [OF h _ _ e] d have "{#0#} \<subseteq># mset cbs" by simp
  with h e show ?thesis by auto
qed

text \<open>A reconnection between the sections of a call breaks this. The new connection counts labels from the start
  again, with an empty table: the first call on it gets the label that a call on the old connection still
  carries. The response to the old call is handed to the function of the new one, and if the old call fails
  instead, it withdraws the new one's function, which then is not called even when the connection ends.\<close>

theorem stale_label:
  assumes "labelCounter irc = 0"
    "label_prepare now1 cb1 tags1 c1 ps1 irc = (Inr (label1, msg1), irc1)"
    "label_prepare now2 cb2 tags2 c2 ps2 (connect_reset irc1) = (Inr (label2, msg2), irc2)"
    "Command response \<noteq> ''BATCH''" "GetTag response ''batch'' = (False, [])" "GetTag response ''label'' = (True, label1)"
  shows "fst (GetTag msg1 ''label'') \<and> snd (GetTag msg1 ''label'') = snd (GetTag msg2 ''label'') \<and>
    (\<exists>b. fst (route now response irc2) = CallLabel cb2 b) \<and>
    fst (expireBatches True now order (label_finish label1 (Some err) irc2)) = []"
proof -
  have neg: "labelNegotiated (connect_reset irc1)"
    using assms(3) by (auto simp: label_prepare_def split: if_splits)
  from assms(1,2) have l1: "label1 = serializeLabel 1" "msg1 = SetTag (MakeMessage tags1 [] c1 ps1) ''label'' label1"
    by (auto simp: label_prepare_def registerLabel_def Let_def split: if_splits)
  from assms(3) neg have l2: "label2 = serializeLabel 1" "msg2 = SetTag (MakeMessage tags2 [] c2 ps2) ''label'' label2"
    "labelNegotiated irc2" "labelCallbacks irc2 = [1 \<mapsto> \<lparr>pl_createdAt = now2, pl_callback = cb2\<rparr>]"
    by (auto simp: label_prepare_def registerLabel_def Let_def connect_reset_def labelNegotiated_def)
  have "\<exists>b. fst (route now response irc2) = CallLabel cb2 b"
    using assms(4-6) l2(3,4)
    by (simp add: route_def route_label_def l1(1) label_inverse getLabelCallback_def getLabelCallbackNoMutex_def Let_def
        case_prod_unfold)
  moreover have "labelCallbacks (label_finish label1 (Some err) irc2) = Map.empty"
    by (simp add: label_finish_def l1(1) unregister_labels l2(4))
  then have "fst (expireBatches True now order (label_finish label1 (Some err) irc2)) = []"
    by (simp add: expireBatches_def Let_def)
  ultimately show ?thesis by (simp add: l1 l2(1,2) msg_tags.get_set)
qed

lemma stale_label_witness:
  "\<exists>irc1 irc2 msg1 msg2 b.
    label_prepare 5 0 [] ''WHOIS'' [''n''] (ex_running :: (bool, bool, nat) Connection) = (Inr (serializeLabel 1, msg1), irc1) \<and>
    label_prepare 6 1 [] ''WHOIS'' [''m''] (connect_reset irc1) = (Inr (serializeLabel 1, msg2), irc2) \<and>
    fst (route 7 (zero_Message\<lparr>Command := ''PONG'', tags := [''label'' \<mapsto> serializeLabel 1]\<rparr>) irc2) = CallLabel 1 b"
proof -
  define irc1 where "irc1 = snd (label_prepare 5 0 [] ''WHOIS'' [''n''] (ex_running :: (bool, bool, nat) Connection))"
  define irc2 where "irc2 = snd (label_prepare 6 1 [] ''WHOIS'' [''m''] (connect_reset irc1))"
  have neg: "labelNegotiated (connect_reset irc1)"
    using ex_running_ok(1) [where 'l = nat]
    by (simp add: irc1_def label_prepare_def registerLabel_def Let_def labelNegotiated_def connect_reset_def)
  obtain msg1 where p1: "label_prepare 5 0 [] ''WHOIS'' [''n''] (ex_running :: (bool, bool, nat) Connection) =
      (Inr (serializeLabel 1, msg1), irc1)"
    using ex_running_ok(1,3) [where 'l = nat] by (simp add: irc1_def label_prepare_def registerLabel_def Let_def)
  obtain msg2 where p2: "label_prepare 6 1 [] ''WHOIS'' [''m''] (connect_reset irc1) =
      (Inr (serializeLabel 1, msg2), irc2)"
    using neg by (simp add: irc2_def label_prepare_def registerLabel_def Let_def) (simp add: connect_reset_def)
  let ?response = "zero_Message\<lparr>Command := ''PONG'', tags := [''label'' \<mapsto> serializeLabel 1]\<rparr>"
  have "\<exists>b. fst (route 7 ?response irc2) = CallLabel 1 b"
    using stale_label [OF ex_running_ok(3) p1 p2, of ?response 7] by (simp add: GetTag_def zero_Message_def)
  with p1 p2 show ?thesis by blast
qed

end
