(* ===== verification/Event_ISupport.thy ===== *)
theory Event_ISupport
  imports Event_Negotiate
begin

text \<open>
  The values of ISUPPORT tokens (\<open>unescapeISupportValue\<close> of \<^verbatim>\<open>ircevent/irc_callback.go\<close>): the escaping that a server
  applies to blanks, equals signs and backslashes, as the specification has it, and how the client reads it
  back.
\<close>

subsection \<open>The server's side\<close>

definition hex_char :: "nat \<Rightarrow> char" where
  "hex_char d = (if d < 10 then char_of (48 + d) else char_of (55 + d))"

definition escape_octet :: "char \<Rightarrow> string" where
  "escape_octet c = [CHR 0x5C, CHR ''x'', hex_char (byte c div 16), hex_char (byte c mod 16)]"

text \<open>\<open>bad\<close> are the octets the server escapes, besides the backslash.\<close>

definition isupport_escape :: "(char \<Rightarrow> bool) \<Rightarrow> string \<Rightarrow> string" where
  "isupport_escape bad v = concat (map (\<lambda>c. if bad c \<or> c = CHR 0x5C then escape_octet c else [c]) v)"

definition ascii_escapes :: "(char \<Rightarrow> bool) \<Rightarrow> string \<Rightarrow> bool" where
  "ascii_escapes bad v \<longleftrightarrow> (\<forall>c\<in>set v. bad c \<longrightarrow> byte c < 128)"

subsection \<open>Reading it back\<close>

lemma hex_char_facts:
  assumes "d < 16"
  shows "digit_val (hex_char d) = Some d" "hex_char d \<noteq> CHR ''-''" "hex_char d \<noteq> CHR ''+''" "hex_char d \<noteq> CHR 0x5C"
proof -
  show "digit_val (hex_char d) = Some d" using assms by (simp add: digit_val_def hex_char_def)
  have "48 \<le> byte (hex_char d) \<and> byte (hex_char d) \<le> 70" using assms by (simp add: hex_char_def)
  then show "hex_char d \<noteq> CHR ''-''" "hex_char d \<noteq> CHR ''+''" "hex_char d \<noteq> CHR 0x5C" by auto
qed

lemma parse_octet:
  assumes "d < 16" "e < 16"
  shows "ParseInt [hex_char d, hex_char e] 16 8 = (if d < 8 then Some (int (16 * d + e)) else None)"
proof -
  from assms have "16 * d + e < 256" by simp
  then show ?thesis
    using assms by (simp add: ParseInt_def ParseUint_def hex_char_facts Let_def mult.commute)
qed

lemma unescape_plain: "c \<noteq> CHR 0x5C \<Longrightarrow> unescape_isupport_loop (c # s) = c # unescape_isupport_loop s"
  by (subst unescape_isupport_loop.simps) simp

lemma unescape_octet:
  "unescape_isupport_loop (escape_octet c @ s) =
    (if byte c < 128 then c # unescape_isupport_loop s else escape_octet c @ unescape_isupport_loop s)"
proof -
  have b: "byte c div 16 < 16" "byte c mod 16 < 16" "byte c div 16 < 8 \<longleftrightarrow> byte c < 128"
    using byte_less_256 [of c] by (auto simp del: byte_less_256)
  note p = parse_octet [OF b(1,2)]
  have d: "drop 4 (escape_octet c @ s) = s" "tl (escape_octet c) @ s = CHR ''x'' # hex_char (byte c div 16) # hex_char (byte c mod 16) # s"
    by (simp_all add: escape_octet_def)
  have step: "unescape_isupport_loop (escape_octet c @ s) =
      (case ParseInt [hex_char (byte c div 16), hex_char (byte c mod 16)] 16 8 of
         Some octet \<Rightarrow> char_of (nat (octet mod 256)) # unescape_isupport_loop s
       | None \<Rightarrow> CHR 0x5C # unescape_isupport_loop (tl (escape_octet c) @ s))"
    unfolding d(2) by (subst unescape_isupport_loop.simps) (simp only: d(1), simp add: escape_octet_def numeral_2_eq_2)
  show ?thesis
  proof (cases "byte c < 128")
    case True
    have "nat (int (16 * (byte c div 16) + byte c mod 16) mod 256) = byte c"
      using True by simp
    with True b(3) show ?thesis unfolding step p by simp
  next
    case False
    with b show ?thesis unfolding step p by (simp add: escape_octet_def unescape_plain hex_char_facts)
  qed
qed

lemma unescape_escape: "ascii_escapes bad v \<Longrightarrow> unescape_isupport_loop (isupport_escape bad v) = v"
proof (induction v)
  case Nil
  then show ?case by (simp add: isupport_escape_def unescape_isupport_loop.simps)
next
  case (Cons c v)
  have "byte (CHR 0x5C) < 128" by simp
  with Cons show ?case
    by (auto simp: isupport_escape_def ascii_escapes_def unescape_octet unescape_plain)
qed

lemma unescapeISupportValue_loop: "unescapeISupportValue s = unescape_isupport_loop s"
proof -
  have "CHR 0x5C \<notin> set s \<Longrightarrow> unescape_isupport_loop s = s"
    by (induction s) (auto simp: unescape_isupport_loop.simps [of "[]"] unescape_plain)
  then show ?thesis by (simp add: unescapeISupportValue_def IndexByte_None_iff)
qed

interpretation isupport_value: codec "isupport_escape bad" unescapeISupportValue "ascii_escapes bad"
  by unfold_locales (simp add: unescapeISupportValue_loop unescape_escape)

text \<open>An escaped octet above 127, as in UTF-8, is not read back.\<close>

lemma high_octets_stay: "128 \<le> byte c \<Longrightarrow> unescapeISupportValue (escape_octet c) = escape_octet c"
  using unescape_octet [of c "[]"] by (simp add: unescapeISupportValue_loop unescape_isupport_loop.simps [of "[]"])

subsection \<open>Properties\<close>

definition isupport_text :: "(char \<Rightarrow> bool) \<Rightarrow> string \<times> string \<Rightarrow> string" where
  "isupport_text bad kv = (if snd kv = [] then fst kv else fst kv @ ''='' @ isupport_escape bad (snd kv))"

lemma isupport_token_text:
  assumes "CHR ''='' \<notin> set (fst kv)" "ascii_escapes bad (snd kv)"
  shows "isupport_token (isupport_text bad kv) = kv"
proof -
  have "IndexByte (fst kv @ CHR ''='' # x) (CHR ''='') = Some (length (fst kv))" for x
    using IndexByte_append [of "CHR ''=''" "fst kv" x] assms(1) by simp
  with assms isupport_value.dec_enc [of bad "snd kv"] show ?thesis
    by (cases kv) (auto simp: isupport_token_def isupport_text_def IndexByte_None_iff)
qed

text \<open>C23. The client knows what the server announced: the names and values that a server puts into a 005 line, escaped
  as specified, are what \<open>ISupport\<close> returns after registration, the last value of a name winning, whichever
  ASCII octets the server escapes.\<close>

theorem isupport_announced:
  assumes "isupportPartial irc = Some Map.empty" "\<not> registered irc"
    "\<forall>kv\<in>set kvs. CHR ''='' \<notin> set (fst kv) \<and> ascii_escapes bad (snd kv)" "kvs \<noteq> []"
  shows "ISupport (handleRegistration e
      (handleISupport (plain_message ''005'' (nick # map (isupport_text bad) kvs @ [trailing])) irc)) = map_of (rev kvs)"
proof -
  have "fold (\<lambda>token m. m(fst (isupport_token token) \<mapsto> snd (isupport_token token))) (map (isupport_text bad) kvs) m =
      m ++ map_of (rev kvs)" for m
    using assms(3) by (induction kvs arbitrary: m) (simp_all add: isupport_token_text map_add_def fun_eq_iff split: option.split)
  then show ?thesis
    using assms(1,2,4) by (simp add: handleISupport_def handleRegistration_def ISupport_def Let_def butlast_append)
qed

lemma isupport_announced_witness:
  "ISupport (handleRegistration (plain_message ''376'' [''me''])
      (handleISupport (plain_message ''005'' [''me'', ''NICKLEN=30'', ''NETWORK=My'' @ [CHR 0x5C] @ ''x20Net'', ''WHOX'', ''are supported''])
        ((zero_Connection :: (bool, bool, bool) Connection)\<lparr>isupportPartial := Some Map.empty, registered := False\<rparr>))) =
    [''WHOX'' \<mapsto> [], ''NETWORK'' \<mapsto> ''My Net'', ''NICKLEN'' \<mapsto> ''30'']"
proof -
  let ?bad = "\<lambda>c. c = CHR '' '' \<or> c = CHR ''=''"
  let ?kvs = "[(''NICKLEN'', ''30''), (''NETWORK'', ''My Net''), (''WHOX'', [])]"
  have t: "map (isupport_text ?bad) ?kvs = [''NICKLEN=30'', ''NETWORK=My'' @ [CHR 0x5C] @ ''x20Net'', ''WHOX'']"
    by (simp add: isupport_text_def isupport_escape_def escape_octet_def hex_char_def char_eval)
  have ok: "\<forall>kv\<in>set ?kvs. CHR ''='' \<notin> set (fst kv) \<and> ascii_escapes ?bad (snd kv)"
    by (simp add: ascii_escapes_def)
  show ?thesis
    using isupport_announced [OF _ _ ok, where e = "plain_message ''376'' [''me'']" and nick = "''me''"
        and trailing = "''are supported''" and irc = "(zero_Connection :: (bool, bool, bool) Connection)\<lparr>isupportPartial := Some Map.empty, registered := False\<rparr>"]
    unfolding t by (simp add: map_add_def fun_eq_iff)
qed

end
