(* ===== verification/Example_Robot.thy ===== *)
theory Example_Robot
  imports Event_Dial Event_Clients Event_Wire
begin

text \<open>
  \<^verbatim>\<open>ircevent/examples/simple.go\<close> and \<^verbatim>\<open>proxy.go\<close>: a bot on top of the library. The two programs differ in how they dial.
  The environment, the certificate loader and the proxy package are arguments. The variable \<open>sum\<close>, which the
  TAGMSG callback changes, is passed along: the callbacks of one line see one value.
\<close>

subsection \<open>The code\<close>

text \<open>\<open>env\<close> is \<open>os.Getenv\<close>, which is empty for a variable that is not set.\<close>

definition getenv :: "(string \<Rightarrow> string) \<Rightarrow> string \<Rightarrow> string \<Rightarrow> string" where
  "getenv env key defaultValue = (let value = env key in if value = [] then defaultValue else value)"

definition robot_nick :: "(string \<Rightarrow> string) \<Rightarrow> string" where
  "robot_nick env = getenv env ''IRCEVENT_NICK'' ''robot''"

definition robot_channel :: "(string \<Rightarrow> string) \<Rightarrow> string" where
  "robot_channel env = getenv env ''IRCEVENT_CHANNEL'' ''#ircevent-test''"

text \<open>The struct literal of the connection; the fields for TLS and dialing are in \<open>robot_dial\<close>.\<close>

definition robot_config :: "(string \<Rightarrow> string) \<Rightarrow> Config" where
  "robot_config env =
    \<lparr>Server = getenv env ''IRCEVENT_SERVER'' ''testnet.oragono.io:6697'', irc_Nick = robot_nick env,
      irc_User = [], RealName = [], WebIRC = [], Password = [], RequestCaps = [''server-time'', ''message-tags''],
      SASLLogin = env ''IRCEVENT_SASL_LOGIN'', SASLPassword = env ''IRCEVENT_SASL_PASSWORD'', SASLMech = [],
      SASLOptional = False, QuitMessage = [], Version = [], Timeout = 0, KeepAlive = 0, ReconnectFreq = 0,
      MaxLineLen = 0, UseSASL = False, EnableCTCP = False, AllowPanic = False, AllowTruncation = False\<rparr>"

definition robot_dial :: "('w, 'c) dialer option \<Rightarrow> ('w, 'c) dial_config" where
  "robot_dial dialContext = \<lparr>DialContext = dialContext, UseTLS = True,
    TLS_Config = Some \<lparr>ServerName = [], InsecureSkipVerify = True\<rparr>\<rparr>"

text \<open>\<^verbatim>\<open>simple.go\<close>: a client certificate selects SASL EXTERNAL; \<open>load\<close> is \<open>tls.LoadX509KeyPair\<close>, whose errors are fatal.\<close>

definition simple_config :: "(string \<Rightarrow> string \<Rightarrow> string + 'cert) \<Rightarrow> (string \<Rightarrow> string) \<Rightarrow> string + Config \<times> 'cert option" where
  "simple_config load env =
    (let certKeyFile = env ''IRCEVENT_SASL_CLIENTCERT'' in
     if certKeyFile \<noteq> [] then
       (case load certKeyFile certKeyFile of
          Inl err \<Rightarrow> Inl (''could not load client certificate: '' @ err)
        | Inr clientCert \<Rightarrow> Inr ((robot_config env)\<lparr>SASLMech := ''EXTERNAL''\<rparr>, Some clientCert))
     else Inr (robot_config env, None))"

text \<open>\<^verbatim>\<open>proxy.go\<close>: \<open>parse\<close>, \<open>fromURL\<close> and \<open>contextDialer\<close> are \<open>url.Parse\<close>, \<open>proxy.FromURL\<close> and the type assertion.\<close>

definition proxy_config :: "(string \<Rightarrow> string + 'url) \<Rightarrow> ('url \<Rightarrow> string + 'dialer) \<Rightarrow> ('dialer \<Rightarrow> ('w, 'c) dialer option)
    \<Rightarrow> (string \<Rightarrow> string) \<Rightarrow> string + Config \<times> ('w, 'c) dial_config" where
  "proxy_config parse fromURL contextDialer env =
    (case parse (getenv env ''IRCEVENT_PROXY_URL'' ''socks5://192.168.1.100:8080'') of
       Inl err \<Rightarrow> Inl (''invalid proxy URL: '' @ err)
     | Inr proxyUrl \<Rightarrow>
         (case fromURL proxyUrl of
            Inl err \<Rightarrow> Inl (''couldn't connect to proxy server: '' @ err)
          | Inr proxyDialer \<Rightarrow>
              (case contextDialer proxyDialer of
                 None \<Rightarrow> Inl ''proxy dialer does not expose DialContext()''
               | Some dialContext \<Rightarrow> Inr (robot_config env, robot_dial (Some dialContext)))))"

text \<open>The callbacks of the two programs.\<close>

datatype robot = OnConnect | OnJoin | OnPrivmsg | OnTagmsg

type_synonym robot_connection = "(robot, unit, unit) Connection"

definition bot_mode :: "tag_map \<Rightarrow> string" where
  "bot_mode tokens = (case tokens ''BOT'' of None \<Rightarrow> [] | Some mode \<Rightarrow> mode)"

definition on_connect :: "string \<Rightarrow> (robot_connection, unit) act" where
  "on_connect channel =
    (\<lambda>irc. let botMode = bot_mode (ISupport irc) in
      act_then
        (if botMode \<noteq> [] then act_then (Send ''MODE'' [CurrentNick irc, ''+'' @ botMode]) (act_return ()) else act_return ())
        (act_then (Join channel) (act_return ())) irc)"

definition on_privmsg :: "string \<Rightarrow> int \<Rightarrow> Message \<Rightarrow> (robot_connection, unit) act" where
  "on_privmsg nick now e =
    (if length (Params e) < 2 then act_return ()
     else
       let text = Params e ! 1 in
       if HasPrefix text nick then act_then (Privmsg (Params e ! 0) ''don't @ me, fleshbag'') (act_return ())
       else if text = ''xyzzy'' then Quit now
       else if text = ''plugh'' then act_then (Send ''QUIT'' [''I'LL BE BACK'']) (act_return ())
       else if text = ''wwssadadba'' then
         (if length (Params e) < 3 then act_panic
          else act_then (Privmsg (Params e ! 0) (Params e ! 2)) (act_return ()))
       else act_return ())"

definition summand :: "Message \<Rightarrow> 64 word option" where
  "summand e = map_option word_of_int (ParseInt (snd (GetTag e ''+summand'')) 10 64)"

text \<open>\<open>tally\<close> is the value before the message; the addition comes before the access to the parameters.\<close>

definition on_tagmsg :: "64 word \<Rightarrow> Message \<Rightarrow> (robot_connection, unit) act" where
  "on_tagmsg tally e =
    (case summand e of
       None \<Rightarrow> act_return ()
     | Some v \<Rightarrow>
         if length (Params e) < 1 then act_panic
         else
           let tag = (''+sum'', FormatInt (sint (tally + v)) 10)
           in act_then (SendWithTags [tag] [] [tag] ''TAGMSG'' [Params e ! 0]) (act_return ()))"

definition next_sum :: "64 word \<Rightarrow> Message \<Rightarrow> 64 word" where
  "next_sum tally e = (case summand e of None \<Rightarrow> tally | Some v \<Rightarrow> tally + v)"

definition robot_code :: "(string \<Rightarrow> string) \<Rightarrow> int \<Rightarrow> 64 word \<Rightarrow> (robot, unit, unit) client_code" where
  "robot_code env now tally =
    \<lparr>run_user = (\<lambda>cb e. case cb of
         OnConnect \<Rightarrow> on_connect (robot_channel env)
       | OnJoin \<Rightarrow> act_return ()
       | OnPrivmsg \<Rightarrow> on_privmsg (robot_nick env) now e
       | OnTagmsg \<Rightarrow> on_tagmsg tally e),
     run_batch = (\<lambda>_ _. act_return False), run_label = (\<lambda>_ _. act_return ())\<rparr>"

text \<open>The registrations before \<open>Connect\<close>.\<close>

definition robot_setup :: "(nat \<Rightarrow> nat) \<Rightarrow> robot_connection \<Rightarrow> robot_connection" where
  "robot_setup upper irc =
    (let (_, irc1) = AddConnectCallback upper irc (Client OnConnect);
         (_, irc2) = AddCallback upper irc1 ''JOIN'' (Client OnJoin);
         (_, irc3) = AddCallback upper irc2 ''PRIVMSG'' (Client OnPrivmsg);
         (_, irc4) = AddCallback upper irc3 ''TAGMSG'' (Client OnTagmsg)
     in irc4)"

subsection \<open>A polite client\<close>

lemma polite_send:
  "(api_step upper)\<^sup>*\<^sup>* irc (snd (act_then (Send c ps) (act_return ()) irc))"
  "(api_step upper)\<^sup>*\<^sup>* irc (snd (act_then (SendWithTags ts tord cord c ps) (act_return ()) irc))"
proof -
  have s: "snd (act_then m (act_return ()) irc) = snd (m irc)" for m :: "(('a, 'b, 'c) Connection, event_error option) act"
    by (simp add: act_simps case_prod_beta split: option.split)
  have t: "(api_step upper)\<^sup>*\<^sup>* irc (snd (SendWithTags ts tord cord c ps irc))" for ts tord cord
    unfolding SendWithTags_def by (rule r_into_rtranclp [of "api_step upper"]) (rule api_step.message)
  show "(api_step upper)\<^sup>*\<^sup>* irc (snd (act_then (Send c ps) (act_return ()) irc))"
    unfolding s Send_def by (rule t)
  show "(api_step upper)\<^sup>*\<^sup>* irc (snd (act_then (SendWithTags ts tord cord c ps) (act_return ()) irc))"
    unfolding s by (rule t)
qed

lemma polite_seq:
  assumes "\<And>irc. (api_step upper)\<^sup>*\<^sup>* irc (snd (m irc))" "\<And>irc. (api_step upper)\<^sup>*\<^sup>* irc (snd (n irc))"
  shows "(api_step upper)\<^sup>*\<^sup>* irc (snd (act_then m n irc))"
proof -
  obtain r irc1 where m: "m irc = (r, irc1)" by fastforce
  with assms(1) [of irc] assms(2) [of irc1] show ?thesis
    by (cases r) (auto simp: act_simps intro: rtranclp_trans)
qed

lemma polite_done: "(api_step upper)\<^sup>*\<^sup>* irc (snd (act_return a irc))" "(api_step upper)\<^sup>*\<^sup>* irc (snd (act_panic irc))"
  by (simp_all add: act_simps)

lemma polite_on_connect: "(api_step upper)\<^sup>*\<^sup>* irc (snd (on_connect channel irc))"
  unfolding on_connect_def Let_def Join_def by (rule polite_seq) (auto intro: polite_send polite_done)

lemma polite_on_privmsg: "(api_step upper)\<^sup>*\<^sup>* irc (snd (on_privmsg nick now e irc))"
proof -
  have "(api_step upper)\<^sup>*\<^sup>* irc (snd (Quit now irc))" by (rule r_into_rtranclp [of "api_step upper"]) (rule api_step.quit)
  then show ?thesis
    unfolding on_privmsg_def Let_def Privmsg_def by (auto intro: polite_send polite_done)
qed

lemma polite_on_tagmsg: "(api_step upper)\<^sup>*\<^sup>* irc (snd (on_tagmsg tally e irc))"
  unfolding on_tagmsg_def Let_def by (auto intro: polite_send polite_done split: option.split)

text \<open>So everything that is shown of connections with polite clients holds of the robot's.\<close>

lemma polite_robot: "polite upper (robot_code env now tally)"
  by (auto simp: polite_def robot_code_def polite_on_connect polite_on_privmsg polite_on_tagmsg polite_done
      split: robot.split)

subsection \<open>The tables of the robot\<close>

definition robot_ready :: "(nat \<Rightarrow> nat) \<Rightarrow> robot_connection \<Rightarrow> bool" where
  "robot_ready upper irc \<longleftrightarrow> \<not> EnableCTCP irc \<and>
    map pair_callback (getCallbacks upper irc ''PRIVMSG'') = [Client OnPrivmsg] \<and>
    map pair_callback (getCallbacks upper irc ''TAGMSG'') = [Client OnTagmsg] \<and>
    map pair_callback (getCallbacks upper irc ''376'') = [Lib HandleRegistration, Client OnConnect] \<and>
    map pair_callback (getCallbacks upper irc ''422'') = [Lib HandleRegistration, Client OnConnect]"

text \<open>
  The package's own callback for the end of registration is in front, although the robot has entered its own before
  \<open>Connect\<close> called \<open>setupCallbacks\<close>.
\<close>

lemma robot_commands:
  "ToUpper upper ''PRIVMSG'' = ''PRIVMSG''" "ToUpper upper ''TAGMSG'' = ''TAGMSG''" "ToUpper upper ''JOIN'' = ''JOIN''"
  "ToUpper upper ''376'' = ''376''" "ToUpper upper ''422'' = ''422''"
  by (simp_all add: ToUpper_ascii ToUpperASCII_def upper_byte_def)

lemma robot_setup_lists:
  assumes "events irc = Map.empty"
  shows "map pair_callback (event_list (robot_setup upper irc) k) =
    (if k = ''PRIVMSG'' then [Client OnPrivmsg] else if k = ''TAGMSG'' then [Client OnTagmsg]
     else if k = ''JOIN'' then [Client OnJoin] else if k = ''376'' \<or> k = ''422'' then [Client OnConnect] else [])"
    "hasBaseCallbacks (robot_setup upper irc) = hasBaseCallbacks irc" "EnableCTCP (robot_setup upper irc) = EnableCTCP irc"
  using assms
  by (auto simp: robot_setup_def AddConnectCallback_def AddCallback_def addCallback_def insertCallback_def robot_commands
      accepted_def HasPrefix_def RPL_ENDOFMOTD_def ERR_NOMOTD_def event_list_def Let_def)

lemma robot_ready_setup:
  assumes "events irc = Map.empty" "\<not> hasBaseCallbacks irc" "\<not> EnableCTCP irc"
  shows "robot_ready upper (setupCallbacks upper (robot_setup upper irc))"
  unfolding robot_ready_def getCallbacks_def robot_commands setupCallbacks_lists robot_setup_lists [OF assms(1)]
  using assms(2,3)
  by (simp add: robot_setup_lists [OF assms(1)] setupCallbacks_eq own_before_def own_after_def setup_list_def base_callbacks_def
      sasl_callbacks_def ctcp_callbacks_def final_callbacks_def RPL_ENDOFMOTD_def ERR_NOMOTD_def)

lemma act_for_map: "act_for (map f xs) g = act_for xs (\<lambda>x. g (f x))"
  by (induction xs) simp_all

text \<open>What a line does: the callbacks of its command, one after the other.\<close>

lemma robot_line:
  assumes "ParseLine msg = Some (e, None)" "unbatched e" "Command e \<noteq> ''BATCH''" "\<not> EnableCTCP irc"
    "map pair_callback (getCallbacks upper irc (Command e)) = cbs"
  shows "readLoop_line upper C clock now msg irc =
    Some (recover (AllowPanic irc) (act_for cbs (\<lambda>cb. run_callback C clock cb e) irc))"
  using readLoop_message [OF assms(1-3), of upper C clock now irc] assms(4)
  by (simp add: HandleMessage_def act_for_map flip: assms(5))

lemma act_then_return: "act_then (act_return ()) m = m"
  by (simp add: act_simps)

lemma act_for_one: "act_for [x] f irc = (case f x irc of (None, s) \<Rightarrow> (None, s) | (Some _, s) \<Rightarrow> (Some (), s))"
  by (simp add: act_simps)

lemma robot_privmsg_line:
  assumes "ParseLine msg = Some (e, None)" "unbatched e" "Command e = ''PRIVMSG''" "robot_ready upper irc"
  shows "readLoop_line upper (robot_code env now tally) clock t msg irc =
    Some (recover (AllowPanic irc) (on_privmsg (robot_nick env) now e irc))"
proof -
  have "map pair_callback (getCallbacks upper irc (Command e)) = [Client OnPrivmsg]" "\<not> EnableCTCP irc"
    using assms(3,4) by (simp_all add: robot_ready_def)
  from robot_line [OF assms(1,2) _ this(2,1), of "robot_code env now tally" clock t] assms(3) show ?thesis
    by (cases "on_privmsg (robot_nick env) now e irc")
      (auto simp: run_callback_def robot_code_def act_simps split: option.split)
qed

text \<open>One message that the limit admits.\<close>

lemma one_send:
  assumes "command_ok c" "list_all middle (butlast ps)" "list_all clean ps" "running irc"
    "MaxLineLen irc = 0 \<or> int (room_for c ps) \<le> MaxLineLen irc"
  obtains b where "act_then (Send c ps) (act_return ()) irc = (Some (), irc\<lparr>pwrite := pwrite irc @ [b]\<rparr>)"
    "ParseLine b = Some (plain_message c ps, None)"
proof (rule Send_plain [OF assms(1-3)])
  fix b
  assume "ParseLine b = Some (plain_message c ps, None)"
    "\<And>irc :: ('a, 'b, 'c) Connection. running irc \<Longrightarrow> MaxLineLen irc = 0 \<or> int (room_for c ps) \<le> MaxLineLen irc \<Longrightarrow>
      Send c ps irc = (Some None, irc\<lparr>pwrite := pwrite irc @ [b]\<rparr>)"
  with assms(4,5) show thesis by (intro that [of b]) (simp_all add: act_simps)
qed

lemma robot_command_ok: "command_ok ''PRIVMSG''" "command_ok ''QUIT''" "command_ok ''JOIN''" "command_ok ''MODE''" "command_ok ''TAGMSG''"
  by (simp_all add: command_ok_def upper_byte_def)

subsection \<open>The running sum\<close>

definition sum_message :: "string \<Rightarrow> 64 word \<Rightarrow> Message" where
  "sum_message target n = (plain_message ''TAGMSG'' [target])\<lparr>clientOnlyTags := [''+sum'' \<mapsto> FormatInt (sint n) 10]\<rparr>"

lemma FormatUint_length: "n < 10 ^ k \<Longrightarrow> 0 < k \<Longrightarrow> length (FormatUint n 10) \<le> k"
proof (induction k arbitrary: n)
  case (Suc k)
  show ?case
  proof (cases "n < 10")
    case True
    then show ?thesis by (subst FormatUint.simps) simp
  next
    case False
    then have "0 < k" using Suc.prems(1) by (cases k) simp_all
    moreover have "n div 10 < 10 ^ k" using Suc.prems(1) by (simp add: less_mult_imp_div_less)
    ultimately have "length (FormatUint (n div 10) 10) \<le> k" by (rule Suc.IH [rotated])
    with False show ?thesis by (subst FormatUint.simps) simp
  qed
qed simp

lemma FormatInt_length: "length (FormatInt (sint (n :: 64 word)) 10) \<le> 20"
proof -
  have "- (2 ^ 63) \<le> sint n" "sint n < 2 ^ 63" using sint_ge [of n] sint_lt [of n] by simp_all
  then have "nat (- sint n) < nat (10 ^ 19)" "nat (sint n) < nat (10 ^ 20)" by (simp_all add: nat_mono_iff)
  then have "nat (- sint n) < 10 ^ 19" "nat (sint n) < 10 ^ 20" by simp_all
  then show ?thesis
    using FormatUint_length [of "nat (- sint n)" 19] FormatUint_length [of "nat (sint n)" 20] by (simp add: FormatInt_def)
qed

lemma FormatInt_chars: "c \<in> set (FormatInt i 10) \<Longrightarrow> 45 \<le> byte c \<and> byte c < 128"
  using FormatUint_alnum [of 10 c] by (force simp: FormatInt_def split: if_splits)

lemma sum_message_printable:
  assumes "clean target" shows "printable (sum_message target n)"
proof -
  let ?v = "FormatInt (sint n) 10"
  have "validateTagValue ?v" unfolding validateTagValue_def using FormatInt_chars by (blast intro: ValidString_ascii)
  moreover have "CHR 0x00 \<notin> set ?v" using FormatInt_chars by fastforce
  moreover have "validateTagName ''+sum''" by (simp add: validateTagName_def valid_name_byte_def)
  ultimately have "tags_ok (sum_message target n)" by (simp add: tags_ok_def sum_message_def zero_Message_def)
  moreover have "msg_inv (sum_message target n)" by (simp add: msg_inv_def sum_message_def zero_Message_def)
  ultimately show ?thesis
    using assms by (simp add: printable_def msg_wf_def sum_message_def zero_Message_def clean_def isASCII_def ToUpperASCII_def
        upper_byte_def)
qed

lemma escape_length: "length (EscapeTagValue v) \<le> 2 * length v"
  by (induction v) (auto simp: EscapeTagValue_def escape_byte_def)

lemma on_tagmsg_sends:
  assumes "summand e = Some v" "Params e \<noteq> []" "clean (Params e ! 0)" "running irc"
    "MaxLineLen irc = 0 \<or> int (length (Params e ! 0)) + 10 \<le> MaxLineLen irc"
  obtains b where "on_tagmsg tally e irc = (Some (), irc\<lparr>pwrite := pwrite irc @ [b]\<rparr>)"
    "ParseLine b = Some (sum_message (Params e ! 0) (tally + v), None)"
proof -
  let ?m = "sum_message (Params e ! 0) (tally + v)" and ?kv = "(''+sum'', FormatInt (sint (tally + v)) 10)"
  have m: "MakeMessage [?kv] [] ''TAGMSG'' [Params e ! 0] = ?m"
    by (simp add: MakeMessage_def SetTag_def sum_message_def zero_Message_def)
  have o: "is_order (tags ?m) []" "is_order (clientOnlyTags ?m) [?kv]"
    by (simp_all add: is_order_def sum_message_def zero_Message_def)
  have l: "int (length (fst (line_tags [] [?kv]))) \<le> 4096"
    using escape_length [of "FormatInt (sint (tally + v)) 10"] FormatInt_length [of "tally + v"]
    by (auto simp: line_tags_def Let_def)
  have f: "Source ?m = []" "Command ?m = ''TAGMSG''" "Params ?m = [Params e ! 0]" "?m\<lparr>forceTrailing := False\<rparr> = ?m"
    by (simp_all add: sum_message_def zero_Message_def)
  obtain b where b: "SendIRCMessage ?m [] [?kv] irc = (Some None, irc\<lparr>pwrite := pwrite irc @ [b]\<rparr>)"
    "ParseLine b = Some (?m, None)"
    by (rule SendIRCMessage_printable [OF sum_message_printable [OF assms(3)] f(1) o l assms(4)])
      (use assms(5) f in \<open>auto simp: room_for_def\<close>)
  have "on_tagmsg tally e irc = (Some (), irc\<lparr>pwrite := pwrite irc @ [b]\<rparr>)"
    using b(1) assms(1,2) by (simp add: on_tagmsg_def SendWithTags_def m Let_def act_simps)
  with b(2) show thesis by (rule that [rotated])
qed

text \<open>Lines one after the other, with the sum passed along; neither batches nor labels are negotiated.\<close>

definition tally_after :: "64 word \<Rightarrow> string \<Rightarrow> 64 word" where
  "tally_after tally msg =
    (case ParseLine msg of
       Some (e, None) \<Rightarrow> if Command e = ''TAGMSG'' then next_sum tally e else tally
     | _ \<Rightarrow> tally)"

fun robot_lines :: "(nat \<Rightarrow> nat) \<Rightarrow> (string \<Rightarrow> string) \<Rightarrow> 64 word \<Rightarrow> (string \<times> int \<times> string) list \<Rightarrow> robot_connection
    \<Rightarrow> (unit option \<times> robot_connection) option" where
  "robot_lines upper env tally [] irc = Some (Some (), irc)"
| "robot_lines upper env tally ((clock, now, msg) # rest) irc =
    (case readLoop_line upper (robot_code env now tally) clock now msg irc of
       Some (Some _, irc1) \<Rightarrow> robot_lines upper env (tally_after tally msg) rest irc1
     | r \<Rightarrow> r)"

fun sums :: "64 word \<Rightarrow> Message list \<Rightarrow> Message list" where
  "sums tally [] = []"
| "sums tally (e # es) =
    sum_message (Params e ! 0) (tally + the (summand e)) # sums (tally + the (summand e)) es"

definition good_summand :: "int \<Rightarrow> Message \<Rightarrow> bool" where
  "good_summand limit e \<longleftrightarrow> unbatched e \<and> Command e = ''TAGMSG'' \<and> summand e \<noteq> None \<and> Params e \<noteq> [] \<and>
    (limit = 0 \<or> int (length (Params e ! 0)) + 10 \<le> limit)"

lemma robot_tagmsg_line:
  assumes "ParseLine msg = Some (e, None)" "unbatched e" "Command e = ''TAGMSG''" "robot_ready upper irc"
  shows "readLoop_line upper (robot_code env now tally) clock t msg irc =
    Some (recover (AllowPanic irc) (on_tagmsg tally e irc))"
proof -
  have "map pair_callback (getCallbacks upper irc (Command e)) = [Client OnTagmsg]" "\<not> EnableCTCP irc"
    using assms(3,4) by (simp_all add: robot_ready_def)
  from robot_line [OF assms(1,2) _ this(2,1), of "robot_code env now tally" clock t] assms(3) show ?thesis
    by (cases "on_tagmsg tally e irc")
      (auto simp: run_callback_def robot_code_def act_simps split: option.split)
qed

lemma robot_ready_pwrite [simp]: "robot_ready upper (irc\<lparr>pwrite := x\<rparr>) = robot_ready upper irc"
  by (simp add: robot_ready_def getCallbacks_def event_list_def)

lemma robot_lines_sums:
  assumes "robot_ready upper irc" "running irc" "map (\<lambda>(clock, now, msg). ParseLine msg) lines = map (\<lambda>e. Some (e, None)) es"
    "\<forall>e\<in>set es. good_summand (MaxLineLen irc) e"
  shows "\<exists>bs. robot_lines upper env tally lines irc = Some (Some (), irc\<lparr>pwrite := pwrite irc @ bs\<rparr>) \<and>
    map ParseLine bs = map (\<lambda>m. Some (m, None)) (sums tally es)"
  using assms
proof (induction es arbitrary: lines irc tally)
  case Nil
  then show ?case by (intro exI [of _ "[]"]) simp
next
  case (Cons e es)
  then obtain clock now msg rest where l: "lines = (clock, now, msg) # rest" "ParseLine msg = Some (e, None)"
    "map (\<lambda>(clock, now, msg). ParseLine msg) rest = map (\<lambda>e. Some (e, None)) es"
    by (cases lines) auto
  have e: "unbatched e" "Command e = ''TAGMSG''" "Params e \<noteq> []"
    "MaxLineLen irc = 0 \<or> int (length (Params e ! 0)) + 10 \<le> MaxLineLen irc"
    using Cons.prems(4) by (simp_all add: good_summand_def)
  obtain v where v: "summand e = Some v" using Cons.prems(4) by (auto simp: good_summand_def)
  have "clean (Params e ! 0)" using ParseLine_clean(1) [OF l(2)] e(3) by (simp add: nth_mem)
  obtain b where
    b: "on_tagmsg tally e irc = (Some (), irc\<lparr>pwrite := pwrite irc @ [b]\<rparr>)"
    "ParseLine b = Some (sum_message (Params e ! 0) (tally + v), None)" by (rule on_tagmsg_sends [OF v e(3) \<open>clean (Params e ! 0)\<close> Cons.prems(2) e(4)])
  let ?irc = "irc\<lparr>pwrite := pwrite irc @ [b]\<rparr>"
  from Cons.IH [of ?irc rest "tally + v"] Cons.prems l(3) obtain bs where
    "robot_lines upper env (tally + v) rest ?irc = Some (Some (), ?irc\<lparr>pwrite := pwrite ?irc @ bs\<rparr>)"
    "map ParseLine bs = map (\<lambda>m. Some (m, None)) (sums (tally + v) es)" by auto
  moreover have "readLoop_line upper (robot_code env now tally) clock now msg irc = Some (Some (), ?irc)"
    using robot_tagmsg_line [OF l(2) e(1,2) Cons.prems(1), of env now tally clock now] b(1) by (simp add: recover_def)
  moreover have "tally_after tally msg = tally + v" by (simp add: tally_after_def l(2) e(2) next_sum_def v)
  ultimately show ?case using b(2) by (intro exI [of _ "b # bs"]) (simp add: l(1) v)
qed

lemma sums_nth:
  "k < length es \<Longrightarrow> sums tally es ! k = sum_message (Params (es ! k) ! 0) (tally + sum_list (map (the \<circ> summand) (take (Suc k) es)))"
proof (induction es arbitrary: tally k)
  case (Cons e es)
  then show ?case by (cases k) (simp_all add: add.assoc)
qed simp

lemma sums_length [simp]: "length (sums tally es) = length es"
  by (induction es arbitrary: tally) simp_all

subsection \<open>Properties\<close>

text \<open>The robot's conversation: whoever sends it a PRIVMSG with two parameters, one that begins with its nickname is
  answered to its target; \<open>xyzzy\<close> quits for good, \<open>plugh\<close> sends QUIT without that mark, so that \<open>Loop\<close> will
  reconnect; and \<open>wwssadadba\<close>, whose callback panics, leaves the connection as it was, as any other text does.\<close>

theorem robot_answers:
  assumes "ParseLine msg = Some (e, None)" "unbatched e" "Command e = ''PRIVMSG''" "Params e = [target, words]"
    "robot_ready upper irc" "running irc" "\<not> AllowPanic irc" "QuitMessage irc = []" "clean (Version irc)"
    "MaxLineLen irc = 0 \<or> int (length target + length (Version irc)) + 40 \<le> MaxLineLen irc"
  shows "\<exists>irc'. readLoop_line upper (robot_code env now tally) clock t msg irc = Some (Some (), irc') \<and>
    (if HasPrefix words (robot_nick env) then
       \<exists>b. irc' = irc\<lparr>pwrite := pwrite irc @ [b]\<rparr> \<and>
         ParseLine b = Some (plain_message ''PRIVMSG'' [target, ''don't @ me, fleshbag''], None)
     else if words = ''xyzzy'' then
       \<exists>b. irc' = irc\<lparr>quit := True, quitAt := now, pwrite := pwrite irc @ [b]\<rparr> \<and>
         ParseLine b = Some (plain_message ''QUIT'' [Version irc], None)
     else if words = ''plugh'' then
       \<exists>b. irc' = irc\<lparr>pwrite := pwrite irc @ [b]\<rparr> \<and>
         ParseLine b = Some (plain_message ''QUIT'' [''I'LL BE BACK''], None)
     else irc' = irc)"
proof -
  note line = robot_privmsg_line [OF assms(1-3,5), of env now tally clock t]
  have t: "middle target" "clean target" using ParseLine_clean [OF assms(1)] assms(4) by simp_all
  consider (nick) "HasPrefix words (robot_nick env)" | (quit) "\<not> HasPrefix words (robot_nick env)" "words = ''xyzzy''"
    | (plugh) "\<not> HasPrefix words (robot_nick env)" "words = ''plugh''"
    | (other) "\<not> HasPrefix words (robot_nick env)" "words \<noteq> ''xyzzy''" "words \<noteq> ''plugh''" by blast
  then show ?thesis
  proof cases
    case nick
    obtain b where "act_then (Send ''PRIVMSG'' [target, ''don't @ me, fleshbag'']) (act_return ()) irc =
        (Some (), irc\<lparr>pwrite := pwrite irc @ [b]\<rparr>)"
      "ParseLine b = Some (plain_message ''PRIVMSG'' [target, ''don't @ me, fleshbag''], None)"
      by (rule one_send [OF robot_command_ok(1) _ _ assms(6)])
        (use t assms(10) in \<open>auto simp: room_for_def clean_def\<close>)
    with nick line show ?thesis by (auto simp: on_privmsg_def assms(4) recover_def Privmsg_def)
  next
    case quit
    let ?irc = "irc\<lparr>quit := True, quitAt := now\<rparr>"
    obtain b where "act_then (Send ''QUIT'' [Version irc]) (act_return ()) ?irc =
        (Some (), ?irc\<lparr>pwrite := pwrite ?irc @ [b]\<rparr>)" "ParseLine b = Some (plain_message ''QUIT'' [Version irc], None)"
      by (rule one_send [OF robot_command_ok(2), of "[Version irc]" ?irc]) (use assms(6,9,10) in \<open>auto simp: room_for_def\<close>)
    moreover have "Quit now irc = act_then (Send ''QUIT'' [Version irc]) (act_return ()) ?irc"
      by (simp add: Quit_def assms(8) act_simps)
    ultimately show ?thesis using quit line by (auto simp: on_privmsg_def assms(4) recover_def)
  next
    case plugh
    obtain b where "act_then (Send ''QUIT'' [''I'LL BE BACK'']) (act_return ()) irc =
        (Some (), irc\<lparr>pwrite := pwrite irc @ [b]\<rparr>)" "ParseLine b = Some (plain_message ''QUIT'' [''I'LL BE BACK''], None)"
      by (rule one_send [OF robot_command_ok(2) _ _ assms(6)])
        (use assms(10) in \<open>auto simp: room_for_def clean_def\<close>)
    with plugh line show ?thesis by (auto simp: on_privmsg_def assms(4) recover_def)
  next
    case other
    then have "snd (on_privmsg (robot_nick env) now e irc) = irc"
      by (simp add: on_privmsg_def assms(4) act_simps)
    with other line assms(7) show ?thesis by (simp add: recover_def)
  qed
qed

text \<open>C37. The robot's greeting: whatever the server announced by the end of registration (376 or 422) is visible to the
  robot's connect callback, which sets the mode that the BOT token names on itself and joins its channel.\<close>

theorem robot_greets:
  assumes "ParseLine msg = Some (e, None)" "unbatched e" "Command e \<in> {''376'', ''422''}" "robot_ready upper irc"
    "running irc" "isupportPartial irc = Some tokens" "\<not> registered irc"
    "middle (currentNick irc)" "clean (currentNick irc)" "clean (bot_mode tokens)" "clean (robot_channel env)"
    "MaxLineLen irc = 0 \<or> int (length (currentNick irc) + length (robot_channel env) + length (bot_mode tokens)) + 20 \<le> MaxLineLen irc"
  shows "\<exists>irc' bs. readLoop_line upper (robot_code env now tally) clock t msg irc = Some (Some (), irc') \<and>
    ISupport irc' = tokens \<and> registered irc' \<and> pwrite irc' = pwrite irc @ bs \<and>
    map ParseLine bs = map (\<lambda>m. Some (m, None))
      ((if bot_mode tokens = [] then [] else [plain_message ''MODE'' [currentNick irc, ''+'' @ bot_mode tokens]]) @
       [plain_message ''JOIN'' [robot_channel env]])"
proof -
  define irc1 where "irc1 = handleRegistration e irc"
  have r: "running irc1" "isupport irc1 = tokens" "registered irc1" "pwrite irc1 = pwrite irc" "currentNick irc1 = currentNick irc"
    "MaxLineLen irc1 = MaxLineLen irc"
    using assms(5-7) by (simp_all add: irc1_def handleRegistration_def Let_def)
  have cbs: "map pair_callback (getCallbacks upper irc (Command e)) = [Lib HandleRegistration, Client OnConnect]" "\<not> EnableCTCP irc"
    using assms(3,4) by (auto simp: robot_ready_def)
  have b: "Command e \<noteq> ''BATCH''" using assms(3) by auto
  have line: "readLoop_line upper (robot_code env now tally) clock t msg irc =
      Some (recover (AllowPanic irc) (on_connect (robot_channel env) irc1))"
    using robot_line [OF assms(1,2) b cbs(2,1), of "robot_code env now tally" clock t]
    by (cases "on_connect (robot_channel env) irc1")
      (auto simp: run_callback_def robot_code_def act_simps irc1_def split: option.split)
  have join: "\<exists>b. act_then (Send ''JOIN'' [robot_channel env]) (act_return ()) irc2 = (Some (), irc2\<lparr>pwrite := pwrite irc2 @ [b]\<rparr>) \<and>
      ParseLine b = Some (plain_message ''JOIN'' [robot_channel env], None)"
    if "running irc2" "MaxLineLen irc2 = MaxLineLen irc" for irc2 :: robot_connection
    by (rule one_send [OF robot_command_ok(3), of "[robot_channel env]" irc2])
      (use that assms(11,12) in \<open>auto simp: room_for_def\<close>)
  show ?thesis
  proof (cases "bot_mode tokens = []")
    case True
    from join [OF r(1,6)] obtain b where
      b: "act_then (Send ''JOIN'' [robot_channel env]) (act_return ()) irc1 = (Some (), irc1\<lparr>pwrite := pwrite irc1 @ [b]\<rparr>)"
      "ParseLine b = Some (plain_message ''JOIN'' [robot_channel env], None)" by blast
    have "on_connect (robot_channel env) irc1 = (Some (), irc1\<lparr>pwrite := pwrite irc1 @ [b]\<rparr>)"
      using b(1) True by (simp add: on_connect_def ISupport_def r(2) Join_def act_then_return)
    with b(2) True show ?thesis by (auto simp: line recover_def ISupport_def r)
  next
    case False
    let ?mode = "bot_mode tokens"
    obtain b1 where b1: "act_then (Send ''MODE'' [currentNick irc, ''+'' @ ?mode]) (act_return ()) irc1 =
        (Some (), irc1\<lparr>pwrite := pwrite irc1 @ [b1]\<rparr>)"
      "ParseLine b1 = Some (plain_message ''MODE'' [currentNick irc, ''+'' @ ?mode], None)"
      by (rule one_send [OF robot_command_ok(4), of "[currentNick irc, ''+'' @ ?mode]" irc1])
        (use assms(8-10,12) r in \<open>auto simp: room_for_def clean_def\<close>)
    define irc2 where "irc2 = irc1\<lparr>pwrite := pwrite irc1 @ [b1]\<rparr>"
    have r2: "running irc2" "MaxLineLen irc2 = MaxLineLen irc" by (simp_all add: irc2_def r)
    from join [OF this] obtain b2 where b2:
      "act_then (Send ''JOIN'' [robot_channel env]) (act_return ()) irc2 = (Some (), irc2\<lparr>pwrite := pwrite irc2 @ [b2]\<rparr>)"
      "ParseLine b2 = Some (plain_message ''JOIN'' [robot_channel env], None)" by blast
    have "on_connect (robot_channel env) irc1 = (Some (), irc2\<lparr>pwrite := pwrite irc2 @ [b2]\<rparr>)"
      using b1(1) b2(1) False
      by (simp add: on_connect_def ISupport_def CurrentNick_def r(2,5) Join_def irc2_def
          act_then_def [of "act_then _ _" "act_then _ _"] act_bind_def)
    then have "readLoop_line upper (robot_code env now tally) clock t msg irc = Some (Some (), irc2\<lparr>pwrite := pwrite irc2 @ [b2]\<rparr>)"
      by (simp add: line recover_def)
    with b1(2) b2(2) False show ?thesis
      by (intro exI [of _ "irc2\<lparr>pwrite := pwrite irc2 @ [b2]\<rparr>"] exI [of _ "[b1, b2]"]) (simp add: irc2_def ISupport_def r)
  qed
qed

text \<open>C38. The robot's running sum: to a sequence of TAGMSGs whose \<open>+summand\<close> tags are numbers, in any mixture of targets,
  it sends one TAGMSG each, to the target of the request, and the \<open>+sum\<close> tag that the other side reads on the \<open>k\<close>-th
  is the sum so far, wrapped to 64 bits.\<close>

theorem robot_sums:
  assumes "robot_ready upper irc" "running irc" "map (\<lambda>(clock, now, msg). ParseLine msg) lines = map (\<lambda>e. Some (e, None)) es"
    "\<forall>e\<in>set es. good_summand (MaxLineLen irc) e"
  shows "\<exists>bs. robot_lines upper env 0 lines irc = Some (Some (), irc\<lparr>pwrite := pwrite irc @ bs\<rparr>) \<and> length bs = length es \<and>
    (\<forall>k<length es. ParseLine (bs ! k) =
      Some (sum_message (Params (es ! k) ! 0) (sum_list (map (the \<circ> summand) (take (Suc k) es))), None))"
proof -
  obtain bs where b: "robot_lines upper env 0 lines irc = Some (Some (), irc\<lparr>pwrite := pwrite irc @ bs\<rparr>)"
    "map ParseLine bs = map (\<lambda>m. Some (m, None)) (sums 0 es)"
    using robot_lines_sums [OF assms] by blast
  from arg_cong [OF b(2), of length] have l: "length bs = length es" by simp
  have "ParseLine (bs ! k) = Some (sum_message (Params (es ! k) ! 0) (sum_list (map (the \<circ> summand) (take (Suc k) es))), None)"
    if "k < length es" for k
    using arg_cong [OF b(2), of "\<lambda>xs. xs ! k"] that l by (simp add: sums_nth)
  with b(1) l show ?thesis by blast
qed

subsection \<open>Examples\<close>

definition ex_robot :: robot_connection where
  "ex_robot = (setupCallbacks (\<lambda>c. c) (robot_setup (\<lambda>c. c) zero_Connection))\<lparr>running := True, MaxLineLen := 512,
    Version := ''bot'', currentNick := ''robot'', isupportPartial := Some [''BOT'' \<mapsto> ''B''], registered := False,
    AllowPanic := False, QuitMessage := []\<rparr>"

lemma ex_robot_ready: "robot_ready (\<lambda>c. c) ex_robot"
proof -
  have "robot_ready (\<lambda>c. c) (setupCallbacks (\<lambda>c. c) (robot_setup (\<lambda>c. c) (zero_Connection :: robot_connection)))"
    by (rule robot_ready_setup) (simp_all add: zero_Connection_def)
  then show ?thesis by (simp add: robot_ready_def getCallbacks_def event_list_def ex_robot_def)
qed

lemma ex_robot_fields:
  "running ex_robot" "MaxLineLen ex_robot = 512" "Version ex_robot = ''bot''" "currentNick ex_robot = ''robot''"
  "isupportPartial ex_robot = Some [''BOT'' \<mapsto> ''B'']" "\<not> registered ex_robot" "\<not> AllowPanic ex_robot" "QuitMessage ex_robot = []"
  by (simp_all add: ex_robot_def)

lemma robot_defaults: "robot_nick (\<lambda>_. []) = ''robot''" "robot_channel (\<lambda>_. []) = ''#ircevent-test''"
  by (simp_all add: robot_nick_def robot_channel_def getenv_def)

lemma robot_answers_witness:
  "\<exists>irc'. readLoop_line (\<lambda>c. c) (robot_code (\<lambda>_. []) 3 0) [] 3 ''PRIVMSG #c xyzzy'' ex_robot = Some (Some (), irc') \<and>
    quit irc' \<and> length (pwrite irc') = length (pwrite ex_robot) + 1"
proof -
  have p: "ParseLine ''PRIVMSG #c xyzzy'' = Some (plain_message ''PRIVMSG'' [''#c'', ''xyzzy''], None)" by (simp add: parse_eval)
  have u: "unbatched (plain_message ''PRIVMSG'' [''#c'', ''xyzzy''])" by (simp add: unbatched_def GetTag_def zero_Message_def)
  have x: "\<not> HasPrefix ''xyzzy'' ''robot''" by (simp add: HasPrefix_def)
  have "clean (Version ex_robot)" by (simp add: ex_robot_fields clean_def)
  from robot_answers [OF p u _ _ ex_robot_ready ex_robot_fields(1,7,8) this, of "''#c''" "''xyzzy''" "\<lambda>_. []" 3 0 "[]" 3]
  show ?thesis by (auto simp: ex_robot_fields robot_defaults x)
qed

lemma robot_greets_witness:
  "\<exists>irc' b1 b2. readLoop_line (\<lambda>c. c) (robot_code (\<lambda>_. []) 3 0) [] 3 ''376'' ex_robot = Some (Some (), irc') \<and>
    pwrite irc' = pwrite ex_robot @ [b1, b2] \<and> ParseLine b1 = Some (plain_message ''MODE'' [''robot'', ''+B''], None)"
proof -
  have p: "ParseLine ''376'' = Some (plain_message ''376'' [], None)" by (simp add: parse_eval)
  have u: "unbatched (plain_message ''376'' [])" by (simp add: unbatched_def GetTag_def zero_Message_def)
  have b: "bot_mode [''BOT'' \<mapsto> ''B''] = ''B''" by (simp add: bot_mode_def)
  have "middle (currentNick ex_robot)" "clean (currentNick ex_robot)" "clean (bot_mode [''BOT'' \<mapsto> ''B''])"
    "clean (robot_channel (\<lambda>_. []))" by (simp_all add: ex_robot_fields b robot_defaults middle_def clean_def)
  from robot_greets [OF p u _ ex_robot_ready ex_robot_fields(1,5,6) this, of 3 0 "[]" 3]
  obtain irc' bs where g: "readLoop_line (\<lambda>c. c) (robot_code (\<lambda>_. []) 3 0) [] 3 ''376'' ex_robot = Some (Some (), irc')"
    "pwrite irc' = pwrite ex_robot @ bs" "map ParseLine bs = map (\<lambda>m. Some (m, None))
      [plain_message ''MODE'' [''robot'', ''+B''], plain_message ''JOIN'' [''#ircevent-test'']]"
    by (auto simp: ex_robot_fields robot_defaults b)
  then obtain b1 b2 where "bs = [b1, b2]" "ParseLine b1 = Some (plain_message ''MODE'' [''robot'', ''+B''], None)" by auto
  with g show ?thesis by blast
qed

lemma robot_sums_witness:
  "\<exists>b1 b2. robot_lines (\<lambda>c. c) (\<lambda>_. []) 0 [([], 1, ''@+summand=5 TAGMSG #c''), ([], 2, ''@+summand=-7 TAGMSG #d'')] ex_robot =
      Some (Some (), ex_robot\<lparr>pwrite := pwrite ex_robot @ [b1, b2]\<rparr>) \<and>
    ParseLine b2 = Some ((plain_message ''TAGMSG'' [''#d''])\<lparr>clientOnlyTags := [''+sum'' \<mapsto> ''-2'']\<rparr>, None)"
proof -
  let ?e1 = "(plain_message ''TAGMSG'' [''#c''])\<lparr>clientOnlyTags := [''+summand'' \<mapsto> ''5'']\<rparr>"
  let ?e2 = "(plain_message ''TAGMSG'' [''#d''])\<lparr>clientOnlyTags := [''+summand'' \<mapsto> ''-7'']\<rparr>"
  have p: "ParseLine ''@+summand=5 TAGMSG #c'' = Some (?e1, None)" "ParseLine ''@+summand=-7 TAGMSG #d'' = Some (?e2, None)"
    by (simp_all add: parse_eval parseTags.simps validateTagName_def valid_name_byte_def validateTagValue_def
        UnescapeTagValue_def SetTag_def RuneError_def)
  have s: "summand ?e1 = Some 5" "summand ?e2 = Some (- 7)"
    by (simp_all add: summand_def GetTag_def zero_Message_def ParseInt_def ParseUint_def digit_val_def)
  have u: "unbatched ?e1" "unbatched ?e2" by (simp_all add: unbatched_def GetTag_def zero_Message_def)
  have g: "\<forall>e\<in>set [?e1, ?e2]. good_summand (MaxLineLen ex_robot) e"
    using u by (simp add: good_summand_def s ex_robot_fields)
  have "map (\<lambda>(clock, now, msg). ParseLine msg) [([], 1, ''@+summand=5 TAGMSG #c''), ([], 2, ''@+summand=-7 TAGMSG #d'')] =
      map (\<lambda>e. Some (e, None)) [?e1, ?e2]" by (simp only: list.map prod.case p)
  from robot_sums [OF ex_robot_ready ex_robot_fields(1) this g, of "\<lambda>_. []"] obtain bs where
    b: "robot_lines (\<lambda>c. c) (\<lambda>_. []) 0 [([], 1, ''@+summand=5 TAGMSG #c''), ([], 2, ''@+summand=-7 TAGMSG #d'')] ex_robot =
      Some (Some (), ex_robot\<lparr>pwrite := pwrite ex_robot @ bs\<rparr>)" "length bs = 2"
    "ParseLine (bs ! 1) = Some (sum_message ''#d'' (5 + (- 7)), None)"
    by (auto simp: s)
  from b(2) obtain b1 b2 where "bs = [b1, b2]" by (auto simp: numeral_2_eq_2 length_Suc_conv)
  moreover have "sum_message ''#d'' (5 + (- 7)) = (plain_message ''TAGMSG'' [''#d''])\<lparr>clientOnlyTags := [''+sum'' \<mapsto> ''-2'']\<rparr>"
    by (simp add: sum_message_def FormatInt_def FormatUint.simps digit_char_def char_eval)
  ultimately show ?thesis using b(1,3) by auto
qed

text \<open>
  A client certificate alone does not turn SASL on: without a login and a password in the environment \<open>Connect\<close>
  leaves \<open>UseSASL\<close> as it is.
\<close>

lemma certificate_unused:
  assumes "simple_config load env = Inr (cfg, Some cert)" "env ''IRCEVENT_SASL_LOGIN'' = []"
  shows "SASLMech cfg = ''EXTERNAL'' \<and> \<not> UseSASL (snd (connect_config (new_connection cfg)))"
proof -
  have "SASLMech cfg = ''EXTERNAL''" "SASLLogin cfg = []" "\<not> UseSASL cfg"
    using assms by (auto simp: simple_config_def robot_config_def Let_def split: if_splits sum.splits)
  then show ?thesis
    by (simp add: connect_config_def new_connection_def Config.extend_def connect_stop_def default_identity_def
        default_sasl_def default_limits_def Let_def)
qed

text \<open>A robot behind a proxy never dials directly, at the first connection or a later one.\<close>

lemma dials_through:
  "DialContext cfg = Some d \<Longrightarrow> dials netDialer handshake servers cfg w = dials netDialer' handshake servers cfg w"
proof (induction servers arbitrary: cfg w)
  case (Cons server servers)
  have "dial netDialer handshake server cfg w = dial netDialer' handshake server cfg w"
    using Cons.prems by (simp add: dial_def)
  moreover have "DialContext (fst (snd (snd (dial netDialer' handshake server cfg w)))) = Some d"
    using Cons.prems by (auto simp: dial_def Let_def split: prod.split sum.split option.split)
  ultimately show ?case using Cons.IH by (simp add: case_prod_unfold)
qed simp

lemma proxy_used:
  assumes "proxy_config parse fromURL contextDialer env = Inr (cfg, dcfg)"
  shows "dials netDialer handshake servers dcfg w = dials netDialer' handshake servers dcfg w"
proof -
  from assms obtain d where "DialContext dcfg = Some d"
    by (auto simp: proxy_config_def robot_dial_def split: sum.splits option.splits)
  then show ?thesis by (rule dials_through)
qed

end
