(* ===== verification/Example_Stress.thy ===== *)
theory Example_Stress
  imports Example_Robot
begin

text \<open>
  \<^verbatim>\<open>ircevent/examples/stress.go\<close>: a client that sends back what it receives, on a server that echoes messages to their
  sender, up to a limit. The variable \<open>count\<close> (here \<open>seen\<close>) is passed along from line to line. The profiling listener is left
  out.
\<close>

subsection \<open>The code\<close>

definition stress_channel :: "(string \<Rightarrow> string) \<Rightarrow> string" where
  "stress_channel env = getenv env ''IRCEVENT_CHANNEL'' ''#ircevent-test''"

text \<open>\<open>strconv.Atoi\<close> parses a 64-bit decimal number.\<close>

definition stress_limit :: "(string \<Rightarrow> string) \<Rightarrow> int" where
  "stress_limit env = (case ParseInt (env ''IRCEVENT_LIMIT'') 10 64 of Some envLimit \<Rightarrow> envLimit | None \<Rightarrow> 0)"

definition stress_config :: "(string \<Rightarrow> string) \<Rightarrow> Config" where
  "stress_config env =
    \<lparr>Server = getenv env ''IRCEVENT_SERVER'' ''localhost:6667'', irc_Nick = getenv env ''IRCEVENT_NICK'' ''chatterbox'',
      irc_User = [], RealName = [], WebIRC = [], Password = [], RequestCaps = [''server-time'', ''echo-message''],
      SASLLogin = [], SASLPassword = [], SASLMech = [],
      SASLOptional = False, QuitMessage = [], Version = [], Timeout = 0, KeepAlive = 0, ReconnectFreq = 0,
      MaxLineLen = 0, UseSASL = False, EnableCTCP = False, AllowPanic = False, AllowTruncation = False\<rparr>"

datatype stress = OnWelcome | OnJoined | OnEcho

type_synonym stress_connection = "(stress, unit, unit) Connection"

definition at_limit :: "(string \<Rightarrow> string) \<Rightarrow> int \<Rightarrow> bool" where
  "at_limit env seen \<longleftrightarrow> stress_limit env \<noteq> 0 \<and> stress_limit env \<le> seen"

definition on_echo :: "(string \<Rightarrow> string) \<Rightarrow> int \<Rightarrow> int \<Rightarrow> Message \<Rightarrow> (stress_connection, unit) act" where
  "on_echo env now seen e =
    (if at_limit env seen then Quit now
     else if length (Params e) < 2 then act_panic
     else act_then (Privmsg (Params e ! 0) (Params e ! 1)) (act_return ()))"

text \<open>A panic comes before \<open>seen++\<close>.\<close>

definition next_count :: "(string \<Rightarrow> string) \<Rightarrow> int \<Rightarrow> Message \<Rightarrow> int" where
  "next_count env seen e = (if at_limit env seen \<or> length (Params e) < 2 then seen else seen + 1)"

definition stress_code :: "(string \<Rightarrow> string) \<Rightarrow> int \<Rightarrow> int \<Rightarrow> (stress, unit, unit) client_code" where
  "stress_code env now seen =
    \<lparr>run_user = (\<lambda>cb e. case cb of
         OnWelcome \<Rightarrow> act_then (Join (stress_channel env)) (act_return ())
       | OnJoined \<Rightarrow> act_then (Privmsg (stress_channel env) ''hi there friend!'') (act_return ())
       | OnEcho \<Rightarrow> on_echo env now seen e),
     run_batch = (\<lambda>_ _. act_return False), run_label = (\<lambda>_ _. act_return ())\<rparr>"

definition stress_setup :: "(nat \<Rightarrow> nat) \<Rightarrow> stress_connection \<Rightarrow> stress_connection" where
  "stress_setup upper irc =
    (let (_, irc1) = AddCallback upper irc ''001'' (Client OnWelcome);
         (_, irc2) = AddCallback upper irc1 ''JOIN'' (Client OnJoined);
         (_, irc3) = AddCallback upper irc2 ''PRIVMSG'' (Client OnEcho)
     in irc3)"

text \<open>Lines one after the other, with the count passed along; neither batches nor labels are negotiated.\<close>

definition count_after :: "(string \<Rightarrow> string) \<Rightarrow> int \<Rightarrow> string \<Rightarrow> int" where
  "count_after env seen msg =
    (case ParseLine msg of
       Some (e, None) \<Rightarrow> if Command e = ''PRIVMSG'' then next_count env seen e else seen
     | _ \<Rightarrow> seen)"

fun stress_lines :: "(nat \<Rightarrow> nat) \<Rightarrow> (string \<Rightarrow> string) \<Rightarrow> int \<Rightarrow> (string \<times> int \<times> string) list \<Rightarrow> stress_connection
    \<Rightarrow> (unit option \<times> stress_connection) option" where
  "stress_lines upper env seen [] irc = Some (Some (), irc)"
| "stress_lines upper env seen ((clock, now, msg) # rest) irc =
    (case readLoop_line upper (stress_code env now seen) clock now msg irc of
       Some (Some _, irc1) \<Rightarrow> stress_lines upper env (count_after env seen msg) rest irc1
     | r \<Rightarrow> r)"

subsection \<open>Lemmas\<close>

lemma polite_stress: "polite upper (stress_code env now seen)"
proof -
  have "(api_step upper)\<^sup>*\<^sup>* irc (snd (Quit now irc))" for irc :: stress_connection
    by (rule r_into_rtranclp [of "api_step upper"]) (rule api_step.quit)
  then show ?thesis
    by (auto simp: polite_def stress_code_def on_echo_def Join_def Privmsg_def polite_send polite_done split: stress.split)
qed

definition stress_ready :: "(nat \<Rightarrow> nat) \<Rightarrow> stress_connection \<Rightarrow> bool" where
  "stress_ready upper irc \<longleftrightarrow> \<not> EnableCTCP irc \<and> map pair_callback (getCallbacks upper irc ''PRIVMSG'') = [Client OnEcho]"

lemma stress_ready_setup:
  assumes "events irc = Map.empty" "\<not> EnableCTCP irc"
  shows "stress_ready upper (setupCallbacks upper (stress_setup upper irc))"
proof -
  have t: "ToUpper upper ''001'' = ''001''" by (simp add: ToUpper_ascii ToUpperASCII_def upper_byte_def)
  have l: "map pair_callback (event_list (stress_setup upper irc) ''PRIVMSG'') = [Client OnEcho]"
    "EnableCTCP (stress_setup upper irc) = EnableCTCP irc"
    using assms(1)
    by (auto simp: stress_setup_def AddCallback_def addCallback_def insertCallback_def robot_commands t
        accepted_def HasPrefix_def event_list_def Let_def)
  show ?thesis
    unfolding stress_ready_def getCallbacks_def robot_commands setupCallbacks_lists l(1)
    using assms(2) l(2)
    by (simp add: setupCallbacks_eq own_before_def own_after_def setup_list_def base_callbacks_def
        sasl_callbacks_def ctcp_callbacks_def final_callbacks_def RPL_ENDOFMOTD_def ERR_NOMOTD_def)
qed

lemma stress_line:
  assumes "ParseLine msg = Some (e, None)" "unbatched e" "Command e = ''PRIVMSG''" "stress_ready upper irc"
  shows "readLoop_line upper (stress_code env now seen) clock t msg irc =
    Some (recover (AllowPanic irc) (on_echo env now seen e irc))"
proof -
  have "map pair_callback (getCallbacks upper irc (Command e)) = [Client OnEcho]" "\<not> EnableCTCP irc"
    using assms(3,4) by (simp_all add: stress_ready_def)
  from robot_line [OF assms(1,2) _ this(2,1), of "stress_code env now seen" clock t] assms(3) show ?thesis
    by (cases "on_echo env now seen e irc") (auto simp: run_callback_def stress_code_def act_simps split: option.split)
qed

lemma stress_ready_frame [simp]:
  "stress_ready upper (irc\<lparr>pwrite := x\<rparr>) = stress_ready upper irc"
  "stress_ready upper (irc\<lparr>quit := q, quitAt := t, pwrite := x\<rparr>) = stress_ready upper irc"
  by (simp_all add: stress_ready_def getCallbacks_def event_list_def)

definition echo_ok :: "int \<Rightarrow> Message \<Rightarrow> bool" where
  "echo_ok limit e \<longleftrightarrow> unbatched e \<and> Command e = ''PRIVMSG'' \<and> length (Params e) = 2 \<and>
    (limit = 0 \<or> int (length (Params e ! 0) + length (Params e ! 1)) + 13 \<le> limit)"

lemma echo_line:
  assumes "ParseLine msg = Some (e, None)" "echo_ok (MaxLineLen irc) e" "stress_ready upper irc" "running irc" "\<not> at_limit env seen"
  obtains b where "readLoop_line upper (stress_code env now seen) clock t msg irc = Some (Some (), irc\<lparr>pwrite := pwrite irc @ [b]\<rparr>)"
    "ParseLine b = Some (plain_message ''PRIVMSG'' (Params e), None)"
proof -
  obtain target words where ps: "Params e = [target, words]"
    using assms(2) by (auto simp: echo_ok_def length_Suc_conv numeral_2_eq_2)
  have cl: "list_all middle (butlast (Params e))" "list_all clean (Params e)"
    using ParseLine_clean [OF assms(1)] by (simp_all add: list_all_iff)
  obtain b where b: "act_then (Send ''PRIVMSG'' (Params e)) (act_return ()) irc = (Some (), irc\<lparr>pwrite := pwrite irc @ [b]\<rparr>)"
    "ParseLine b = Some (plain_message ''PRIVMSG'' (Params e), None)"
    by (rule one_send [OF robot_command_ok(1) cl assms(4)]) (use assms(2) in \<open>auto simp: room_for_def echo_ok_def ps\<close>)
  have "readLoop_line upper (stress_code env now seen) clock t msg irc = Some (Some (), irc\<lparr>pwrite := pwrite irc @ [b]\<rparr>)"
    using stress_line [OF assms(1) _ _ assms(3), of env now seen clock t] b(1) assms(2,5)
    by (simp add: echo_ok_def on_echo_def ps Privmsg_def recover_def)
  with b(2) show thesis by (rule that [rotated])
qed

lemma stress_echoes:
  assumes "stress_ready upper irc" "running irc" "map (\<lambda>(clock, now, msg). ParseLine msg) lines = map (\<lambda>e. Some (e, None)) es"
    "\<forall>e\<in>set es. echo_ok (MaxLineLen irc) e" "0 \<le> seen" "stress_limit env = 0 \<or> seen + int (length es) \<le> stress_limit env"
  shows "\<exists>bs. (\<forall>more. stress_lines upper env seen (lines @ more) irc =
      stress_lines upper env (seen + int (length es)) more (irc\<lparr>pwrite := pwrite irc @ bs\<rparr>)) \<and>
    map ParseLine bs = map (\<lambda>e. Some (plain_message ''PRIVMSG'' (Params e), None)) es"
  using assms
proof (induction es arbitrary: lines irc seen)
  case Nil
  then show ?case by (intro exI [of _ "[]"]) simp
next
  case (Cons e es)
  then obtain clock now msg rest where l: "lines = (clock, now, msg) # rest" "ParseLine msg = Some (e, None)"
    "map (\<lambda>(clock, now, msg). ParseLine msg) rest = map (\<lambda>e. Some (e, None)) es"
    by (cases lines) auto
  have e: "echo_ok (MaxLineLen irc) e" using Cons.prems(4) by simp
  have lim: "\<not> at_limit env seen" using Cons.prems(6) by (auto simp: at_limit_def)
  obtain b where b: "readLoop_line upper (stress_code env now seen) clock now msg irc = Some (Some (), irc\<lparr>pwrite := pwrite irc @ [b]\<rparr>)"
    "ParseLine b = Some (plain_message ''PRIVMSG'' (Params e), None)"
    by (rule echo_line [OF l(2) e Cons.prems(1,2) lim])
  let ?irc = "irc\<lparr>pwrite := pwrite irc @ [b]\<rparr>"
  have "count_after env seen msg = seen + 1"
    using e lim by (simp add: count_after_def l(2) next_count_def echo_ok_def)
  moreover from Cons.IH [of ?irc rest "seen + 1"] Cons.prems l(3) obtain bs where
    "\<And>more. stress_lines upper env (seen + 1) (rest @ more) ?irc =
      stress_lines upper env (seen + 1 + int (length es)) more (?irc\<lparr>pwrite := pwrite ?irc @ bs\<rparr>)"
    "map ParseLine bs = map (\<lambda>e. Some (plain_message ''PRIVMSG'' (Params e), None)) es" by auto
  ultimately show ?case using b by (intro exI [of _ "b # bs"]) (simp add: l(1) algebra_simps)
qed

subsection \<open>Properties\<close>

text \<open>C39. The stress test ends: with a positive limit \<open>n\<close> it sends the first \<open>n\<close> messages it receives back as they came,
  and the next one, whatever it is, makes it quit.\<close>

theorem stress_ends:
  assumes "stress_ready upper irc" "running irc" "0 < stress_limit env" "int (length es) = stress_limit env"
    "map (\<lambda>(clock, now, msg). ParseLine msg) lines = map (\<lambda>e. Some (e, None)) es" "\<forall>e\<in>set es. echo_ok (MaxLineLen irc) e"
    "ParseLine msg = Some (e, None)" "unbatched e" "Command e = ''PRIVMSG''"
  shows "\<exists>bs. stress_lines upper env 0 lines irc = Some (Some (), irc\<lparr>pwrite := pwrite irc @ bs\<rparr>) \<and>
    map ParseLine bs = map (\<lambda>e. Some (plain_message ''PRIVMSG'' (Params e), None)) es \<and>
    stress_lines upper env 0 (lines @ [(clock, now, msg)]) irc =
      Some (recover (AllowPanic irc) (Quit now (irc\<lparr>pwrite := pwrite irc @ bs\<rparr>)))"
proof -
  obtain bs where b: "map ParseLine bs = map (\<lambda>e. Some (plain_message ''PRIVMSG'' (Params e), None)) es"
    and s: "\<And>more. stress_lines upper env 0 (lines @ more) irc =
      stress_lines upper env (stress_limit env) more (irc\<lparr>pwrite := pwrite irc @ bs\<rparr>)"
    using stress_echoes [OF assms(1,2,5,6), of 0 env] assms(4) by auto
  let ?irc = "irc\<lparr>pwrite := pwrite irc @ bs\<rparr>"
  have "at_limit env (stress_limit env)" using assms(3) by (simp add: at_limit_def)
  then have q: "readLoop_line upper (stress_code env now (stress_limit env)) clock now msg ?irc =
      Some (recover (AllowPanic irc) (Quit now ?irc))"
    using stress_line [OF assms(7-9), of upper ?irc env now "stress_limit env" clock now] assms(1) by (simp add: on_echo_def)
  have "stress_lines upper env 0 (lines @ [(clock, now, msg)]) irc = Some (recover (AllowPanic irc) (Quit now ?irc))"
    by (cases "recover (AllowPanic irc) (Quit now ?irc)") (auto simp: s q split: option.split)
  with b s [of "[]"] show ?thesis by auto
qed

lemma stress_ends_witness:
  "\<exists>bs r. stress_lines (\<lambda>c. c) (\<lambda>k. if k = ''IRCEVENT_LIMIT'' then ''2'' else []) 0
      [([], 1, ''PRIVMSG #c :hi''), ([], 2, ''PRIVMSG #c :ho''), ([], 3, ''PRIVMSG #c :hi'')]
      ((setupCallbacks (\<lambda>c. c) (stress_setup (\<lambda>c. c) zero_Connection))\<lparr>running := True, MaxLineLen := 512\<rparr>) = Some r \<and>
    quit (snd r) \<and> length bs = 2 \<and> map ParseLine bs =
      [Some (plain_message ''PRIVMSG'' [''#c'', ''hi''], None), Some (plain_message ''PRIVMSG'' [''#c'', ''ho''], None)]"
proof -
  let ?env = "\<lambda>k. if k = ''IRCEVENT_LIMIT'' then ''2'' else []"
  define irc where "irc = ((setupCallbacks (\<lambda>c. c) (stress_setup (\<lambda>c. c) zero_Connection))\<lparr>running := True, MaxLineLen := 512\<rparr>)"
  have "stress_ready (\<lambda>c. c) (setupCallbacks (\<lambda>c. c) (stress_setup (\<lambda>c. c) zero_Connection))"
    by (rule stress_ready_setup) (simp_all add: zero_Connection_def)
  then have r: "stress_ready (\<lambda>c. c) irc" by (simp add: stress_ready_def getCallbacks_def event_list_def irc_def)
  have f: "running irc" "MaxLineLen irc = 512" by (simp_all add: irc_def)
  have l: "stress_limit ?env = 2" by (simp add: stress_limit_def ParseInt_def ParseUint_def digit_val_def)
  let ?e1 = "plain_message ''PRIVMSG'' [''#c'', ''hi'']" and ?e2 = "plain_message ''PRIVMSG'' [''#c'', ''ho'']"
  have p: "ParseLine ''PRIVMSG #c :hi'' = Some (?e1, None)" "ParseLine ''PRIVMSG #c :ho'' = Some (?e2, None)"
    by (simp_all add: parse_eval)
  have u: "unbatched ?e1" "unbatched ?e2" by (simp_all add: unbatched_def GetTag_def zero_Message_def)
  then have ok: "\<forall>e\<in>set [?e1, ?e2]. echo_ok (MaxLineLen irc) e" by (simp add: echo_ok_def f)
  have m: "map (\<lambda>(clock, now, msg). ParseLine msg) [([], 1, ''PRIVMSG #c :hi''), ([], 2, ''PRIVMSG #c :ho'')] =
      map (\<lambda>e. Some (e, None)) [?e1, ?e2]" by (simp only: list.map prod.case p)
  have q: "quit (snd (Quit 3 irc1))" for irc1 :: stress_connection
  proof -
    have k: "quit (snd (Send c ps irc2)) = quit irc2" for c ps and irc2 :: stress_connection
      unfolding Send_def SendWithTags_def by (rule SendIRCMessage_cases [of irc2 "MakeMessage [] [] c ps" "[]" "[]"]; simp)
    show ?thesis by (simp add: Quit_def Let_def act_simps case_prod_beta k split: option.split)
  qed
  let ?two = "[([], 1, ''PRIVMSG #c :hi''), ([], 2, ''PRIVMSG #c :ho'')]"
  have ex: "\<exists>bs. stress_lines (\<lambda>c. c) ?env 0 ?two irc = Some (Some (), irc\<lparr>pwrite := pwrite irc @ bs\<rparr>) \<and>
    map ParseLine bs = map (\<lambda>e. Some (plain_message ''PRIVMSG'' (Params e), None)) [?e1, ?e2] \<and>
    stress_lines (\<lambda>c. c) ?env 0 (?two @ [([], 3, ''PRIVMSG #c :hi'')]) irc =
      Some (recover (AllowPanic irc) (Quit 3 (irc\<lparr>pwrite := pwrite irc @ bs\<rparr>)))"
    by (rule stress_ends [OF r f(1) _ _ m ok p(1) u(1)]) (simp_all add: l)
  then obtain bs where b: "map ParseLine bs = map (\<lambda>e. Some (plain_message ''PRIVMSG'' (Params e), None)) [?e1, ?e2]"
    and s: "stress_lines (\<lambda>c. c) ?env 0 (?two @ [([], 3, ''PRIVMSG #c :hi'')]) irc =
      Some (recover (AllowPanic irc) (Quit 3 (irc\<lparr>pwrite := pwrite irc @ bs\<rparr>)))" by blast
  have "length bs = 2" using arg_cong [OF b, of length] by simp
  moreover have "quit (snd (recover (AllowPanic irc) (Quit 3 (irc\<lparr>pwrite := pwrite irc @ bs\<rparr>))))"
    using q by (simp add: recover_def)
  moreover have "map ParseLine bs = [Some (plain_message ''PRIVMSG'' [''#c'', ''hi''], None),
      Some (plain_message ''PRIVMSG'' [''#c'', ''ho''], None)]" using b by simp
  ultimately show ?thesis unfolding irc_def [symmetric] using s unfolding append.simps
    by (intro exI [of _ bs] exI [of _ "recover (AllowPanic irc) (Quit 3 (irc\<lparr>pwrite := pwrite irc @ bs\<rparr>))"] conjI)
qed

end
