(* ===== verification/Spec2Isabelle.thy ===== *)
theory Spec2Isabelle
  imports Msg_Line Reader Utils_SASL Utils_Sanitize Utils_Hostnames Fmt_Escape
    Event_Loop Event_Wire Event_Dial Event_Labeled Event_Numerics
    Event_Label_Race Event_ISupport Example_Stress
begin

text \<open>
  Verification of irc-go, the IRC client library of the Ergo project.

  \<^bold>\<open>The program.\<close> Five Go packages. \<^verbatim>\<open>ircmsg\<close> parses and serializes IRC lines with their tags and sources.
  \<^verbatim>\<open>ircreader\<close> cuts a byte stream into lines. \<^verbatim>\<open>ircutils\<close> checks host names, sanitizes text and encodes SASL
  responses. \<^verbatim>\<open>ircfmt\<close> translates formatting codes. \<^verbatim>\<open>ircevent\<close> is the client: a \<open>Connection\<close> that is dialed,
  negotiates capabilities, registers, dispatches the received lines to callbacks, collects batches and
  labeled responses, keeps itself alive with PINGs, and reconnects; three example programs use it. It calls \<^verbatim>\<open>ircmsg\<close> for every line sent or
  received, \<^verbatim>\<open>ircreader\<close> on its socket and \<^verbatim>\<open>ircutils\<close> for SASL.

  \<^bold>\<open>Theories and sources\<close>, from the bottom up:
  \<^item> \<open>Irc_Prelude\<close>, \<open>Go_Utf8\<close>, \<open>Go_Strings\<close>, \<open>Go_Base64\<close>, \<open>Go_Strconv\<close>: the parts of Go's standard library
    that the packages call, on byte strings (lists of 8-bit \<open>char\<close>). \<open>'a go\<close> is a result that may be a
    run-time panic, \<open>None\<close>. \<open>Irc_Prelude\<close> has the shared lemmas, the collections \<open>go_eval\<close> and \<open>str_simps\<close>
    and the interface \<open>codec\<close> of an encoder with its decoder.
  \<^item> \<open>Msg_Tags\<close> (\<^verbatim>\<open>ircmsg/tags.go\<close>), \<open>Msg_Userhost\<close> (\<^verbatim>\<open>userhost.go\<close>), \<open>Msg_Unicode\<close> (\<^verbatim>\<open>unicode.go\<close>), and for
    \<^verbatim>\<open>message.go\<close> \<open>Msg_Message\<close> (type and tags), \<open>Msg_Parse\<close> (parser) and \<open>Msg_Line\<close> (serializer).
  \<^item> \<open>Reader_Round\<close>, \<open>Reader\<close>: \<^verbatim>\<open>ircreader/ircreader.go\<close>.
  \<^item> \<open>Utils_Hostnames\<close>, \<open>Utils_Sanitize\<close>, \<open>Utils_SASL\<close>: \<^verbatim>\<open>ircutils/hostnames.go\<close>, \<^verbatim>\<open>unicode.go\<close>, \<^verbatim>\<open>sasl.go\<close>.
  \<^item> \<open>Fmt_Split\<close>, \<open>Fmt_Escape\<close>: \<^verbatim>\<open>ircfmt/ircfmt.go\<close>.
  \<^item> \<open>Event_Connection\<close>: \<^verbatim>\<open>ircevent/irc_struct.go\<close> and the sending half of \<^verbatim>\<open>irc.go\<close>. \<open>Event_Registry\<close>: the
    callback tables of \<^verbatim>\<open>irc_callback.go\<close>. \<open>Event_Batch\<close>, \<open>Event_Assembly\<close>: its batches and labels.
    \<open>Event_Handlers\<close>: the handlers of \<^verbatim>\<open>irc_callback.go\<close>, \<^verbatim>\<open>irc_sasl.go\<close>, \<^verbatim>\<open>irc_ctcp.go\<close>. \<open>Event_Dispatch\<close>:
    \<open>HandleMessage\<close>, \<open>runCallbacks\<close>. \<open>Event_Numerics\<close>: \<^verbatim>\<open>numerics.go\<close>.
  \<^item> \<open>Event_Lifecycle\<close>: \<open>Connect\<close>, \<open>negotiateCaps\<close>, \<open>processTick\<close>, \<open>waitForStop\<close> and the goroutines of
    \<^verbatim>\<open>irc.go\<close>. \<open>Event_Loop\<close>: its \<open>Loop\<close>. \<open>Event_Wire\<close>: \<open>writeLoop\<close>, \<open>readMsgLoop\<close>, \<open>readLoop\<close>. \<open>Event_Dial\<close>:
    \<open>dial\<close>. \<open>Event_Labeled\<close>: \<open>GetLabeledResponse\<close>. \<open>Event_Label_Race\<close>: \<open>SendWithLabel\<close> section by section.
  \<^item> \<open>Example_Robot\<close>, \<open>Example_Stress\<close>: \<^verbatim>\<open>ircevent/examples\<close>, \<^verbatim>\<open>simple.go\<close> with \<^verbatim>\<open>proxy.go\<close>, and \<^verbatim>\<open>stress.go\<close>.
  \<^item> \<open>Event_Invariants\<close>, \<open>Event_Negotiate\<close>, \<open>Event_Clients\<close>, \<open>Event_Safety\<close>, \<open>Event_Progress\<close>,
    \<open>Event_ISupport\<close>: no further code, but what it keeps and where it gets to.

  \<^bold>\<open>State and operations.\<close> Structs are records with the source's fields, errors are datatypes with the source's
  names, results are sums or pairs as the code has them. A Go map is a partial function; where the code ranges
  over a map, the order is an argument, and the properties hold for every order. The \<open>Connection\<close> is one
  record in the groups of the source (\<open>Config\<close>, \<open>Networking\<close>, \<open>Protocol\<close>, \<open>Connection\<close>); a mutex is not a
  field: a critical section is one step. A method that may panic half-way is an \<open>act\<close>, which returns the
  state it leaves in either case. The queue to the writer, \<open>pwrite\<close>, is the list of what was handed over.
  Batches live in a store with addresses, since a nested batch is linked into its parent while both are open.
  The functions of the client are names with an interpretation, \<open>client_code\<close>, which may do anything to the
  connection that \<open>polite\<close> allows, and in the steps below may be others at every step, as they keep state of their own.

  The goroutines are interleaved agents: \<open>goroutine_step\<close> (reader, pinger, writer, client calls),
  \<open>Connect_step\<close> (a program counter from one blocking operation or send to the next), \<open>waitForStop\<close>, together
  \<open>sys_step\<close>, and on top of it \<open>loop_step\<close>, in which \<open>Loop\<close> and the clock move too. \<open>sys_reachable\<close> and
  \<open>loop_reachable\<close> are the states that these steps can reach.

  \<^bold>\<open>Interfaces.\<close> \<open>codec\<close>: decoding undoes encoding, so the encoder is injective; its instances are tag values,
  sources, base64, SASL responses, labels, ISUPPORT values and \<open>ircfmt\<close>. \<open>tag_store\<close>: the laws of lookup, insertion and deletion of
  tags. \<open>safe_truncation\<close>: a truncation that never splits a character. \<open>callback_table\<close>: what adding and removing a
  callback promises, for callbacks added behind, in front, and for batches. \<open>kept\<close>, \<open>kept_by_protocol\<close>,
  \<open>kept_by_handlers\<close>, \<open>kept_by_lines\<close>, \<open>kept_by_client\<close> and \<open>kept_by_goroutines\<close> build on one another: a
  predicate that a few primitive updates keep is kept by every send, handler, line, call of the client and
  goroutine. They are interpreted with the session invariant, the state of ISUPPORT, the facts that \<open>Loop\<close> rests
  on, the recorded error, and the example connection.

  \<^bold>\<open>What the lemmas show.\<close>
  \<^item> Messages: the parser accepts exactly a grammar, stated as inductive relations; what is serialized is
    accepted or refused exactly on stated conditions, respects the limits, is one line, and parses back to
    the message; truncation removes whole characters.
  \<^item> Reader: whatever the sizes of the reads, the calls return the lines of the stream, and never more than
    the limit; a refinement of a reader that sees the whole stream.
  \<^item> Utilities and formatting: host names against their syntax, greedy sanitizing, SASL chunking and its inverse,
    \<open>Split\<close> against a byte-wise specification, \<open>Unescape\<close> after \<open>Escape\<close>.
  \<^item> Tables, batches, labels: numbers are unique and registration can be undone; a closed batch is the tree its
    lines stand for, however they are interleaved; a label's function is called once, also when calls overlap, and a labeled wait returns
    with its own response; what a reconnection between the sections of a call does; the cases in which nested batches and shared numbers go wrong.
  \<^item> Connection: no goroutine closes a closed channel in any reachable state; a \<open>Connect\<close> that fails leaves
    nothing running, one that succeeds is registered; only requested capabilities are acknowledged; a dead peer
    is found out; a stopped connection winds down; after \<open>Quit\<close> there is no new connection and \<open>Loop\<close> returns;
    reconnections keep their distance; TLS verifies the host that was dialed; what one side sends the other
    side handles, line by line and in order, through the serializer, the socket loops, the reader and the parser; the
    client knows what the server announced.
  \<^item> Examples: their callbacks are polite clients, so all of the above holds of them; what they answer to which
    lines; the running sum; the end of the stress test.

  \<^bold>\<open>Bounds, termination, parameters.\<close> Recursion is on the data or proved to terminate, and no definition runs on
  fuel. Two loops may fail to end in the code and are \<open>partial_function (option)\<close>: \<open>ReadLine\<close>, when reads
  return nothing for ever, and \<open>naive_items\<close>, on a batch inside itself; that they return is proved where it is
  claimed. \<open>readMsgLoop\<close> takes the number of lines that are received before \<open>end\<close> is closed. The sizes of
  the reader's buffer are 64-bit words; limits, times and durations are \<open>int\<close>, as they are compared and added
  far below the bounds of \<open>int64\<close>. Parameters are the connection (\<open>io.Reader\<close>, \<open>io.Writer\<close>), the dialer
  and TLS handshake, the case tables of \<open>unicode\<close> beyond ASCII, \<open>fmt.Sprintf\<close> with a client's format, the
  clock, and the client's functions.

  \<^bold>\<open>Not modelled\<close>: logging; the deadlines of \<open>writeLoop\<close> and \<open>dial\<close>; the fields of
  \<open>tls.Config\<close> that the code does not touch; interleavings inside the handling of one received line, which
  is one step; the aliasing of a line returned by \<open>ReadLine\<close> with the reader's buffer, of the callback lists with
  their tables, and of a message's parameters with a copy that a client keeps; the profiling listener of
  \<^verbatim>\<open>stress.go\<close>.
\<close>

end
